(* ===== verification/Prelude.thy ===== *)
theory Prelude
  imports Main "HOL-Library.AList" "HOL-Library.Multiset" "HOL-Library.Word"
begin

text \<open>
  The vocabulary the component theories share: how a Go computation can end (a value, a
  panic, a channel operation that would block), machine integers, Go maps with the
  unspecified order of their \<open>range\<close> loops, and the generic lemmas about them.

  \<^item> \<open>'a go\<close> is the result of running a piece of Go: \<open>Inr v\<close> is a normal return,
    \<open>Inl s\<close> says why the goroutine stopped (a run-time panic, or a channel send that
    finds the buffer full).
  \<^item> \<open>('k, 'v) gomap\<close> is a Go map: an association list with distinct keys
    (\<open>map_wf\<close>), read with \<open>map_of\<close> and changed with \<open>mput\<close> and \<open>mdel\<close>.
    A nil map and an empty map are both \<open>[]\<close>: they differ only when written to.
  \<^item> Go leaves the order of a \<open>range\<close> over a map open and may choose another one at
    every loop. Each function that ranges over a map takes the order of that loop as an
    argument, a function that permutes the list of keys (\<open>is_order\<close>).
\<close>

named_theorems go_simps \<open>rewrite rules for Go computations\<close>
named_theorems map_simps \<open>lookups after updates, well-formedness of maps\<close>

subsection \<open>Computations that may stop\<close>

datatype stop = IndexOutOfRange | NilDereference | SendOnClosed | WouldBlock

type_synonym 'a go = "stop + 'a"

type_synonym int64 = "64 word"
type_synonym uint32 = "32 word"
type_synonym byte = "8 word"
type_synonym bytes = "byte list"

definition go_bind :: "'a go \<Rightarrow> ('a \<Rightarrow> 'b go) \<Rightarrow> 'b go" where
  "go_bind m f = (case m of Inl s \<Rightarrow> Inl s | Inr x \<Rightarrow> f x)"

lemma go_bind_Inl [simp, go_simps]: "go_bind (Inl s) f = Inl s"
  by (simp add: go_bind_def)

lemma go_bind_Inr [simp, go_simps]: "go_bind (Inr x) f = f x"
  by (simp add: go_bind_def)

lemma go_bind_eq_Inr [go_simps]:
  "go_bind m f = Inr y \<longleftrightarrow> (\<exists>x. m = Inr x \<and> f x = Inr y)"
  by (cases m) auto

lemma go_bind_eq_Inl:
  "go_bind m f = Inl s \<longleftrightarrow> m = Inl s \<or> (\<exists>x. m = Inr x \<and> f x = Inl s)"
  by (cases m) auto

lemma go_bind_assoc: "go_bind (go_bind m f) g = go_bind m (\<lambda>x. go_bind (f x) g)"
  by (cases m) auto

text \<open>A loop over a slice whose body may stop, and a loop that collects one value per element.\<close>

fun go_fold :: "('a \<Rightarrow> 's \<Rightarrow> 's go) \<Rightarrow> 'a list \<Rightarrow> 's \<Rightarrow> 's go" where
  "go_fold f [] s = Inr s"
| "go_fold f (x # xs) s = go_bind (f x s) (go_fold f xs)"

fun go_map :: "('a \<Rightarrow> 'b go) \<Rightarrow> 'a list \<Rightarrow> 'b list go" where
  "go_map f [] = Inr []"
| "go_map f (x # xs) = go_bind (f x) (\<lambda>y. go_bind (go_map f xs) (\<lambda>ys. Inr (y # ys)))"

lemma go_fold_append:
  "go_fold f (xs @ ys) s = go_bind (go_fold f xs s) (go_fold f ys)"
  by (induction xs arbitrary: s) (auto simp: go_bind_assoc split: sum.split intro!: arg_cong2 [where f = go_bind])

lemma go_fold_pure:
  "(\<And>x s. x \<in> set xs \<Longrightarrow> f x s = Inr (g x s)) \<Longrightarrow> go_fold f xs s = Inr (fold g xs s)"
  by (induction xs arbitrary: s) auto

text \<open>The invariant rule of a loop that may stop.\<close>

lemma go_fold_invariant:
  assumes "go_fold f xs s = Inr t" and "P s"
    and "\<And>x s t. x \<in> set xs \<Longrightarrow> P s \<Longrightarrow> f x s = Inr t \<Longrightarrow> P t"
  shows "P t"
  using assms
proof (induction xs arbitrary: s)
  case Nil
  then show ?case by simp
next
  case (Cons x xs)
  then obtain u where "f x s = Inr u" and "go_fold f xs u = Inr t"
    by (auto simp: go_bind_eq_Inr)
  moreover from this(1) have "P u"
    using Cons.prems(2,3) by (meson list.set_intros(1))
  ultimately show ?case
    using Cons.IH Cons.prems(3) by (meson list.set_intros(2))
qed

text \<open>A loop returns when its body returns in every state that the invariant allows.\<close>

lemma go_fold_returns:
  assumes "P s" and "\<And>x s. x \<in> set xs \<Longrightarrow> P s \<Longrightarrow> \<exists>t. f x s = Inr t \<and> P t"
  shows "\<exists>t. go_fold f xs s = Inr t \<and> P t"
  using assms
proof (induction xs arbitrary: s)
  case Nil
  then show ?case by simp
next
  case (Cons x xs)
  then obtain t where "f x s = Inr t" and "P t" by (meson list.set_intros(1))
  moreover have "\<exists>u. go_fold f xs t = Inr u \<and> P u"
    using Cons.IH [OF \<open>P t\<close>] Cons.prems(2) by auto
  ultimately show ?case by auto
qed

lemma go_fold_stops:
  assumes "x \<in> set xs" and "\<And>t. f x t = Inl e"
    and "\<And>y t s. y \<in> set xs \<Longrightarrow> f y t = Inl s \<Longrightarrow> s = e"
  shows "go_fold f xs s = Inl e"
  using assms
proof (induction xs arbitrary: s)
  case Nil
  then show ?case by simp
next
  case (Cons y ys)
  show ?case
  proof (cases "f y s")
    case (Inl r)
    with Cons.prems(3) [of y s r] show ?thesis by simp
  next
    case (Inr t)
    with Cons.prems(2) have "x \<noteq> y" by auto
    with Cons.prems(1) have "x \<in> set ys" by simp
    then have "go_fold f ys t = Inl e"
      using Cons.IH Cons.prems(2,3) by (meson list.set_intros(2))
    with Inr show ?thesis by simp
  qed
qed

text \<open>A loop stops in some turn of its body, in a state that the invariant allows.\<close>

lemma go_fold_Inl:
  assumes "go_fold f xs s = Inl e" and "P s"
    and "\<And>x s t. x \<in> set xs \<Longrightarrow> P s \<Longrightarrow> f x s = Inr t \<Longrightarrow> P t"
  shows "\<exists>x \<in> set xs. \<exists>t. P t \<and> f x t = Inl e"
  using assms
proof (induction xs arbitrary: s)
  case (Cons x xs)
  show ?case
  proof (cases "f x s")
    case (Inl r)
    with Cons.prems show ?thesis by auto
  next
    case (Inr t)
    then have "P t" and "go_fold f xs t = Inl e" using Cons.prems by auto
    then have "\<exists>x \<in> set xs. \<exists>t. P t \<and> f x t = Inl e"
      using Cons.IH Cons.prems(3) by (meson list.set_intros(2))
    then show ?thesis by auto
  qed
qed simp

lemma go_fold_Inr_each:
  "go_fold f xs s = Inr t \<Longrightarrow> x \<in> set xs \<Longrightarrow> \<exists>u v. f x u = Inr v"
  by (induction xs arbitrary: s) (auto simp: go_bind_eq_Inr)

lemma go_map_Inl: "go_map f xs = Inl e \<Longrightarrow> \<exists>x \<in> set xs. f x = Inl e"
  by (induction xs) (auto simp: go_bind_eq_Inl)

lemma go_map_Inr_each: "go_map f xs = Inr ys \<Longrightarrow> x \<in> set xs \<Longrightarrow> \<exists>y \<in> set ys. f x = Inr y"
  by (induction xs arbitrary: ys) (auto simp: go_bind_eq_Inr)

lemma go_map_returns: "(\<And>x. x \<in> set xs \<Longrightarrow> \<exists>y. f x = Inr y) \<Longrightarrow> \<exists>ys. go_map f xs = Inr ys"
  by (induction xs) (auto, metis go_bind_Inr)

lemma go_map_pure:
  "(\<And>x. x \<in> set xs \<Longrightarrow> f x = Inr (g x)) \<Longrightarrow> go_map f xs = Inr (map g xs)"
  by (induction xs) auto

lemma go_map_eq_Inr:
  "go_map f xs = Inr ys \<longleftrightarrow> list_all2 (\<lambda>x y. f x = Inr y) xs ys"
  by (induction xs arbitrary: ys) (auto simp: go_bind_eq_Inr list_all2_Cons1)

text \<open>Indexing a slice.\<close>

definition go_nth :: "'a list \<Rightarrow> nat \<Rightarrow> 'a go" where
  "go_nth xs i = (if i < length xs then Inr (xs ! i) else Inl IndexOutOfRange)"

lemma go_nth_in [simp, go_simps]: "i < length xs \<Longrightarrow> go_nth xs i = Inr (xs ! i)"
  by (simp add: go_nth_def)

lemma go_nth_out [simp, go_simps]: "length xs \<le> i \<Longrightarrow> go_nth xs i = Inl IndexOutOfRange"
  by (simp add: go_nth_def)

subsection \<open>Searching loops\<close>

lemma find_SomeD: "find P xs = Some x \<Longrightarrow> x \<in> set xs \<and> P x"
  by (auto simp: find_Some_iff)

lemma find_None_ball: "find P xs = None \<longleftrightarrow> (\<forall>x \<in> set xs. \<not> P x)"
  by (auto simp: find_None_iff)

subsection \<open>Go maps\<close>

type_synonym ('k, 'v) gomap = "('k \<times> 'v) list"

definition map_wf :: "('k, 'v) gomap \<Rightarrow> bool" where
  "map_wf m \<longleftrightarrow> distinct (map fst m)"

definition mput :: "'k \<Rightarrow> 'v \<Rightarrow> ('k, 'v) gomap \<Rightarrow> ('k, 'v) gomap" where
  "mput k v m = AList.update k v m"

definition mdel :: "'k \<Rightarrow> ('k, 'v) gomap \<Rightarrow> ('k, 'v) gomap" where
  "mdel k m = AList.delete k m"

abbreviation mhas :: "('k, 'v) gomap \<Rightarrow> 'k \<Rightarrow> bool" where
  "mhas m k \<equiv> map_of m k \<noteq> None"

text \<open>A map of slices, and \<open>m[k] = append(m[k], x)\<close> on it.\<close>

definition mvals :: "('k, 'v list) gomap \<Rightarrow> 'k \<Rightarrow> 'v list" where
  "mvals m k = (case map_of m k of None \<Rightarrow> [] | Some xs \<Rightarrow> xs)"

definition mappend :: "'k \<Rightarrow> 'v \<Rightarrow> ('k, 'v list) gomap \<Rightarrow> ('k, 'v list) gomap" where
  "mappend k x m = mput k (mvals m k @ [x]) m"

text \<open>
  The interface: what a lookup sees after each operation. The lemmas of the block hold for
  every implementation of it; the loops of the program that fill a map one entry at a time
  are instances.
\<close>

locale go_map_spec =
  fixes empty :: "'m"
    and put :: "'k \<Rightarrow> 'v \<Rightarrow> 'm \<Rightarrow> 'm"
    and del :: "'k \<Rightarrow> 'm \<Rightarrow> 'm"
    and get :: "'m \<Rightarrow> 'k \<Rightarrow> 'v option"
    and wf :: "'m \<Rightarrow> bool"
  assumes get_empty: "get empty k = None"
    and get_put: "get (put k v m) = (get m)(k \<mapsto> v)"
    and get_del: "get (del k m) = (get m)(k := None)"
    and wf_empty: "wf empty"
    and wf_put: "wf m \<Longrightarrow> wf (put k v m)"
    and wf_del: "wf m \<Longrightarrow> wf (del k m)"
begin

lemma wf_fold_put: "wf m \<Longrightarrow> wf (fold (\<lambda>x. put (key x) (val x)) xs m)"
  by (induction xs arbitrary: m) (auto simp: wf_put)

lemma get_fold_put:
  "get (fold (\<lambda>x. put (key x) (val x)) xs m) = get m ++ map_of (rev (map (\<lambda>x. (key x, val x)) xs))"
proof (induction xs arbitrary: m)
  case Nil
  show ?case by simp
next
  case (Cons x xs)
  show ?case by (rule ext) (simp add: Cons.IH get_put map_add_def split: option.split)
qed

lemma get_fold_put_None:
  "get (fold (\<lambda>x. put (key x) (val x)) xs m) k = None \<longleftrightarrow> get m k = None \<and> k \<notin> key ` set xs"
  by (induction xs arbitrary: m) (auto simp: get_put)

lemma get_fold_put_distinct:
  assumes "distinct (map key xs)" and "x \<in> set xs"
  shows "get (fold (\<lambda>x. put (key x) (val x)) xs m) (key x) = Some (val x)"
proof -
  have "map_of (rev (map (\<lambda>x. (key x, val x)) xs)) (key x) = Some (val x)"
    using assms by (intro map_of_is_SomeI) (auto simp: rev_map [symmetric] comp_def)
  then show ?thesis by (simp add: get_fold_put)
qed

lemma get_fold_del: "get (fold del ks m) k = (if k \<in> set ks then None else get m k)"
  by (induction ks arbitrary: m) (auto simp: get_del)

lemma wf_fold_del: "wf m \<Longrightarrow> wf (fold del ks m)"
  by (induction ks arbitrary: m) (auto simp: wf_del)

end

lemma map_of_mput [simp, map_simps]: "map_of (mput k v m) = (map_of m)(k \<mapsto> v)"
  by (simp add: mput_def update_conv')

lemma map_of_mdel [simp, map_simps]: "map_of (mdel k m) = (map_of m)(k := None)"
  by (simp add: mdel_def delete_conv')

lemma map_wf_Nil [simp, map_simps]: "map_wf []"
  by (simp add: map_wf_def)

lemma map_of_rev_wf: "map_wf m \<Longrightarrow> map_of (rev m) = map_of m"
  unfolding map_wf_def by (metis distinct_map distinct_rev map_of_inject_set rev_map set_rev)

lemma map_wf_mput [simp, map_simps]: "map_wf m \<Longrightarrow> map_wf (mput k v m)"
  by (simp add: map_wf_def mput_def distinct_update)

lemma map_wf_mdel [simp, map_simps]: "map_wf m \<Longrightarrow> map_wf (mdel k m)"
  by (simp add: map_wf_def mdel_def distinct_delete)

interpretation gm: go_map_spec "[] :: ('k, 'v) gomap" mput mdel map_of map_wf
  by unfold_locales simp_all

lemma keys_mput [map_simps]: "fst ` set (mput k v m) = insert k (fst ` set m)"
  by (simp add: mput_def dom_update)

lemma keys_mdel [map_simps]: "fst ` set (mdel k m) = fst ` set m - {k}"
  by (auto simp: mdel_def AList.delete_eq)

lemma set_mdel: "set (mdel k m) = {p \<in> set m. fst p \<noteq> k}"
  by (auto simp: mdel_def AList.delete_eq)

lemma map_wf_lookup: "map_wf m \<Longrightarrow> (k, v) \<in> set m \<longleftrightarrow> map_of m k = Some v"
  by (simp add: map_wf_def)

lemma map_wf_values: "map_wf m \<Longrightarrow> v \<in> snd ` set m \<longleftrightarrow> (\<exists>k. map_of m k = Some v)"
  by (force simp: map_wf_lookup [symmetric])

text \<open>Go's \<open>len\<close> of a map.\<close>

lemma map_wf_length: "map_wf m \<Longrightarrow> length m = card (dom (map_of m))"
  by (metis distinct_card dom_map_of_conv_image_fst length_map list.set_map map_wf_def)

subsection \<open>Maps of slices\<close>

text \<open>A map that was only appended to has no empty slices.\<close>

definition slices_wf :: "('k, 'v list) gomap \<Rightarrow> bool" where
  "slices_wf m \<longleftrightarrow> map_wf m \<and> (\<forall>k. map_of m k \<noteq> Some [])"

lemma slices_wf_Nil [simp]: "slices_wf []"
  by (simp add: slices_wf_def)

lemma mvals_Nil [simp]: "mvals [] k = []"
  by (simp add: mvals_def)

lemma mvals_mappend [simp]: "mvals (mappend k x m) j = (if j = k then mvals m k @ [x] else mvals m j)"
  by (simp add: mvals_def mappend_def)

lemma slices_wf_mappend [simp]: "slices_wf m \<Longrightarrow> slices_wf (mappend k x m)"
  by (simp add: slices_wf_def mappend_def)

lemma slices_wf_lookup: "slices_wf m \<Longrightarrow> map_of m k = (if mvals m k = [] then None else Some (mvals m k))"
  by (auto simp: slices_wf_def mvals_def split: option.split)

lemma slices_wf_set: "slices_wf m \<Longrightarrow> (k, xs) \<in> set m \<longleftrightarrow> mvals m k = xs \<and> xs \<noteq> []"
proof -
  assume wf: "slices_wf m"
  then have "(k, xs) \<in> set m \<longleftrightarrow> map_of m k = Some xs" by (simp add: slices_wf_def map_wf_lookup)
  then show ?thesis using slices_wf_lookup [OF wf, of k] by auto
qed

text \<open>
  \<open>adds f R\<close>: the step \<open>f\<close> appends exactly the values \<open>R\<close> says, in some order. The rules follow
  the shape of the loops.
\<close>

definition adds ::
    "(('k, 'v list) gomap \<Rightarrow> ('k, 'v list) gomap go) \<Rightarrow> ('k \<Rightarrow> 'v \<Rightarrow> bool) \<Rightarrow> bool" where
  "adds f R \<longleftrightarrow> (\<forall>s t. f s = Inr t \<longrightarrow> slices_wf s \<longrightarrow>
     slices_wf t \<and> (\<forall>k y. y \<in> set (mvals t k) \<longleftrightarrow> y \<in> set (mvals s k) \<or> R k y))"

lemma addsD:
  assumes "adds f R" and "f s = Inr t" and "slices_wf s"
  shows "slices_wf t" and "y \<in> set (mvals t k) \<longleftrightarrow> y \<in> set (mvals s k) \<or> R k y"
  using assms by (simp_all add: adds_def)

lemma adds_cong: "adds f R \<Longrightarrow> (\<And>k y. R k y \<longleftrightarrow> R' k y) \<Longrightarrow> adds f R'"
  by (simp add: adds_def)

lemma adds_none: "(\<And>k y. \<not> R k y) \<Longrightarrow> adds Inr R"
  by (simp add: adds_def)

lemma adds_one: "(\<And>k' y. R k' y \<longleftrightarrow> k' = k \<and> y = x) \<Longrightarrow> adds (\<lambda>s. Inr (mappend k x s)) R"
  by (auto simp: adds_def)

lemma adds_bind: "(\<And>v. m = Inr v \<Longrightarrow> adds (f v) R) \<Longrightarrow> adds (\<lambda>s. go_bind m (\<lambda>v. f v s)) R"
  by (auto simp: adds_def go_bind_eq_Inr)

lemma adds_fold:
  assumes "\<And>x. x \<in> set xs \<Longrightarrow> adds (f x) (R x)"
  shows "adds (go_fold f xs) (\<lambda>k y. \<exists>x \<in> set xs. R x k y)"
  using assms
proof (induction xs)
  case Nil
  then show ?case by (simp add: adds_def)
next
  case (Cons x xs)
  have 1: "adds (f x) (R x)" and 2: "adds (go_fold f xs) (\<lambda>k y. \<exists>x \<in> set xs. R x k y)"
    using Cons by simp_all
  show ?case
    unfolding adds_def
  proof (intro allI impI)
    fix s t assume "go_fold f (x # xs) s = Inr t" and s: "slices_wf s"
    then obtain u where u: "f x s = Inr u" "go_fold f xs u = Inr t" by (auto simp: go_bind_eq_Inr)
    note a = addsD [OF 1 u(1) s]
    note b = addsD [OF 2 u(2) a(1)]
    show "slices_wf t \<and> (\<forall>k y. y \<in> set (mvals t k) \<longleftrightarrow> y \<in> set (mvals s k) \<or> (\<exists>x \<in> set (x # xs). R x k y))"
      using a b by auto
  qed
qed

subsection \<open>The order of a range loop\<close>

type_synonym 'k order = "'k list \<Rightarrow> 'k list"

definition is_order :: "'k order \<Rightarrow> bool" where
  "is_order ord \<longleftrightarrow> (\<forall>ks. mset (ord ks) = mset ks)"

definition mrange :: "'k order \<Rightarrow> ('k, 'v) gomap \<Rightarrow> ('k \<times> 'v) list" where
  "mrange ord m = map (\<lambda>k. (k, the (map_of m k))) (ord (map fst m))"

lemma is_order_id [simp]: "is_order id" "is_order (\<lambda>ks. ks)"
  by (simp_all add: is_order_def)

lemma is_order_rev [simp]: "is_order rev"
  by (simp add: is_order_def)

lemma is_orderD: "is_order ord \<Longrightarrow> mset (ord ks) = mset ks"
  by (simp add: is_order_def)

lemma is_order_set [simp]: "is_order ord \<Longrightarrow> set (ord ks) = set ks"
  by (metis is_order_def set_mset_mset)

lemma is_order_distinct [simp]: "is_order ord \<Longrightarrow> distinct (ord ks) = distinct ks"
  by (metis is_order_def mset_eq_imp_distinct_iff)

lemma keys_mrange [simp]: "map fst (mrange ord m) = ord (map fst m)"
  by (simp add: mrange_def comp_def)

text \<open>A range loop sees every entry of the map exactly once, whatever the order.\<close>

lemma mset_mrange:
  assumes "is_order ord" and "map_wf m"
  shows "mset (mrange ord m) = mset m"
proof -
  have "mset (mrange ord m) = image_mset (\<lambda>k. (k, the (map_of m k))) (mset (map fst m))"
    by (simp only: mrange_def mset_map is_orderD [OF assms(1)])
  also have "\<dots> = mset (map (\<lambda>k. (k, the (map_of m k))) (map fst m))"
    by (simp only: mset_map)
  also have "map (\<lambda>k. (k, the (map_of m k))) (map fst m) = m"
    using assms(2) by (auto simp: map_wf_def intro!: map_idI)
  finally show ?thesis .
qed

lemma set_mrange [simp]: "is_order ord \<Longrightarrow> map_wf m \<Longrightarrow> set (mrange ord m) = set m"
  by (metis mset_mrange set_mset_mset)

lemma map_wf_mrange [simp]: "is_order ord \<Longrightarrow> map_wf m \<Longrightarrow> map_wf (mrange ord m)"
  by (simp add: map_wf_def)

lemma map_of_mrange [simp]: "is_order ord \<Longrightarrow> map_wf m \<Longrightarrow> map_of (mrange ord m) = map_of m"
  by (metis map_of_inject_set keys_mrange map_wf_def map_wf_mrange set_mrange)

lemma length_mrange [simp]: "is_order ord \<Longrightarrow> length (mrange ord m) = length m"
  by (metis is_order_def keys_mrange length_map size_mset)

lemma mrange_Nil [simp]: "is_order ord \<Longrightarrow> mrange ord [] = []"
  by (metis length_0_conv length_mrange list.size(3))

subsection \<open>Updating one element of a list\<close>

text \<open>At most one element of a list has a property; some element has it.\<close>

lemma update_unique:
  assumes "\<And>j m. j < length xs \<Longrightarrow> m < length xs \<Longrightarrow> P (xs ! j) \<Longrightarrow> P (xs ! m) \<Longrightarrow> j = m"
    and "P y \<Longrightarrow> P (xs ! i) \<or> (\<forall>x \<in> set xs. \<not> P x)"
    and "j < length (xs[i := y])" "m < length (xs[i := y])" "P (xs[i := y] ! j)" "P (xs[i := y] ! m)"
  shows "j = m"
proof -
  have old: "P (xs ! k) \<or> (\<forall>x \<in> set xs. \<not> P x) \<and> k = i" if "k < length xs" "P (xs[i := y] ! k)" for k
    using that assms(2) by (cases "k = i") auto
  have "j < length xs" "m < length xs" using assms(3,4) by simp_all
  then show ?thesis using old [of j] old [of m] assms(1,5,6) by (metis nth_mem)
qed

lemma update_ex:
  assumes "\<exists>x \<in> set xs. P x" and "P (xs ! i) \<Longrightarrow> P y"
  shows "\<exists>x \<in> set (xs[i := y]). P x"
proof -
  obtain j where "j < length xs" "P (xs ! j)" using assms(1) by (auto simp: in_set_conv_nth)
  then have "j < length (xs[i := y])" "P (xs[i := y] ! j)"
    using assms(2) by (simp, cases "j = i") simp_all
  then show ?thesis by (rule bexI [OF _ nth_mem, rotated])
qed

end
