(* ===== verification/Envoy.thy ===== *)
theory Envoy
  imports Prelude "HOL-Library.Countable"
begin

text \<open>
  The Envoy v2 messages the program builds and reads. Their Go types are generated from
  Envoy's protobuf files and are not part of the repository; each record has the fields
  that the repository's code sets or reads, under the generated names with a prefix that
  keeps them apart. A \<open>oneof\<close> is a datatype, a pointer that may be nil an option.

  Serialisation is code outside the repository too: it is the parameter \<open>protobuf\<close>
  of the definitions that use it. \<open>hcm_roundtrip\<close> states the documented behaviour the
  program relies on, that packing an \<open>HttpConnectionManager\<close> into an \<open>Any\<close> and
  unpacking it gives the message back; \<open>protobuf_sample\<close> shows that it can hold.
\<close>

subsection \<open>Errors\<close>

text \<open>Go errors by the place that makes them; \<open>External\<close> is one that outside code returned.\<close>

datatype code = Unavailable | InvalidArgument

datatype go_error =
    NilMessage | NilStruct | NilSnapshot
  | NotListed string
  | MismatchedEndpoints "string list" nat
  | MismatchedRoutes "string list" nat
  | VersionUpToDate
  | MissingSnapshot string
  | MissingResponse
  | Status code string
  | NotImplemented
  | InvalidTaskArn string
  | BadWindowSize
  | InvalidProvider string
  | Errorf string
  | Wrapped string go_error
  | External string

subsection \<open>Messages\<close>

record any =
  any_TypeUrl :: string
  any_Value :: bytes

datatype pb_value = StringValue string | StructValue "(string \<times> pb_value) list"

type_synonym pb_struct = "(string \<times> pb_value) list"

datatype protocol = TCP | UDP

record socket_address =
  sa_Protocol :: protocol
  sa_Address :: string
  sa_PortValue :: uint32

record lb_endpoint =
  lb_LoadBalancingWeight :: "uint32 option"
  lb_Metadata :: "unit option"
  lb_Address :: socket_address

record locality_lb_endpoints =
  loc_LbEndpoints :: "lb_endpoint list"

record cluster_load_assignment =
  cla_ClusterName :: string
  cla_Endpoints :: "locality_lb_endpoints list"

datatype api_type = API_REST | API_GRPC

datatype config_source =
    NoConfigSource
  | Ads
  | ApiConfigSource (api_ApiType: api_type) (api_GrpcServices: "string list")
      (api_ClusterNames: "string list") (api_RefreshDelay: "int64 option")

datatype discovery_type = STATIC | STRICT_DNS | LOGICAL_DNS | EDS | ORIGINAL_DST
datatype dns_lookup_family = DNS_AUTO | V4_ONLY | V6_ONLY
datatype lb_policy = ROUND_ROBIN | LEAST_REQUEST | RING_HASH | RANDOM
datatype routing_priority = PRIORITY_DEFAULT | PRIORITY_HIGH

record thresholds =
  th_Priority :: routing_priority
  th_MaxConnections :: "uint32 option"
  th_MaxPendingRequests :: "uint32 option"
  th_MaxRequests :: "uint32 option"
  th_MaxRetries :: "uint32 option"

record health_check =
  hc_Timeout :: "int64 option"
  hc_Interval :: "int64 option"
  hc_UnhealthyThreshold :: "uint32 option"
  hc_HealthyThreshold :: "uint32 option"
  hc_AltPort :: "uint32 option"
  hc_Path :: string
  hc_ExpectedStatuses :: "(int64 \<times> int64) list"

record eds_cluster_config =
  eds_EdsConfig :: "config_source option"
  eds_ServiceName :: string

record v2_cluster =
  cl_Name :: string
  cl_ConnectTimeout :: int64
  cl_Type :: discovery_type
  cl_DnsLookupFamily :: dns_lookup_family
  cl_LbPolicy :: lb_policy
  cl_CircuitBreakers :: "thresholds list"
  cl_HealthChecks :: "health_check list"
  cl_EdsClusterConfig :: "eds_cluster_config option"

record v2_route =
  rt_Prefix :: string
  rt_Cluster :: string

record virtual_host =
  vh_Name :: string
  vh_Domains :: "string list"
  vh_Routes :: "v2_route list"

record route_configuration =
  rc_Name :: string
  rc_VirtualHosts :: "virtual_host list"

datatype config_type =
    NoConfig
  | TypedConfig "any option"
  | Config "pb_struct option"

record filter_msg =
  fi_Name :: string
  fi_ConfigType :: config_type

record filter_chain =
  fc_Filters :: "filter_msg list"

record v2_listener =
  li_Name :: string
  li_Address :: socket_address
  li_FilterChains :: "filter_chain list"

record secret =
  se_Name :: string

datatype operation_name = INGRESS | EGRESS
datatype codec_type = AUTO | HTTP1 | HTTP2

record rds =
  rds_RouteConfigName :: string
  rds_ConfigSource :: config_source

datatype route_specifier =
    NoRouteSpecifier
  | RdsSpecifier "rds option"
  | RouteConfigSpecifier route_configuration

record access_log =
  al_Name :: string
  al_TypedConfig :: "any option"

record http_filter =
  hf_Name :: string
  hf_ConfigType :: config_type

record http_connection_manager =
  hcm_CodecType :: codec_type
  hcm_StatPrefix :: string
  hcm_AllowAbsoluteUrl :: "bool option"
  hcm_AccessLog :: "access_log list"
  hcm_Tracing :: "operation_name option"
  hcm_RouteSpecifier :: route_specifier
  hcm_HttpFilters :: "http_filter list"

text \<open>The zero value \<open>&hcm.HttpConnectionManager{}\<close>.\<close>

definition zero_hcm :: http_connection_manager where
  "zero_hcm = \<lparr>hcm_CodecType = AUTO, hcm_StatPrefix = [], hcm_AllowAbsoluteUrl = None,
     hcm_AccessLog = [], hcm_Tracing = None, hcm_RouteSpecifier = NoRouteSpecifier,
     hcm_HttpFilters = []\<rparr>"

datatype denominator = HUNDRED | TEN_THOUSAND | MILLION

record fractional_percent =
  fp_Numerator :: uint32
  fp_Denominator :: denominator

record fault_abort =
  fa_HttpStatus :: uint32
  fa_Percentage :: fractional_percent

record fault_delay =
  fd_FixedDelay :: int64
  fd_Percentage :: fractional_percent

record http_fault =
  hfault_Abort :: "fault_abort option"
  hfault_Delay :: "fault_delay option"

record ext_authz =
  ea_FailureModeAllow :: bool
  ea_Uri :: string
  ea_Timeout :: int64
  ea_Cluster :: string

record health_check_filter =
  hcf_PassThroughMode :: "bool option"
  hcf_CacheTime :: int64
  hcf_Headers :: "(string \<times> string) list"

record file_access_log =
  fal_Path :: string
  fal_JsonFormat :: pb_struct

datatype proto_message =
    MHcm http_connection_manager
  | MFault http_fault
  | MAuthz ext_authz
  | MHealthCheck health_check_filter
  | MFileAccessLog file_access_log

text \<open>
  \<open>cache.Resource\<close> is an interface that may be nil; \<open>OtherResource\<close> is any message type
  the switches of the program do not name.
\<close>

datatype resource =
    NilResource
  | ClusterLoadAssignment cluster_load_assignment
  | Cluster v2_cluster
  | RouteConfiguration route_configuration
  | Listener v2_listener
  | Secret secret
  | OtherResource string

record core_node =
  cn_Id :: string
  cn_Cluster :: string

record discovery_request =
  req_VersionInfo :: string
  req_Node :: "core_node option"
  req_ResourceNames :: "string list"
  req_TypeUrl :: string
  req_ResponseNonce :: string

record discovery_response =
  dr_VersionInfo :: string
  dr_Resources :: "any list"
  dr_TypeUrl :: string
  dr_Nonce :: string

subsection \<open>Serialisation\<close>

text \<open>
  \<open>pb_UnmarshalAny\<close> and \<open>pb_jsonUnmarshalHcm\<close> return what the target message holds
  afterwards: \<open>GetResourceReferences\<close> goes on with it even after an error.
\<close>

record protobuf =
  pb_Marshal :: "resource \<Rightarrow> go_error + bytes"
  pb_MarshalAny :: "proto_message \<Rightarrow> go_error + any"
  pb_UnmarshalAny :: "any \<Rightarrow> http_connection_manager"
  pb_jsonMarshal :: "proto_message \<Rightarrow> go_error + string"
  pb_jsonMarshalStruct :: "pb_struct \<Rightarrow> go_error + string"
  pb_jsonUnmarshalStruct :: "string \<Rightarrow> go_error + pb_struct"
  pb_jsonUnmarshalHcm :: "string \<Rightarrow> go_error option \<times> http_connection_manager"

definition hcm_roundtrip :: "protobuf \<Rightarrow> bool" where
  "hcm_roundtrip pb \<longleftrightarrow>
     (\<forall>h. \<exists>a. pb_MarshalAny pb (MHcm h) = Inr a \<and> pb_UnmarshalAny pb a = h)"

lemma hcm_roundtripD:
  "hcm_roundtrip pb \<Longrightarrow> \<exists>a. pb_MarshalAny pb (MHcm h) = Inr a \<and> pb_UnmarshalAny pb a = h"
  by (simp add: hcm_roundtrip_def)

subsection \<open>Sample serialisers\<close>

text \<open>
  Every message is a finite tree, so the messages are countable and a message can be
  written as that many zero bytes: an encoding that satisfies \<open>hcm_roundtrip\<close>.
\<close>

instance any_ext :: (countable) countable
  by (rule countable_classI [of "\<lambda>r. to_nat (any_TypeUrl r, any_Value r, any.more r)"]) simp

instance pb_value :: countable
  by countable_datatype

instance api_type :: countable
  by countable_datatype

instance config_source :: countable
  by countable_datatype

instance v2_route_ext :: (countable) countable
  by (rule countable_classI [of "\<lambda>r. to_nat (rt_Prefix r, rt_Cluster r, v2_route.more r)"]) simp

instance virtual_host_ext :: (countable) countable
  by (rule countable_classI
      [of "\<lambda>r. to_nat (vh_Name r, vh_Domains r, vh_Routes r, virtual_host.more r)"]) simp

instance route_configuration_ext :: (countable) countable
  by (rule countable_classI
      [of "\<lambda>r. to_nat (rc_Name r, rc_VirtualHosts r, route_configuration.more r)"]) simp

instance config_type :: countable
  by countable_datatype

instance rds_ext :: (countable) countable
  by (rule countable_classI
      [of "\<lambda>r. to_nat (rds_RouteConfigName r, rds_ConfigSource r, rds.more r)"]) simp

instance route_specifier :: countable
  by countable_datatype

instance access_log_ext :: (countable) countable
  by (rule countable_classI [of "\<lambda>r. to_nat (al_Name r, al_TypedConfig r, access_log.more r)"]) simp

instance http_filter_ext :: (countable) countable
  by (rule countable_classI [of "\<lambda>r. to_nat (hf_Name r, hf_ConfigType r, http_filter.more r)"]) simp

instance operation_name :: countable
  by countable_datatype

instance codec_type :: countable
  by countable_datatype

instance http_connection_manager_ext :: (countable) countable
  by (rule countable_classI
      [of "\<lambda>r. to_nat ((hcm_CodecType r, hcm_StatPrefix r, hcm_AllowAbsoluteUrl r, hcm_AccessLog r),
        hcm_Tracing r, hcm_RouteSpecifier r, hcm_HttpFilters r, http_connection_manager.more r)"]) simp

definition protobuf_sample :: protobuf where
  "protobuf_sample = \<lparr>
     pb_Marshal = (\<lambda>r. Inr []),
     pb_MarshalAny = (\<lambda>m. case m of
        MHcm h \<Rightarrow> Inr \<lparr>any_TypeUrl = [], any_Value = replicate (to_nat h) 0\<rparr>
      | _ \<Rightarrow> Inr \<lparr>any_TypeUrl = [], any_Value = []\<rparr>),
     pb_UnmarshalAny = (\<lambda>a. from_nat (length (any_Value a))),
     pb_jsonMarshal = (\<lambda>m. Inl (External [])),
     pb_jsonMarshalStruct = (\<lambda>m. Inl (External [])),
     pb_jsonUnmarshalStruct = (\<lambda>s. Inl (External [])),
     pb_jsonUnmarshalHcm = (\<lambda>s. (Some (External []), zero_hcm))\<rparr>"

lemma protobuf_sample_roundtrip: "hcm_roundtrip protobuf_sample"
  by (simp add: hcm_roundtrip_def protobuf_sample_def)

end
