(* ===== verification/Resource.thy ===== *)
theory Resource
  imports Envoy
begin

text \<open>
  Package \<open>util\<close> (filter names, conversions between messages, \<open>Struct\<close> and \<open>Any\<close>),
  \<open>pkg/cache/resource.go\<close> (type URLs, names and references of resources) and
  \<open>pkg/cache/snapshot.go\<close> (versioned groups of resources, snapshots and their consistency).

  Main results: the references of a group of resources do not depend on the order in which
  the map is visited (\<open>refs_of_group\<close>), and \<open>Consistent\<close> accepts a snapshot exactly when
  the endpoints are the ones the clusters refer to and the routes the ones the listeners
  refer to (\<open>Consistent_iff\<close>).
\<close>

subsection \<open>Package util\<close>

definition Fault :: string where "Fault = ''envoy.fault''"
definition Router :: string where "Router = ''envoy.router''"
definition HealthCheck :: string where "HealthCheck = ''envoy.health_check''"
definition HTTPExternalAuthorization :: string where
  "HTTPExternalAuthorization = ''envoy.ext_authz''"
definition HTTPConnectionManager :: string where
  "HTTPConnectionManager = ''envoy.http_connection_manager''"
definition TCPProxy :: string where "TCPProxy = ''envoy.tcp_proxy''"
definition FileAccessLog :: string where "FileAccessLog = ''envoy.file_access_log''"

lemmas filter_names =
  Fault_def Router_def HealthCheck_def HTTPExternalAuthorization_def HTTPConnectionManager_def
  TCPProxy_def FileAccessLog_def

definition MessageToStruct :: "protobuf \<Rightarrow> proto_message option \<Rightarrow> go_error + pb_struct" where
  "MessageToStruct pb msg =
     (case msg of
        None \<Rightarrow> Inl NilMessage
      | Some m \<Rightarrow>
          (case pb_jsonMarshal pb m of
             Inl e \<Rightarrow> Inl e
           | Inr buf \<Rightarrow> pb_jsonUnmarshalStruct pb buf))"

text \<open>The error, and what the target message holds afterwards.\<close>

definition StructToMessage ::
    "protobuf \<Rightarrow> pb_struct option \<Rightarrow> http_connection_manager
     \<Rightarrow> go_error option \<times> http_connection_manager" where
  "StructToMessage pb pbst out =
     (case pbst of
        None \<Rightarrow> (Some NilStruct, out)
      | Some st \<Rightarrow>
          (case pb_jsonMarshalStruct pb st of
             Inl e \<Rightarrow> (Some e, out)
           | Inr buf \<Rightarrow> pb_jsonUnmarshalHcm pb buf))"

text \<open>An error is logged and the result is nil.\<close>

definition MessageToAny :: "protobuf \<Rightarrow> proto_message \<Rightarrow> any option" where
  "MessageToAny pb msg = (case pb_MarshalAny pb msg of Inl e \<Rightarrow> None | Inr s \<Rightarrow> Some s)"

subsection \<open>Type URLs and resource names\<close>

definition typePrefix :: string where
  "typePrefix = ''type.googleapis.com/envoy.api.v2.''"
definition EndpointType :: string where
  "EndpointType = typePrefix @ ''ClusterLoadAssignment''"
definition ClusterType :: string where
  "ClusterType = typePrefix @ ''Cluster''"
definition RouteType :: string where
  "RouteType = typePrefix @ ''RouteConfiguration''"
definition ListenerType :: string where
  "ListenerType = typePrefix @ ''Listener''"
definition SecretType :: string where
  "SecretType = typePrefix @ ''auth.Secret''"
definition AnyType :: string where
  "AnyType = []"

definition ResponseTypes :: "string list" where
  "ResponseTypes = [EndpointType, ClusterType, RouteType, ListenerType, SecretType]"

lemmas type_urls =
  typePrefix_def EndpointType_def ClusterType_def RouteType_def ListenerType_def SecretType_def

lemma type_urls_distinct [simp]:
  "EndpointType \<noteq> ClusterType" "EndpointType \<noteq> RouteType" "EndpointType \<noteq> ListenerType"
  "EndpointType \<noteq> SecretType" "ClusterType \<noteq> EndpointType" "ClusterType \<noteq> RouteType"
  "ClusterType \<noteq> ListenerType" "ClusterType \<noteq> SecretType" "RouteType \<noteq> EndpointType"
  "RouteType \<noteq> ClusterType" "RouteType \<noteq> ListenerType" "RouteType \<noteq> SecretType"
  "ListenerType \<noteq> EndpointType" "ListenerType \<noteq> ClusterType" "ListenerType \<noteq> RouteType"
  "ListenerType \<noteq> SecretType" "SecretType \<noteq> EndpointType" "SecretType \<noteq> ClusterType"
  "SecretType \<noteq> RouteType" "SecretType \<noteq> ListenerType"
  by (simp_all add: type_urls)

lemma type_urls_nonempty [simp]:
  "EndpointType \<noteq> []" "ClusterType \<noteq> []" "RouteType \<noteq> []" "ListenerType \<noteq> []" "SecretType \<noteq> []"
  by (simp_all add: type_urls)

fun GetResourceName :: "resource \<Rightarrow> string" where
  "GetResourceName (ClusterLoadAssignment v) = cla_ClusterName v"
| "GetResourceName (Cluster v) = cl_Name v"
| "GetResourceName (RouteConfiguration v) = rc_Name v"
| "GetResourceName (Listener v) = li_Name v"
| "GetResourceName (Secret v) = se_Name v"
| "GetResourceName _ = []"

subsection \<open>References between resources\<close>

fun GetTypedConfig :: "config_type \<Rightarrow> any option" where
  "GetTypedConfig (TypedConfig a) = a"
| "GetTypedConfig _ = None"

fun GetConfig :: "config_type \<Rightarrow> pb_struct option" where
  "GetConfig (Config s) = s"
| "GetConfig _ = None"

text \<open>The connection manager a filter carries: the typed config if there is one.\<close>

definition filter_hcm :: "protobuf \<Rightarrow> filter_msg \<Rightarrow> http_connection_manager" where
  "filter_hcm pb f =
     (case GetTypedConfig (fi_ConfigType f) of
        Some a \<Rightarrow> pb_UnmarshalAny pb a
      | None \<Rightarrow> snd (StructToMessage pb (GetConfig (fi_ConfigType f)) zero_hcm))"

definition filter_refs ::
    "protobuf \<Rightarrow> filter_msg \<Rightarrow> (string, bool) gomap \<Rightarrow> (string, bool) gomap" where
  "filter_refs pb f out =
     (if fi_Name f \<noteq> HTTPConnectionManager then out
      else case hcm_RouteSpecifier (filter_hcm pb f) of
             RdsSpecifier (Some r) \<Rightarrow> mput (rds_RouteConfigName r) True out
           | _ \<Rightarrow> out)"

definition listener_refs ::
    "protobuf \<Rightarrow> v2_listener \<Rightarrow> (string, bool) gomap \<Rightarrow> (string, bool) gomap" where
  "listener_refs pb v out =
     fold (\<lambda>chain. fold (filter_refs pb) (fc_Filters chain)) (li_FilterChains v) out"

definition cluster_refs ::
    "v2_cluster \<Rightarrow> (string, bool) gomap \<Rightarrow> (string, bool) gomap" where
  "cluster_refs v out =
     (if cl_Type v = EDS
      then (case cl_EdsClusterConfig v of
              Some c \<Rightarrow> if eds_ServiceName c \<noteq> [] then mput (eds_ServiceName c) True out
                        else mput (cl_Name v) True out
            | None \<Rightarrow> mput (cl_Name v) True out)
      else out)"

fun resource_refs ::
    "protobuf \<Rightarrow> resource \<Rightarrow> (string, bool) gomap \<Rightarrow> (string, bool) gomap" where
  "resource_refs pb (Cluster v) out = cluster_refs v out"
| "resource_refs pb (Listener v) out = listener_refs pb v out"
| "resource_refs pb _ out = out"

definition GetResourceReferences ::
    "protobuf \<Rightarrow> string order \<Rightarrow> (string, resource) gomap \<Rightarrow> (string, bool) gomap" where
  "GetResourceReferences pb ord resources =
     fold (\<lambda>(_, res). resource_refs pb res) (mrange ord resources) []"

text \<open>
  What the loops compute: the set of names one resource refers to. A listener refers to the
  route of each of its connection managers, an EDS cluster to its service name or to itself.
\<close>

definition filter_ref_set :: "protobuf \<Rightarrow> filter_msg \<Rightarrow> string set" where
  "filter_ref_set pb f =
     (if fi_Name f = HTTPConnectionManager
      then {rds_RouteConfigName r | r. hcm_RouteSpecifier (filter_hcm pb f) = RdsSpecifier (Some r)}
      else {})"

definition cluster_ref :: "v2_cluster \<Rightarrow> string" where
  "cluster_ref v =
     (case cl_EdsClusterConfig v of
        Some c \<Rightarrow> if eds_ServiceName c \<noteq> [] then eds_ServiceName c else cl_Name v
      | None \<Rightarrow> cl_Name v)"

fun ref_set :: "protobuf \<Rightarrow> resource \<Rightarrow> string set" where
  "ref_set pb (Cluster v) = (if cl_Type v = EDS then {cluster_ref v} else {})"
| "ref_set pb (Listener v) =
     (\<Union>chain \<in> set (li_FilterChains v). \<Union>f \<in> set (fc_Filters chain). filter_ref_set pb f)"
| "ref_set pb _ = {}"

lemma dom_filter_refs:
  "dom (map_of (filter_refs pb f out)) = dom (map_of out) \<union> filter_ref_set pb f"
  by (auto simp: filter_refs_def filter_ref_set_def split: route_specifier.splits option.splits)

lemma wf_filter_refs: "map_wf out \<Longrightarrow> map_wf (filter_refs pb f out)"
  by (auto simp: filter_refs_def split: route_specifier.splits option.splits)

text \<open>A fold of functions that each add a known set of keys adds their union.\<close>

lemma dom_fold_refs:
  assumes "\<And>x out. x \<in> set xs \<Longrightarrow> dom (map_of (f x out)) = dom (map_of out) \<union> g x"
  shows "dom (map_of (fold f xs out)) = dom (map_of out) \<union> (\<Union>x \<in> set xs. g x)"
  using assms by (induction xs arbitrary: out) auto

lemma wf_fold_refs:
  assumes "\<And>x out. x \<in> set xs \<Longrightarrow> map_wf out \<Longrightarrow> map_wf (f x out)" and "map_wf out"
  shows "map_wf (fold f xs out)"
  using assms by (induction xs arbitrary: out) auto

lemma dom_resource_refs:
  "dom (map_of (resource_refs pb res out)) = dom (map_of out) \<union> ref_set pb res"
proof (cases res)
  case (Listener v)
  have "dom (map_of (fold (filter_refs pb) (fc_Filters c) out)) =
      dom (map_of out) \<union> (\<Union>f \<in> set (fc_Filters c). filter_ref_set pb f)" for c out
    by (rule dom_fold_refs) (rule dom_filter_refs)
  then show ?thesis
    unfolding Listener resource_refs.simps listener_refs_def ref_set.simps by (rule dom_fold_refs)
qed (auto simp: cluster_refs_def cluster_ref_def split: option.splits)

lemma wf_resource_refs: "map_wf out \<Longrightarrow> map_wf (resource_refs pb res out)"
  by (cases res)
    (auto simp: cluster_refs_def listener_refs_def wf_filter_refs split: option.splits
      intro!: wf_fold_refs)

lemma wf_GetResourceReferences: "map_wf (GetResourceReferences pb ord resources)"
  unfolding GetResourceReferences_def
  by (rule wf_fold_refs) (auto simp: wf_resource_refs split: prod.splits)

definition refs_of_group :: "protobuf \<Rightarrow> (string, resource) gomap \<Rightarrow> string set" where
  "refs_of_group pb resources = (\<Union>res \<in> snd ` set resources. ref_set pb res)"

lemma dom_GetResourceReferences:
  assumes "is_order ord" and "map_wf resources"
  shows "dom (map_of (GetResourceReferences pb ord resources)) = refs_of_group pb resources"
proof -
  have "dom (map_of (GetResourceReferences pb ord resources)) =
      dom (map_of ([] :: (string, bool) gomap))
      \<union> (\<Union>x \<in> set (mrange ord resources). ref_set pb (snd x))"
    unfolding GetResourceReferences_def
    by (rule dom_fold_refs) (simp add: dom_resource_refs split: prod.split)
  then show ?thesis
    using assms by (simp add: refs_of_group_def)
qed

subsection \<open>Snapshots\<close>

record resources =
  res_Version :: string
  res_Items :: "(string, resource) gomap"

record snapshot =
  Endpoints :: resources
  Clusters :: resources
  Routes :: resources
  Listeners :: resources
  Secrets :: resources

definition zero_resources :: resources where
  "zero_resources = \<lparr>res_Version = [], res_Items = []\<rparr>"

definition zero_snapshot :: snapshot where
  "zero_snapshot = \<lparr>Endpoints = zero_resources, Clusters = zero_resources,
     Routes = zero_resources, Listeners = zero_resources, Secrets = zero_resources\<rparr>"

definition IndexResourcesByName :: "resource list \<Rightarrow> (string, resource) gomap" where
  "IndexResourcesByName items = fold (\<lambda>item. mput (GetResourceName item) item) items []"

definition NewResources :: "string \<Rightarrow> resource list \<Rightarrow> resources" where
  "NewResources version items =
     \<lparr>res_Version = version, res_Items = IndexResourcesByName items\<rparr>"

definition NewSnapshot ::
    "string \<Rightarrow> resource list \<Rightarrow> resource list \<Rightarrow> resource list \<Rightarrow> resource list \<Rightarrow> snapshot" where
  "NewSnapshot version endpoints clusters routes listeners =
     \<lparr>Endpoints = NewResources version endpoints,
      Clusters = NewResources version clusters,
      Routes = NewResources version routes,
      Listeners = NewResources version listeners,
      Secrets = zero_resources\<rparr>"

text \<open>\<open>nameSet\<close> and \<open>superset\<close> of \<open>pkg/cache/simple.go\<close>.\<close>

definition nameSet :: "string list \<Rightarrow> (string, bool) gomap" where
  "nameSet names = fold (\<lambda>name. mput name True) names []"

definition superset ::
    "string order \<Rightarrow> (string, bool) gomap \<Rightarrow> (string, resource) gomap \<Rightarrow> go_error option" where
  "superset ord names resources =
     (case find (\<lambda>(resourceName, _). map_of names resourceName = None) (mrange ord resources) of
        Some (resourceName, _) \<Rightarrow> Some (NotListed resourceName)
      | None \<Rightarrow> None)"

text \<open>
  \<open>Consistent\<close> ranges over four maps; each loop has its own order. A nil receiver is
  \<open>None\<close>.
\<close>

definition Consistent ::
    "protobuf \<Rightarrow> (nat \<Rightarrow> string order) \<Rightarrow> snapshot option \<Rightarrow> go_error option" where
  "Consistent pb ords sp =
     (case sp of
        None \<Rightarrow> Some NilSnapshot
      | Some s \<Rightarrow>
          let endpoints = GetResourceReferences pb (ords 0) (res_Items (Clusters s)) in
          if length endpoints \<noteq> length (res_Items (Endpoints s))
          then Some (MismatchedEndpoints (map fst endpoints) (length (res_Items (Endpoints s))))
          else case superset (ords 1) endpoints (res_Items (Endpoints s)) of
            Some err \<Rightarrow> Some err
          | None \<Rightarrow>
              let routes = GetResourceReferences pb (ords 2) (res_Items (Listeners s)) in
              if length routes \<noteq> length (res_Items (Routes s))
              then Some (MismatchedRoutes (map fst routes) (length (res_Items (Routes s))))
              else superset (ords 3) routes (res_Items (Routes s)))"

definition GetResources :: "snapshot option \<Rightarrow> string \<Rightarrow> (string, resource) gomap" where
  "GetResources sp typ =
     (case sp of
        None \<Rightarrow> []
      | Some s \<Rightarrow>
          if typ = EndpointType then res_Items (Endpoints s)
          else if typ = ClusterType then res_Items (Clusters s)
          else if typ = RouteType then res_Items (Routes s)
          else if typ = ListenerType then res_Items (Listeners s)
          else if typ = SecretType then res_Items (Secrets s)
          else [])"

definition GetVersion :: "snapshot option \<Rightarrow> string \<Rightarrow> string" where
  "GetVersion sp typ =
     (case sp of
        None \<Rightarrow> []
      | Some s \<Rightarrow>
          if typ = EndpointType then res_Version (Endpoints s)
          else if typ = ClusterType then res_Version (Clusters s)
          else if typ = RouteType then res_Version (Routes s)
          else if typ = ListenerType then res_Version (Listeners s)
          else if typ = SecretType then res_Version (Secrets s)
          else [])"

subsection \<open>Lemmas about snapshots\<close>

lemma wf_IndexResourcesByName [simp, map_simps]: "map_wf (IndexResourcesByName items)"
  unfolding IndexResourcesByName_def
  by (rule gm.wf_fold_put [where key = GetResourceName and val = "\<lambda>x. x"]) simp

lemma dom_IndexResourcesByName [simp]:
  "dom (map_of (IndexResourcesByName items)) = GetResourceName ` set items"
  using gm.get_fold_put_None [where key = GetResourceName and val = "\<lambda>x. x" and m = "[]"]
  by (auto simp: IndexResourcesByName_def dom_def)

lemma IndexResourcesByName_lookup:
  "map_of (IndexResourcesByName items) n = find (\<lambda>r. GetResourceName r = n) (rev items)"
proof -
  have "map_of (map (\<lambda>x. (GetResourceName x, x)) xs) n = find (\<lambda>r. GetResourceName r = n) xs"
    for xs :: "resource list"
    by (induction xs) auto
  then show ?thesis
    by (simp add: IndexResourcesByName_def rev_map
        gm.get_fold_put [where key = GetResourceName and val = "\<lambda>x. x"])
qed

lemma IndexResourcesByName_distinct:
  assumes "distinct (map GetResourceName items)"
  shows "set (IndexResourcesByName items) = (\<lambda>r. (GetResourceName r, r)) ` set items"
proof -
  have "(n, r) \<in> set (IndexResourcesByName items) \<longleftrightarrow> r \<in> set items \<and> n = GetResourceName r" for n r
  proof
    assume "(n, r) \<in> set (IndexResourcesByName items)"
    then have "find (\<lambda>r. GetResourceName r = n) (rev items) = Some r"
      by (simp add: map_wf_lookup IndexResourcesByName_lookup)
    then show "r \<in> set items \<and> n = GetResourceName r"
      by (auto dest: find_SomeD)
  next
    assume r: "r \<in> set items \<and> n = GetResourceName r"
    with gm.get_fold_put_distinct [OF assms, where val = "\<lambda>x. x"]
    have "map_of (IndexResourcesByName items) n = Some r"
      by (simp add: IndexResourcesByName_def)
    then show "(n, r) \<in> set (IndexResourcesByName items)"
      by (simp add: map_wf_lookup)
  qed
  then show ?thesis by auto
qed

lemma wf_nameSet [simp]: "map_wf (nameSet names)"
  unfolding nameSet_def
  by (rule gm.wf_fold_put [where key = "\<lambda>x. x" and val = "\<lambda>_. True"]) simp

lemma nameSet_lookup: "map_of (nameSet names) n = (if n \<in> set names then Some True else None)"
proof -
  have "map_of (fold (\<lambda>name. mput name True) names m) n =
      (if n \<in> set names then Some True else map_of m n)" for m
    by (induction names arbitrary: m) auto
  then show ?thesis by (simp add: nameSet_def)
qed

lemma superset_None:
  assumes "is_order ord" and "map_wf resources"
  shows "superset ord names resources = None \<longleftrightarrow> dom (map_of resources) \<subseteq> dom (map_of names)"
proof -
  have "superset ord names resources = None \<longleftrightarrow>
      (\<forall>x \<in> set (mrange ord resources). \<not> (case x of (n, _) \<Rightarrow> map_of names n = None))"
    by (auto simp: superset_def find_None_ball [symmetric] split: option.split)
  also have "\<dots> \<longleftrightarrow> fst ` set resources \<subseteq> dom (map_of names)"
    using assms by auto
  finally show ?thesis by (simp add: dom_map_of_conv_image_fst)
qed

lemma superset_Some:
  "superset ord names resources = Some e \<Longrightarrow>
   \<exists>n. e = NotListed n \<and> n \<in> set (ord (map fst resources)) \<and> map_of names n = None"
  by (auto simp: superset_def mrange_def split: option.splits dest!: find_SomeD)

text \<open>Equal lengths and one inclusion: the two name sets are equal.\<close>

lemma same_length_superset:
  assumes "map_wf names" and "map_wf resources" and "is_order ord"
  shows "length names = length resources \<and> superset ord names resources = None
         \<longleftrightarrow> dom (map_of names) = dom (map_of resources)"
  using assms card_subset_eq [OF finite_dom_map_of [of names], of "dom (map_of resources)"]
  by (simp add: superset_None map_wf_length) (metis order_refl)

definition snapshot_wf :: "snapshot \<Rightarrow> bool" where
  "snapshot_wf s \<longleftrightarrow> map_wf (res_Items (Endpoints s)) \<and> map_wf (res_Items (Clusters s)) \<and>
     map_wf (res_Items (Routes s)) \<and> map_wf (res_Items (Listeners s)) \<and> map_wf (res_Items (Secrets s))"

lemma snapshot_wf_zero [simp]: "snapshot_wf zero_snapshot"
  by (simp add: snapshot_wf_def zero_snapshot_def zero_resources_def)

lemma snapshot_wf_NewSnapshot [simp]: "snapshot_wf (NewSnapshot v es cs rs ls)"
  by (simp add: snapshot_wf_def NewSnapshot_def NewResources_def zero_resources_def)

lemma wf_GetResources [simp]: "snapshot_wf s \<Longrightarrow> map_wf (GetResources (Some s) typ)"
  by (simp add: snapshot_wf_def GetResources_def)

lemma Consistent_iff:
  assumes "snapshot_wf s" and "\<And>i. is_order (ords i)"
  shows "Consistent pb ords (Some s) = None \<longleftrightarrow>
    dom (map_of (res_Items (Endpoints s))) = refs_of_group pb (res_Items (Clusters s)) \<and>
    dom (map_of (res_Items (Routes s))) = refs_of_group pb (res_Items (Listeners s))"
proof -
  have wf: "map_wf (res_Items (Endpoints s))" "map_wf (res_Items (Clusters s))"
    "map_wf (res_Items (Routes s))" "map_wf (res_Items (Listeners s))"
    using assms(1) by (simp_all add: snapshot_wf_def)
  let ?es = "GetResourceReferences pb (ords 0) (res_Items (Clusters s))"
  let ?rs = "GetResourceReferences pb (ords 2) (res_Items (Listeners s))"
  have "Consistent pb ords (Some s) = None \<longleftrightarrow>
      (length ?es = length (res_Items (Endpoints s)) \<and> superset (ords 1) ?es (res_Items (Endpoints s)) = None)
      \<and> (length ?rs = length (res_Items (Routes s)) \<and> superset (ords 3) ?rs (res_Items (Routes s)) = None)"
    by (auto simp: Consistent_def Let_def split: option.splits)
  also have "\<dots> \<longleftrightarrow> dom (map_of ?es) = dom (map_of (res_Items (Endpoints s)))
      \<and> dom (map_of ?rs) = dom (map_of (res_Items (Routes s)))"
    using same_length_superset [OF wf_GetResourceReferences wf(1) assms(2) [of 1]]
      same_length_superset [OF wf_GetResourceReferences wf(3) assms(2) [of 3]] by blast
  finally show ?thesis
    using dom_GetResourceReferences [OF assms(2) wf(2)] dom_GetResourceReferences [OF assms(2) wf(4)]
    by metis
qed

subsection \<open>Properties\<close>

text \<open>
  C38. The consistency check: a snapshot passes exactly when its endpoints are the ones its
  clusters refer to and its routes the ones its listeners refer to, whatever the orders of the
  loops are, so the check gives the same verdict every time.
\<close>
theorem consistent_verdict:
  assumes "snapshot_wf s" and "\<And>i. is_order (ords i)" and "\<And>i. is_order (ords' i)"
  shows "(Consistent pb ords (Some s) = None \<longleftrightarrow>
      dom (map_of (res_Items (Endpoints s))) = refs_of_group pb (res_Items (Clusters s)) \<and>
      dom (map_of (res_Items (Routes s))) = refs_of_group pb (res_Items (Listeners s))) \<and>
    (Consistent pb ords (Some s) = None \<longleftrightarrow> Consistent pb ords' (Some s) = None) \<and>
    Consistent pb ords None \<noteq> None"
proof -
  have "Consistent pb ords None \<noteq> None" by (simp add: Consistent_def)
  with Consistent_iff [OF assms(1,2)] Consistent_iff [OF assms(1,3)] show ?thesis by simp
qed

theorem consistent_verdict_witness: "Consistent protobuf_sample (\<lambda>_. rev) (Some zero_snapshot) = None"
  using consistent_verdict [OF snapshot_wf_zero, of "\<lambda>_. rev" "\<lambda>_. id" protobuf_sample]
  by (simp add: zero_snapshot_def zero_resources_def refs_of_group_def)

end
