(* ===== verification/Chan.thy ===== *)
theory Chan
  imports Prelude
begin

text \<open>
  Go channels made by \<open>make(chan T, 1)\<close>: a buffer of one value and a closed flag, in a
  heap of channels addressed by number. A send on a full buffer stops with \<open>WouldBlock\<close>
  (the goroutine would wait for a receiver); a receive is one ready case of a \<open>select\<close>:
  a value, the zero value of a closed channel, or not ready.
\<close>

type_synonym chan_id = nat

record 'a chan =
  ch_buf :: "'a list"
  ch_closed :: bool

record 'a heap =
  h_next :: nat
  h_chan :: "nat \<Rightarrow> 'a chan option"

definition empty_heap :: "'a heap" where
  "empty_heap = \<lparr>h_next = 0, h_chan = (\<lambda>_. None)\<rparr>"

definition empty_chan :: "'a chan" where
  "empty_chan = \<lparr>ch_buf = [], ch_closed = False\<rparr>"

definition set_chan :: "chan_id \<Rightarrow> 'a chan \<Rightarrow> 'a heap \<Rightarrow> 'a heap" where
  "set_chan c ch h = h\<lparr>h_chan := (h_chan h)(c \<mapsto> ch)\<rparr>"

definition make_chan :: "'a heap \<Rightarrow> chan_id \<times> 'a heap" where
  "make_chan h = (h_next h, set_chan (h_next h) empty_chan (h\<lparr>h_next := Suc (h_next h)\<rparr>))"

definition send :: "chan_id \<Rightarrow> 'a \<Rightarrow> 'a heap \<Rightarrow> 'a heap go" where
  "send c v h =
     (case h_chan h c of
        None \<Rightarrow> Inl WouldBlock
      | Some ch \<Rightarrow>
          if ch_closed ch then Inl SendOnClosed
          else if length (ch_buf ch) < 1 then Inr (set_chan c (ch\<lparr>ch_buf := ch_buf ch @ [v]\<rparr>) h)
          else Inl WouldBlock)"

datatype 'a received = NotReady | Closed | Received 'a

definition recv :: "chan_id \<Rightarrow> 'a heap \<Rightarrow> 'a received \<times> 'a heap" where
  "recv c h =
     (case h_chan h c of
        None \<Rightarrow> (NotReady, h)
      | Some ch \<Rightarrow>
          (case ch_buf ch of
             v # vs \<Rightarrow> (Received v, set_chan c (ch\<lparr>ch_buf := vs\<rparr>) h)
           | [] \<Rightarrow> (if ch_closed ch then Closed else NotReady, h)))"

definition chan_ready :: "'a heap \<Rightarrow> chan_id \<Rightarrow> bool" where
  "chan_ready h c \<longleftrightarrow> h_chan h c = Some empty_chan"

definition full_chan :: "'a \<Rightarrow> 'a chan" where
  "full_chan v = \<lparr>ch_buf = [v], ch_closed = False\<rparr>"

definition heap_wf :: "'a heap \<Rightarrow> bool" where
  "heap_wf h \<longleftrightarrow> (\<forall>c. h_chan h c \<noteq> None \<longrightarrow> c < h_next h)"

text \<open>No channel is closed and none holds more than its capacity.\<close>

definition heap_open :: "'a heap \<Rightarrow> bool" where
  "heap_open h \<longleftrightarrow>
     (\<forall>c ch. h_chan h c = Some ch \<longrightarrow> \<not> ch_closed ch \<and> length (ch_buf ch) \<le> 1)"

lemma h_next_set_chan [simp]: "h_next (set_chan c ch h) = h_next h"
  by (simp add: set_chan_def)

lemma h_chan_set_chan [simp]: "h_chan (set_chan c ch h) = (h_chan h)(c \<mapsto> ch)"
  by (simp add: set_chan_def)

lemma send_ready: "chan_ready h c \<Longrightarrow> send c v h = Inr (set_chan c (full_chan v) h)"
  by (simp add: send_def chan_ready_def empty_chan_def full_chan_def)

lemma chan_ready_set_chan [simp]:
  "chan_ready (set_chan c (full_chan v) h) d \<longleftrightarrow> d \<noteq> c \<and> chan_ready h d"
  by (auto simp: chan_ready_def full_chan_def empty_chan_def)

lemma chan_ready_allocated: "heap_wf h \<Longrightarrow> chan_ready h c \<Longrightarrow> c < h_next h"
  by (auto simp: heap_wf_def chan_ready_def)

lemma heap_empty [simp]: "heap_wf empty_heap" "heap_open empty_heap"
  by (simp_all add: heap_wf_def heap_open_def empty_heap_def)

lemma make_chan_props:
  assumes "make_chan h = (c, h')"
  shows "c = h_next h" "h_next h' = Suc (h_next h)" "chan_ready h' c"
    "\<And>d. d \<noteq> c \<Longrightarrow> h_chan h' d = h_chan h d"
  using assms by (auto simp: make_chan_def chan_ready_def)

lemma heap_wf_make_chan: "heap_wf h \<Longrightarrow> make_chan h = (c, h') \<Longrightarrow> heap_wf h'"
  by (force simp: heap_wf_def make_chan_def less_Suc_eq)

lemma heap_open_make_chan: "heap_open h \<Longrightarrow> make_chan h = (c, h') \<Longrightarrow> heap_open h'"
  by (auto simp: heap_open_def make_chan_def empty_chan_def split: if_splits)

text \<open>A receive never changes a channel that is ready for a send, nor another channel.\<close>

lemma recv_ready [simp]: "chan_ready h c \<Longrightarrow> recv c h = (NotReady, h)"
  by (simp add: recv_def chan_ready_def empty_chan_def)

lemma recv_h_next: "recv c h = (r, h') \<Longrightarrow> h_next h' = h_next h"
  by (auto simp: recv_def split: option.splits list.splits)

lemma recv_other: "recv c h = (r, h') \<Longrightarrow> d \<noteq> c \<Longrightarrow> h_chan h' d = h_chan h d"
  by (auto simp: recv_def split: option.splits list.splits)

lemma recv_keeps_ready: "recv c h = (r, h') \<Longrightarrow> chan_ready h d \<Longrightarrow> chan_ready h' d"
proof (cases "d = c")
  case True
  then show "recv c h = (r, h') \<Longrightarrow> chan_ready h d \<Longrightarrow> chan_ready h' d" by simp
next
  case False
  then show "recv c h = (r, h') \<Longrightarrow> chan_ready h d \<Longrightarrow> chan_ready h' d"
    by (simp add: chan_ready_def recv_other)
qed

lemma recv_heap_wf: "recv c h = (r, h') \<Longrightarrow> heap_wf h \<Longrightarrow> heap_wf h'"
  by (auto simp: recv_def heap_wf_def split: option.splits list.splits if_splits)

lemma recv_heap_open: "recv c h = (r, h') \<Longrightarrow> heap_open h \<Longrightarrow> heap_open h' \<and> r \<noteq> Closed"
  by (auto simp: recv_def heap_open_def split: option.splits list.splits if_splits) fastforce

lemma recv_full:
  "h_chan h c = Some (full_chan v) \<Longrightarrow> recv c h = (Received v, set_chan c empty_chan h)"
  by (simp add: recv_def full_chan_def empty_chan_def)

lemma recv_Received: "recv c h = (Received v, h') \<Longrightarrow> \<exists>ch. h_chan h c = Some ch \<and> v \<in> set (ch_buf ch)"
  by (auto simp: recv_def split: option.splits list.splits if_splits)

end
