(* ===== verification/CacheInterface.thy ===== *)
theory CacheInterface
  imports Envoy Chan
begin

text \<open>
  \<open>pkg/cache/cache.go\<close>: the response type of the cache and the interface
  \<open>ConfigWatcher\<close> that the server is written against, as a locale. The comments of the
  Go interface become laws: a watch gets a channel of its own, its cancel function closes
  that watch and no other, and calling it again has no effect.
\<close>

record cache_response =
  rsp_Request :: discovery_request
  rsp_Version :: string
  rsp_Resources :: "resource list"

type_synonym rheap = "cache_response heap"

text \<open>
  \<open>watching c k\<close> is the response channel of the open watch that \<open>k\<close> cancels, if it is
  open. Cancel functions are numbered by \<open>serial\<close>; \<open>issued c\<close> is the number of the
  last one handed out, so a new one differs from every earlier one as long as the counter
  has not reached its \<open>limit\<close>.
\<close>

locale config_watcher =
  fixes createWatch ::
      "'e \<Rightarrow> discovery_request \<Rightarrow> rheap \<times> 'c \<Rightarrow> ((rheap \<times> 'c) \<times> chan_id \<times> 'k option) go"
    and cancel :: "'k \<Rightarrow> 'c \<Rightarrow> 'c"
    and watching :: "'c \<Rightarrow> 'k \<Rightarrow> chan_id option"
    and inv :: "rheap \<Rightarrow> 'c \<Rightarrow> bool"
    and serial :: "'k \<Rightarrow> nat"
    and issued :: "'c \<Rightarrow> nat"
    and limit :: nat
    and legal :: "'e \<Rightarrow> bool"
  assumes create_returns:
      "inv h c \<Longrightarrow> issued c < limit \<Longrightarrow> legal e \<Longrightarrow>
       \<exists>h' c' ch ko. createWatch e req (h, c) = Inr ((h', c'), ch, ko)"
    and create_inv:
      "inv h c \<Longrightarrow> issued c < limit \<Longrightarrow> legal e \<Longrightarrow>
       createWatch e req (h, c) = Inr ((h', c'), ch, ko) \<Longrightarrow> inv h' c'"
    and create_chan:
      "inv h c \<Longrightarrow> issued c < limit \<Longrightarrow> legal e \<Longrightarrow>
       createWatch e req (h, c) = Inr ((h', c'), ch, ko) \<Longrightarrow>
       ch = h_next h \<and> h_next h' = Suc (h_next h) \<and> (\<forall>d. d \<noteq> ch \<longrightarrow> h_chan h' d = h_chan h d)"
    and create_open:
      "inv h c \<Longrightarrow> issued c < limit \<Longrightarrow> legal e \<Longrightarrow>
       createWatch e req (h, c) = Inr ((h', c'), ch, Some k) \<Longrightarrow>
       serial k = Suc (issued c) \<and> issued c' = Suc (issued c) \<and> watching c' = (watching c)(k \<mapsto> ch)"
    and create_answered:
      "inv h c \<Longrightarrow> issued c < limit \<Longrightarrow> legal e \<Longrightarrow>
       createWatch e req (h, c) = Inr ((h', c'), ch, None) \<Longrightarrow>
       issued c' = issued c \<and> watching c' = watching c"
    and cancel_inv: "inv h c \<Longrightarrow> inv h (cancel k c)"
    and cancel_issued: "issued (cancel k c) = issued c"
    and cancel_watching: "watching (cancel k c) = (watching c)(k := None)"
    and watching_issued: "inv h c \<Longrightarrow> watching c k = Some ch \<Longrightarrow> serial k \<le> issued c"
    and watching_ready: "inv h c \<Longrightarrow> watching c k = Some ch \<Longrightarrow> chan_ready h ch"
    and recv_inv: "inv h c \<Longrightarrow> recv ch h = (r, h') \<Longrightarrow> inv h' c"
begin

text \<open>\<open>the consumer may call this function multiple times\<close>\<close>

lemma cancel_twice: "watching (cancel k (cancel k c)) = watching (cancel k c)"
  by (simp add: cancel_watching)

lemma cancel_commute: "watching (cancel k (cancel l c)) = watching (cancel l (cancel k c))"
  by (auto simp: cancel_watching)

lemma create_issued:
  "inv h c \<Longrightarrow> issued c < limit \<Longrightarrow> legal e \<Longrightarrow>
   createWatch e req (h, c) = Inr ((h', c'), ch, ko) \<Longrightarrow>
   issued c \<le> issued c' \<and> issued c' \<le> Suc (issued c)"
  by (cases ko) (auto dest: create_open create_answered)

text \<open>A cancel function handed out before cannot close the new watch.\<close>

lemma create_fresh:
  "inv h c \<Longrightarrow> issued c < limit \<Longrightarrow> legal e \<Longrightarrow>
   createWatch e req (h, c) = Inr ((h', c'), ch, Some k) \<Longrightarrow> serial l \<le> issued c \<Longrightarrow> l \<noteq> k"
  by (auto dest: create_open)

end

end
