(* ===== verification/Cache.thy ===== *)
theory Cache
  imports Resource CacheInterface
begin

text \<open>
  \<open>pkg/cache/status.go\<close> and \<open>pkg/cache/simple.go\<close>: the snapshot cache. Its state is
  the record \<open>snapshot_cache\<close>; the response channels of the watches live in a heap
  beside it. Every exported operation runs under the cache mutex, so each is one atomic
  function on the pair of heap and cache. The cancel function that \<open>CreateWatch\<close> returns
  is the closure data \<open>CancelWatch node id\<close>, and \<open>cancelWatch\<close> its body.

  The invariant \<open>cache_inv\<close> says that the watch ids are the ones handed out, that every
  open watch has a channel of its own with room for the answer, and that an open watch
  asks for the version of the current snapshot. Every operation keeps it, so no operation
  ever blocks on a channel while it holds the mutex, and no open watch is out of date.
\<close>

subsection \<open>State\<close>

record response_watch =
  w_Request :: discovery_request
  w_Response :: chan_id

record status_info =
  si_node :: "core_node option"
  si_watches :: "(int64, response_watch) gomap"
  si_lastWatchRequestTime :: int

record snapshot_cache =
  ads :: bool
  snapshots :: "(string, snapshot) gomap"
  status :: "(string, status_info) gomap"
  watchCount :: int64

datatype cancel = CancelWatch (cancel_node: string) (cancel_id: int64)

text \<open>The orders of the two loops of \<open>respond\<close>: number 0 in \<open>superset\<close>, 1 in \<open>createResponse\<close>.\<close>

type_synonym orders = "nat \<Rightarrow> string order"

subsection \<open>Status\<close>

definition newStatusInfo :: "core_node option \<Rightarrow> status_info" where
  "newStatusInfo node = \<lparr>si_node = node, si_watches = [], si_lastWatchRequestTime = 0\<rparr>"

definition GetNode :: "status_info \<Rightarrow> core_node option" where
  "GetNode info = si_node info"

definition GetNumWatches :: "status_info \<Rightarrow> nat" where
  "GetNumWatches info = length (si_watches info)"

definition GetLastWatchRequestTime :: "status_info \<Rightarrow> int" where
  "GetLastWatchRequestTime info = si_lastWatchRequestTime info"

subsection \<open>Operations\<close>

definition NewSnapshotCache :: "bool \<Rightarrow> snapshot_cache" where
  "NewSnapshotCache b = \<lparr>ads = b, snapshots = [], status = [], watchCount = 0\<rparr>"

definition createResponse ::
    "string order \<Rightarrow> discovery_request \<Rightarrow> (string, resource) gomap \<Rightarrow> string \<Rightarrow> cache_response" where
  "createResponse ord request resources version =
     (let filtered =
        (if length (req_ResourceNames request) \<noteq> 0
         then let set = nameSet (req_ResourceNames request) in
              map snd (filter (\<lambda>(name, resource). map_of set name = Some True) (mrange ord resources))
         else map snd (mrange ord resources))
      in \<lparr>rsp_Request = request, rsp_Version = version, rsp_Resources = filtered\<rparr>)"

definition respond ::
    "snapshot_cache \<Rightarrow> orders \<Rightarrow> discovery_request \<Rightarrow> chan_id \<Rightarrow> (string, resource) gomap
     \<Rightarrow> string \<Rightarrow> rheap \<Rightarrow> rheap go" where
  "respond cache ords request value resources version h =
     (if length (req_ResourceNames request) \<noteq> 0 \<and> ads cache \<and>
         superset (ords 0) (nameSet (req_ResourceNames request)) resources \<noteq> None
      then Inr h
      else send value (createResponse (ords 1) request resources version) h)"

text \<open>One turn of the loop over the watches of a node.\<close>

fun trigger ::
    "snapshot_cache \<Rightarrow> (int64 \<Rightarrow> orders) \<Rightarrow> snapshot \<Rightarrow> int64 \<times> response_watch
     \<Rightarrow> rheap \<times> (int64, response_watch) gomap \<Rightarrow> (rheap \<times> (int64, response_watch) gomap) go" where
  "trigger cache ords snap (watchID, watch) (h, watches) =
     (let version = GetVersion (Some snap) (req_TypeUrl (w_Request watch)) in
      if version \<noteq> req_VersionInfo (w_Request watch)
      then go_bind
             (respond cache (ords watchID) (w_Request watch) (w_Response watch)
                (GetResources (Some snap) (req_TypeUrl (w_Request watch))) version h)
             (\<lambda>h'. Inr (h', mdel watchID watches))
      else Inr (h, watches))"

text \<open>\<open>SetSnapshot\<close> always returns a nil error.\<close>

definition SetSnapshot ::
    "int64 order \<Rightarrow> (int64 \<Rightarrow> orders) \<Rightarrow> string \<Rightarrow> snapshot \<Rightarrow> rheap \<times> snapshot_cache
     \<Rightarrow> (rheap \<times> snapshot_cache) go" where
  "SetSnapshot word ords node snap = (\<lambda>(h, cache).
     let cache1 = cache\<lparr>snapshots := mput node snap (snapshots cache)\<rparr> in
     case map_of (status cache1) node of
       None \<Rightarrow> Inr (h, cache1)
     | Some info \<Rightarrow>
         go_bind (go_fold (trigger cache1 ords snap) (mrange word (si_watches info)) (h, si_watches info))
           (\<lambda>(h', watches').
             Inr (h', cache1\<lparr>status := mput node (info\<lparr>si_watches := watches'\<rparr>) (status cache1)\<rparr>)))"

definition ClearSnapshot :: "string \<Rightarrow> snapshot_cache \<Rightarrow> snapshot_cache" where
  "ClearSnapshot node cache =
     cache\<lparr>snapshots := mdel node (snapshots cache), status := mdel node (status cache)\<rparr>"

definition nodeID :: "discovery_request \<Rightarrow> string" where
  "nodeID request = (case req_Node request of None \<Rightarrow> ''node'' | Some n \<Rightarrow> cn_Id n)"

definition nextWatchID :: "snapshot_cache \<Rightarrow> int64 \<times> snapshot_cache" where
  "nextWatchID cache = (watchCount cache + 1, cache\<lparr>watchCount := watchCount cache + 1\<rparr>)"

definition CreateWatch ::
    "int \<Rightarrow> orders \<Rightarrow> discovery_request \<Rightarrow> rheap \<times> snapshot_cache
     \<Rightarrow> ((rheap \<times> snapshot_cache) \<times> chan_id \<times> cancel option) go" where
  "CreateWatch now ords request = (\<lambda>(h, cache).
     let node = nodeID request;
         info = (case map_of (status cache) node of
                   Some info \<Rightarrow> info
                 | None \<Rightarrow> newStatusInfo (req_Node request));
         info1 = info\<lparr>si_lastWatchRequestTime := now\<rparr>;
         cache1 = cache\<lparr>status := mput node info1 (status cache)\<rparr>;
         (value, h1) = make_chan h;
         snap = (case map_of (snapshots cache1) node of Some s \<Rightarrow> s | None \<Rightarrow> zero_snapshot);
         version = GetVersion (Some snap) (req_TypeUrl request)
     in if \<not> mhas (snapshots cache1) node \<or> req_VersionInfo request = version
        then let (watchID, cache2) = nextWatchID cache1;
                 watch = \<lparr>w_Request = request, w_Response = value\<rparr>;
                 info2 = info1\<lparr>si_watches := mput watchID watch (si_watches info1)\<rparr>
             in Inr ((h1, cache2\<lparr>status := mput node info2 (status cache2)\<rparr>), value,
                     Some (CancelWatch node watchID))
        else go_bind (respond cache1 ords request value (GetResources (Some snap) (req_TypeUrl request)) version h1)
               (\<lambda>h2. Inr ((h2, cache1), value, None)))"

fun cancelWatch :: "cancel \<Rightarrow> snapshot_cache \<Rightarrow> snapshot_cache" where
  "cancelWatch (CancelWatch node watchID) cache =
     (case map_of (status cache) node of
        None \<Rightarrow> cache
      | Some info \<Rightarrow>
          cache\<lparr>status := mput node (info\<lparr>si_watches := mdel watchID (si_watches info)\<rparr>) (status cache)\<rparr>)"

definition Fetch ::
    "string order \<Rightarrow> discovery_request \<Rightarrow> snapshot_cache \<Rightarrow> go_error + cache_response" where
  "Fetch ord request cache =
     (case map_of (snapshots cache) (nodeID request) of
        Some snap \<Rightarrow>
          let version = GetVersion (Some snap) (req_TypeUrl request) in
          if req_VersionInfo request = version then Inl VersionUpToDate
          else Inr (createResponse ord request (GetResources (Some snap) (req_TypeUrl request)) version)
      | None \<Rightarrow> Inl (MissingSnapshot (nodeID request)))"

definition GetStatusInfo :: "string \<Rightarrow> snapshot_cache \<Rightarrow> status_info option" where
  "GetStatusInfo node cache = map_of (status cache) node"

definition GetStatusKeys :: "string order \<Rightarrow> snapshot_cache \<Rightarrow> string list" where
  "GetStatusKeys ord cache = map fst (mrange ord (status cache))"

subsection \<open>Open watches and the invariant\<close>

definition open_watch :: "snapshot_cache \<Rightarrow> string \<Rightarrow> int64 \<Rightarrow> response_watch option" where
  "open_watch cache node watchID =
     (case map_of (status cache) node of
        None \<Rightarrow> None
      | Some info \<Rightarrow> map_of (si_watches info) watchID)"

definition outdated :: "snapshot \<Rightarrow> discovery_request \<Rightarrow> bool" where
  "outdated snap request \<longleftrightarrow> GetVersion (Some snap) (req_TypeUrl request) \<noteq> req_VersionInfo request"

text \<open>In ADS mode a request that names resources must name all of them to be answered.\<close>

definition names_match :: "snapshot_cache \<Rightarrow> discovery_request \<Rightarrow> (string, resource) gomap \<Rightarrow> bool" where
  "names_match cache request resources \<longleftrightarrow>
     req_ResourceNames request = [] \<or> \<not> ads cache \<or>
     dom (map_of resources) \<subseteq> set (req_ResourceNames request)"

definition reply :: "orders \<Rightarrow> snapshot \<Rightarrow> discovery_request \<Rightarrow> cache_response" where
  "reply ords snap request =
     createResponse (ords 1) request (GetResources (Some snap) (req_TypeUrl request))
       (GetVersion (Some snap) (req_TypeUrl request))"

definition cache_wf :: "snapshot_cache \<Rightarrow> bool" where
  "cache_wf c \<longleftrightarrow> map_wf (snapshots c) \<and> map_wf (status c) \<and>
     (\<forall>n s. map_of (snapshots c) n = Some s \<longrightarrow> snapshot_wf s) \<and>
     (\<forall>n i. map_of (status c) n = Some i \<longrightarrow> map_wf (si_watches i))"

definition watch_ids :: "snapshot_cache \<Rightarrow> bool" where
  "watch_ids c \<longleftrightarrow> (\<forall>n i w. open_watch c n i = Some w \<longrightarrow>
     0 < unat i \<and> unat i \<le> unat (watchCount c) \<and> nodeID (w_Request w) = n)"

definition watch_chans :: "rheap \<Rightarrow> snapshot_cache \<Rightarrow> bool" where
  "watch_chans h c \<longleftrightarrow>
     (\<forall>n i w. open_watch c n i = Some w \<longrightarrow> chan_ready h (w_Response w)) \<and>
     (\<forall>n i w n' i' w'. open_watch c n i = Some w \<longrightarrow> open_watch c n' i' = Some w' \<longrightarrow>
        i = i' \<or> w_Response w = w_Response w' \<longrightarrow> n = n' \<and> i = i')"

definition watch_current :: "snapshot_cache \<Rightarrow> bool" where
  "watch_current c \<longleftrightarrow> (\<forall>n i w s. open_watch c n i = Some w \<longrightarrow>
     map_of (snapshots c) n = Some s \<longrightarrow> \<not> outdated s (w_Request w))"

definition cache_inv :: "rheap \<Rightarrow> snapshot_cache \<Rightarrow> bool" where
  "cache_inv h c \<longleftrightarrow> heap_wf h \<and> cache_wf c \<and> watch_ids c \<and> watch_chans h c \<and> watch_current c"

lemmas cache_inv_defs =
  cache_inv_def cache_wf_def watch_ids_def watch_chans_def watch_current_def

lemma cache_inv_ready: "cache_inv h c \<Longrightarrow> open_watch c n i = Some w \<Longrightarrow> chan_ready h (w_Response w)"
  by (simp add: cache_inv_def watch_chans_def)

lemma cache_inv_unique:
  "cache_inv h c \<Longrightarrow> open_watch c n i = Some w \<Longrightarrow> open_watch c n' i' = Some w' \<Longrightarrow>
   i = i' \<or> w_Response w = w_Response w' \<Longrightarrow> n = n' \<and> i = i'"
  unfolding cache_inv_def watch_chans_def by blast

lemma cache_inv_id:
  "cache_inv h c \<Longrightarrow> open_watch c n i = Some w \<Longrightarrow>
   0 < unat i \<and> unat i \<le> unat (watchCount c) \<and> nodeID (w_Request w) = n"
  by (simp add: cache_inv_def watch_ids_def)

lemma cache_inv_current:
  "cache_inv h c \<Longrightarrow> open_watch c n i = Some w \<Longrightarrow> map_of (snapshots c) n = Some s \<Longrightarrow>
   \<not> outdated s (w_Request w)"
  unfolding cache_inv_def watch_current_def by blast

subsection \<open>Answers\<close>

lemma respond_ready:
  assumes "chan_ready h value" and "is_order (ords 0)" and "map_wf resources"
  shows "respond cache ords request value resources version h =
    Inr (if names_match cache request resources
         then set_chan value (full_chan (createResponse (ords 1) request resources version)) h else h)"
  using assms
  by (auto simp: respond_def names_match_def superset_None dom_def nameSet_lookup send_ready
      subset_iff split: if_splits)

lemma createResponse_fields [simp]:
  "rsp_Request (createResponse ord request resources version) = request"
  "rsp_Version (createResponse ord request resources version) = version"
  by (simp_all add: createResponse_def Let_def)

text \<open>The resources of an answer: the named ones, or all if the request names none.\<close>

lemma createResponse_resources:
  assumes "is_order ord" and "map_wf resources"
  shows "mset (rsp_Resources (createResponse ord request resources version)) =
    image_mset snd (filter_mset (\<lambda>p. req_ResourceNames request = [] \<or> fst p \<in> set (req_ResourceNames request))
      (mset resources))"
proof (cases "req_ResourceNames request = []")
  case True
  then show ?thesis
    using mset_mrange [OF assms] by (simp add: createResponse_def case_prod_beta)
next
  case False
  have "rsp_Resources (createResponse ord request resources version) =
      map snd (filter (\<lambda>(n, _). n \<in> set (req_ResourceNames request)) (mrange ord resources))"
    using False by (auto simp: createResponse_def Let_def nameSet_lookup split: if_splits
        intro!: arg_cong [where f = "map snd"] filter_cong)
  then show ?thesis
    using mset_mrange [OF assms] False by (simp add: case_prod_beta mset_filter)
qed

lemma createResponse_set:
  assumes "is_order ord" and "map_wf resources"
  shows "set (rsp_Resources (createResponse ord request resources version)) =
    {r. \<exists>n. map_of resources n = Some r \<and>
       (req_ResourceNames request = [] \<or> n \<in> set (req_ResourceNames request))}"
  unfolding set_mset_mset [symmetric] createResponse_resources [OF assms]
  by (auto simp: map_wf_lookup [OF assms(2), symmetric] image_iff Bex_def)

lemma reply_fields [simp]:
  "rsp_Request (reply ords snap req) = req"
  "rsp_Version (reply ords snap req) = GetVersion (Some snap) (req_TypeUrl req)"
  by (simp_all add: reply_def)

lemma reply_resources:
  assumes "is_order (ords 1)" and "snapshot_wf snap"
  shows "set (rsp_Resources (reply ords snap req)) =
    {r. \<exists>x. map_of (GetResources (Some snap) (req_TypeUrl req)) x = Some r \<and>
       (req_ResourceNames req = [] \<or> x \<in> set (req_ResourceNames req))}"
  unfolding reply_def by (rule createResponse_set [OF assms(1) wf_GetResources [OF assms(2)]])

subsection \<open>SetSnapshot\<close>

definition answered :: "snapshot_cache \<Rightarrow> snapshot \<Rightarrow> discovery_request \<Rightarrow> bool" where
  "answered cache snap request \<longleftrightarrow>
     outdated snap request \<and> names_match cache request (GetResources (Some snap) (req_TypeUrl request))"

lemma trigger_eq:
  assumes "chan_ready h (w_Response w)" and "is_order (ords i 0)" and "snapshot_wf snap"
  shows "trigger c ords snap (i, w) (h, ws) =
    Inr (if answered c snap (w_Request w)
           then set_chan (w_Response w) (full_chan (reply (ords i) snap (w_Request w))) h else h,
         if outdated snap (w_Request w) then mdel i ws else ws)"
  using respond_ready [where ords = "ords i", OF assms(1,2) wf_GetResources [OF assms(3)]]
  by (auto simp: Let_def outdated_def answered_def reply_def)

text \<open>
  The effect of the loop on the heap: each answered watch finds its reply in its channel,
  every other channel is as before.
\<close>

definition replies_sent ::
    "snapshot_cache \<Rightarrow> (int64 \<Rightarrow> orders) \<Rightarrow> snapshot \<Rightarrow> (int64 \<times> response_watch) list
     \<Rightarrow> rheap \<Rightarrow> rheap \<Rightarrow> bool" where
  "replies_sent c ords snap xs h h' \<longleftrightarrow> h_next h' = h_next h \<and>
     (\<forall>ch. (\<forall>i w. (i, w) \<in> set xs \<longrightarrow> answered c snap (w_Request w) \<longrightarrow> w_Response w \<noteq> ch)
        \<longrightarrow> h_chan h' ch = h_chan h ch) \<and>
     (\<forall>i w. (i, w) \<in> set xs \<longrightarrow> answered c snap (w_Request w) \<longrightarrow>
        h_chan h' (w_Response w) = Some (full_chan (reply (ords i) snap (w_Request w))))"

definition outdated_ids :: "snapshot \<Rightarrow> (int64 \<times> response_watch) list \<Rightarrow> int64 list" where
  "outdated_ids snap xs = map fst (filter (\<lambda>(i, w). outdated snap (w_Request w)) xs)"

definition separate_chans :: "rheap \<Rightarrow> (int64 \<times> response_watch) list \<Rightarrow> bool" where
  "separate_chans h xs \<longleftrightarrow> distinct (map (\<lambda>x. w_Response (snd x)) xs) \<and>
     (\<forall>x \<in> set xs. chan_ready h (w_Response (snd x)))"

lemma trigger_fold:
  assumes ord: "\<And>i. is_order (ords i 0)" and snap: "snapshot_wf snap" and "separate_chans h xs"
  shows "\<exists>h'. go_fold (trigger c ords snap) xs (h, ws) = Inr (h', fold mdel (outdated_ids snap xs) ws)
    \<and> replies_sent c ords snap xs h h'"
  using assms(3)
proof (induction xs arbitrary: h ws)
  case Nil
  then show ?case by (simp add: replies_sent_def outdated_ids_def)
next
  case (Cons x xs)
  obtain i w where x: "x = (i, w)" by (cases x)
  let ?h = "if answered c snap (w_Request w)
    then set_chan (w_Response w) (full_chan (reply (ords i) snap (w_Request w))) h else h"
  let ?ws = "if outdated snap (w_Request w) then mdel i ws else ws"
  have step: "trigger c ords snap x (h, ws) = Inr (?h, ?ws)"
    unfolding x using Cons.prems x by (intro trigger_eq ord snap) (simp add: separate_chans_def)
  have apart: "w_Response v \<noteq> w_Response w" if "(j, v) \<in> set xs" for j v
    using Cons.prems that x by (force simp: separate_chans_def)
  then have "separate_chans ?h xs"
    using Cons.prems by (auto simp: separate_chans_def)
  then obtain h' where IH: "go_fold (trigger c ords snap) xs (?h, ?ws) =
        Inr (h', fold mdel (outdated_ids snap xs) ?ws)"
      and sent: "replies_sent c ords snap xs ?h h'"
    using Cons.IH by blast
  have "replies_sent c ords snap (x # xs) h h'"
    using sent apart unfolding replies_sent_def x by (auto split: if_splits)
  with step IH show ?case
    by (auto simp: outdated_ids_def x)
qed

lemma open_watch_status: "map_of (status c) n = Some info \<Longrightarrow> open_watch c n i = map_of (si_watches info) i"
  by (simp add: open_watch_def)

lemma open_watch_no_status: "map_of (status c) n = None \<Longrightarrow> open_watch c n i = None"
  by (simp add: open_watch_def)

lemma separate_chans_inv:
  assumes "cache_inv h c" and "map_of (status c) n = Some info" and "is_order word"
  shows "separate_chans h (mrange word (si_watches info))"
proof -
  have wf: "map_wf (si_watches info)"
    using assms(1,2) by (simp add: cache_inv_defs)
  then have mem: "(i, w) \<in> set (mrange word (si_watches info)) \<longleftrightarrow> open_watch c n i = Some w" for i w
    using assms(2,3) by (simp add: map_wf_lookup open_watch_status)
  have "inj_on (\<lambda>x. w_Response (snd x)) (set (mrange word (si_watches info)))"
  proof (rule inj_onI)
    fix x y
    assume "x \<in> set (mrange word (si_watches info))" "y \<in> set (mrange word (si_watches info))"
      and eq: "w_Response (snd x) = w_Response (snd y)"
    then have xy: "open_watch c n (fst x) = Some (snd x)" "open_watch c n (fst y) = Some (snd y)"
      by (simp_all flip: mem)
    with assms(1) eq have "fst x = fst y"
      unfolding cache_inv_defs by blast
    with xy show "x = y" by (simp add: prod_eq_iff)
  qed
  moreover have "distinct (mrange word (si_watches info))"
    using map_wf_mrange [OF assms(3) wf] unfolding map_wf_def distinct_map by blast
  moreover have "chan_ready h (w_Response (snd x))" if "x \<in> set (mrange word (si_watches info))" for x
    using assms(1) mem [of "fst x" "snd x"] that unfolding cache_inv_defs by auto
  ultimately show ?thesis
    by (simp add: separate_chans_def distinct_map)
qed

text \<open>
  The contract of \<open>SetSnapshot\<close>: the node has the new snapshot, the watches of the node
  whose version differs are gone and the answered ones have their reply, and nothing else
  has changed.
\<close>

definition set_snapshot_post ::
    "(int64 \<Rightarrow> orders) \<Rightarrow> string \<Rightarrow> snapshot \<Rightarrow> rheap \<Rightarrow> snapshot_cache \<Rightarrow> rheap \<Rightarrow> snapshot_cache \<Rightarrow> bool" where
  "set_snapshot_post ords n snap h c h' c' \<longleftrightarrow>
     ads c' = ads c \<and> watchCount c' = watchCount c \<and> snapshots c' = mput n snap (snapshots c) \<and>
     (\<forall>m. mhas (status c') m \<longleftrightarrow> mhas (status c) m) \<and>
     (\<forall>m i. open_watch c' m i =
        (case open_watch c m i of
           None \<Rightarrow> None
         | Some w \<Rightarrow> if m = n \<and> outdated snap (w_Request w) then None else Some w)) \<and>
     h_next h' = h_next h \<and>
     (\<forall>i w. open_watch c n i = Some w \<longrightarrow> answered c snap (w_Request w) \<longrightarrow>
        h_chan h' (w_Response w) = Some (full_chan (reply (ords i) snap (w_Request w)))) \<and>
     (\<forall>ch. (\<forall>i w. open_watch c n i = Some w \<longrightarrow> answered c snap (w_Request w) \<longrightarrow> w_Response w \<noteq> ch)
        \<longrightarrow> h_chan h' ch = h_chan h ch)"

lemma answered_ads: "ads c' = ads c \<Longrightarrow> answered c' snap request = answered c snap request"
  by (simp add: answered_def names_match_def)

lemma outdated_ids_mem:
  assumes "map_wf ws" and "is_order word"
  shows "i \<in> set (outdated_ids snap (mrange word ws)) \<longleftrightarrow>
    (\<exists>w. map_of ws i = Some w \<and> outdated snap (w_Request w))"
  using assms by (force simp: outdated_ids_def map_wf_lookup [symmetric])

lemma SetSnapshot_correct:
  assumes inv: "cache_inv h c" and "snapshot_wf snap" and word: "is_order word"
    and "\<And>i. is_order (ords i 0)"
  shows "\<exists>h' c'. SetSnapshot word ords n snap (h, c) = Inr (h', c') \<and> cache_wf c' \<and>
    set_snapshot_post ords n snap h c h' c'"
proof (cases "map_of (status c) n")
  case None
  then show ?thesis
    using inv assms(2) unfolding set_snapshot_post_def
    by (auto simp: SetSnapshot_def cache_inv_def cache_wf_def open_watch_def split: option.splits)
next
  case (Some info)
  let ?c1 = "c\<lparr>snapshots := mput n snap (snapshots c)\<rparr>"
  let ?xs = "mrange word (si_watches info)"
  have wf: "map_wf (si_watches info)"
    using inv Some by (simp add: cache_inv_defs)
  obtain h' where loop: "go_fold (trigger ?c1 ords snap) ?xs (h, si_watches info) =
        Inr (h', fold mdel (outdated_ids snap ?xs) (si_watches info))"
      and sent: "replies_sent ?c1 ords snap ?xs h h'"
    using trigger_fold [where ords = ords, OF assms(4,2) separate_chans_inv [OF inv Some word]] by blast
  let ?info = "info\<lparr>si_watches := fold mdel (outdated_ids snap ?xs) (si_watches info)\<rparr>"
  let ?c' = "?c1\<lparr>status := mput n ?info (status c)\<rparr>"
  have res: "SetSnapshot word ords n snap (h, c) = Inr (h', ?c')"
    using Some loop by (simp add: SetSnapshot_def Let_def)
  have mem: "(i, w) \<in> set ?xs \<longleftrightarrow> open_watch c n i = Some w" for i w
    using wf word Some by (simp add: map_wf_lookup open_watch_status)
  have "open_watch ?c' m i = (case open_watch c m i of None \<Rightarrow> None
      | Some w \<Rightarrow> if m = n \<and> outdated snap (w_Request w) then None else Some w)" for m i
    using Some outdated_ids_mem [OF wf word]
    by (auto simp: open_watch_def gm.get_fold_del split: option.splits)
  moreover have "cache_wf ?c'"
    using inv assms(2) wf by (auto simp: cache_inv_def cache_wf_def gm.wf_fold_del)
  moreover have "answered ?c1 snap r = answered c snap r" for r
    by (rule answered_ads) simp
  ultimately show ?thesis
    using res sent Some unfolding set_snapshot_post_def replies_sent_def mem by auto
qed

lemma set_snapshot_post_inv:
  assumes inv: "cache_inv h c" and "cache_wf c'" and post: "set_snapshot_post ords n snap h c h' c'"
  shows "cache_inv h' c'"
proof -
  have ow: "open_watch c' m i = Some w \<longleftrightarrow>
      open_watch c m i = Some w \<and> (m = n \<longrightarrow> \<not> outdated snap (w_Request w))" for m i w
    using post by (auto simp: set_snapshot_post_def split: option.splits)
  have kept: "h_chan h' ch = h_chan h ch"
    if "\<forall>i w. open_watch c n i = Some w \<longrightarrow> answered c snap (w_Request w) \<longrightarrow> w_Response w \<noteq> ch" for ch
    using post that by (simp add: set_snapshot_post_def)
  have heap: "h_chan h' ch \<noteq> None \<Longrightarrow> h_chan h ch \<noteq> None" for ch
  proof (cases "\<forall>i w. open_watch c n i = Some w \<longrightarrow> answered c snap (w_Request w) \<longrightarrow> w_Response w \<noteq> ch")
    case False
    then show ?thesis using inv by (auto simp: cache_inv_defs chan_ready_def)
  qed (simp add: kept)
  have "heap_wf h'"
    using inv heap post by (simp add: cache_inv_def heap_wf_def set_snapshot_post_def)
  moreover have "watch_ids c'"
    using inv post ow by (auto simp: cache_inv_def watch_ids_def set_snapshot_post_def)
  moreover have "watch_current c'"
    using inv post ow by (auto simp: cache_inv_def watch_current_def set_snapshot_post_def)
  moreover have "chan_ready h' (w_Response w)" if "open_watch c' m i = Some w" for m i w
  proof -
    have "w_Response v \<noteq> w_Response w" if "open_watch c n j = Some v" "answered c snap (w_Request v)" for j v
      using cache_inv_unique [OF inv that(1), of m i w] ow [of m i w] \<open>open_watch c' m i = Some w\<close> that
      by (auto simp: answered_def)
    then have "h_chan h' (w_Response w) = h_chan h (w_Response w)" by (intro kept) blast
    then show ?thesis
      using cache_inv_ready [OF inv, of m i w] ow [of m i w] that by (simp add: chan_ready_def)
  qed
  then have "watch_chans h' c'"
    using inv ow unfolding cache_inv_def watch_chans_def by blast
  ultimately show ?thesis
    using assms(2) by (simp add: cache_inv_def)
qed

lemma SetSnapshot_inv:
  assumes "cache_inv h c" and "snapshot_wf snap" and "is_order word" and "\<And>i. is_order (ords i 0)"
  shows "\<exists>h' c'. SetSnapshot word ords n snap (h, c) = Inr (h', c') \<and> cache_inv h' c' \<and>
    set_snapshot_post ords n snap h c h' c'"
  using SetSnapshot_correct [where ords = ords, OF assms] set_snapshot_post_inv [OF assms(1)] by blast

subsection \<open>CreateWatch\<close>

text \<open>
  The contract of \<open>CreateWatch\<close>: a fresh channel; a new open watch when the node has no
  snapshot or the requested version is the current one, otherwise the reply at once (unless
  the names do not match in ADS mode) and no cancel function.
\<close>

definition create_watch_post ::
    "orders \<Rightarrow> discovery_request \<Rightarrow> rheap \<Rightarrow> snapshot_cache
     \<Rightarrow> rheap \<Rightarrow> snapshot_cache \<Rightarrow> chan_id \<Rightarrow> cancel option \<Rightarrow> bool" where
  "create_watch_post ords request h c h' c' ch k \<longleftrightarrow>
     ads c' = ads c \<and> snapshots c' = snapshots c \<and>
     (\<forall>m. mhas (status c') m \<longleftrightarrow> m = nodeID request \<or> mhas (status c) m) \<and>
     ch = h_next h \<and> h_next h' = Suc (h_next h) \<and> (\<forall>d. d \<noteq> ch \<longrightarrow> h_chan h' d = h_chan h d) \<and>
     (case map_of (snapshots c) (nodeID request) of
        Some s \<Rightarrow> if outdated s request
          then k = None \<and> watchCount c' = watchCount c \<and> (\<forall>m i. open_watch c' m i = open_watch c m i) \<and>
               h_chan h' ch = Some (if answered c s request then full_chan (reply ords s request) else empty_chan)
          else k \<noteq> None
      | None \<Rightarrow> k \<noteq> None) \<and>
     (\<forall>t. k = Some t \<longrightarrow>
        t = CancelWatch (nodeID request) (watchCount c + 1) \<and> watchCount c' = watchCount c + 1 \<and>
        h_chan h' ch = Some empty_chan \<and>
        (\<forall>m i. open_watch c' m i =
           (if m = nodeID request \<and> i = watchCount c + 1
            then Some \<lparr>w_Request = request, w_Response = ch\<rparr> else open_watch c m i)))"

lemma CreateWatch_correct:
  assumes inv: "cache_wf c" and "is_order (ords 0)"
  shows "\<exists>h' c' ch k. CreateWatch now ords request (h, c) = Inr ((h', c'), ch, k) \<and> cache_wf c' \<and>
    create_watch_post ords request h c h' c' ch k"
proof -
  obtain ch h1 where mk: "make_chan h = (ch, h1)" by (cases "make_chan h")
  note h1 = make_chan_props [OF mk]
  show ?thesis
  proof (cases "\<exists>s. map_of (snapshots c) (nodeID request) = Some s \<and> outdated s request")
    case True
    then obtain s where s: "map_of (snapshots c) (nodeID request) = Some s" "outdated s request" by blast
    then have "map_wf (GetResources (Some s) (req_TypeUrl request))"
      using inv by (simp add: cache_wf_def)
    note r = respond_ready [where ords = ords, OF h1(3) assms(2) this]
    show ?thesis
      using s r h1 inv unfolding create_watch_post_def
      by (auto simp: CreateWatch_def Let_def mk outdated_def answered_def reply_def names_match_def
          cache_wf_def open_watch_def newStatusInfo_def chan_ready_def split: option.splits)
  next
    case False
    then have "\<not> mhas (snapshots c) (nodeID request) \<or> (\<exists>s. map_of (snapshots c) (nodeID request) = Some s \<and>
        req_VersionInfo request = GetVersion (Some s) (req_TypeUrl request))"
      by (auto simp: outdated_def)
    then show ?thesis
      using False h1 inv unfolding create_watch_post_def
      by (auto simp: CreateWatch_def Let_def mk nextWatchID_def cache_wf_def open_watch_def
          newStatusInfo_def chan_ready_def split: option.splits)
  qed
qed

text \<open>The counter is 64 bits wide; below its last value the next id is new.\<close>

definition ids_left :: "snapshot_cache \<Rightarrow> bool" where
  "ids_left c \<longleftrightarrow> unat (watchCount c) + 1 < 2 ^ 64"

lemma unat_next_id: "ids_left c \<Longrightarrow> unat (watchCount c + 1) = unat (watchCount c) + 1"
  by (simp add: ids_left_def unat_word_ariths)

lemma next_id_fresh:
  assumes "cache_inv h c" and "ids_left c"
  shows "open_watch c n (watchCount c + 1) = None"
  using cache_inv_id [OF assms(1), of n "watchCount c + 1"] unat_next_id [OF assms(2)]
  by (cases "open_watch c n (watchCount c + 1)") auto

text \<open>The invariants of the watches when the request opens a new one.\<close>

lemma new_watch_inv:
  assumes inv: "cache_inv h c" and left: "ids_left c"
    and post: "create_watch_post ords request h c h' c' ch (Some t)"
    and other: "\<And>m i w. open_watch c m i = Some w \<Longrightarrow> chan_ready h' (w_Response w) \<and> w_Response w \<noteq> ch"
  shows "watch_ids c'" "watch_chans h' c'" "watch_current c'"
proof -
  let ?w = "\<lparr>w_Request = request, w_Response = ch\<rparr>"
  have ow: "open_watch c' m i = Some w \<longleftrightarrow>
      (m = nodeID request \<and> i = watchCount c + 1 \<and> w = ?w) \<or> open_watch c m i = Some w" for m i w
    using post next_id_fresh [OF inv left, of m] by (auto simp: create_watch_post_def)
  have cnt: "watchCount c' = watchCount c + 1" "chan_ready h' ch" "snapshots c' = snapshots c"
    using post by (auto simp: create_watch_post_def chan_ready_def)
  show "watch_ids c'"
    unfolding watch_ids_def
  proof (intro allI impI)
    fix m i w assume "open_watch c' m i = Some w"
    then show "0 < unat i \<and> unat i \<le> unat (watchCount c') \<and> nodeID (w_Request w) = m"
      using cache_inv_id [OF inv, of m i w] unat_next_id [OF left] cnt(1) by (auto simp: ow)
  qed
  show "watch_chans h' c'"
    using cache_inv_unique [OF inv] cnt(2) next_id_fresh [OF inv left]
    unfolding watch_chans_def ow by (auto dest: other)
  show "watch_current c'"
    using cache_inv_current [OF inv] post
    unfolding watch_current_def ow cnt(3) by (auto simp: create_watch_post_def split: if_splits)
qed

lemma create_watch_post_inv:
  assumes inv: "cache_inv h c" and "cache_wf c'" and left: "ids_left c"
    and post: "create_watch_post ords request h c h' c' ch k"
  shows "cache_inv h' c'"
proof -
  have p: "ch = h_next h" "h_next h' = Suc (h_next h)" "\<And>d. d \<noteq> ch \<Longrightarrow> h_chan h' d = h_chan h d"
    "snapshots c' = snapshots c"
    using post by (auto simp: create_watch_post_def)
  have wf: "heap_wf h" using inv by (simp add: cache_inv_def)
  have "heap_wf h'"
    unfolding heap_wf_def
  proof (intro allI impI)
    fix d assume "h_chan h' d \<noteq> None"
    with wf p show "d < h_next h'" by (cases "d = ch") (auto simp: heap_wf_def less_Suc_eq)
  qed
  moreover have other: "chan_ready h' (w_Response w) \<and> w_Response w \<noteq> ch"
    if "open_watch c m i = Some w" for m i w
    using chan_ready_allocated [OF wf cache_inv_ready [OF inv that]] cache_inv_ready [OF inv that] p
    by (auto simp: chan_ready_def)
  moreover have "watch_ids c' \<and> watch_chans h' c' \<and> watch_current c'"
  proof (cases k)
    case None
    then have "open_watch c' = open_watch c" "watchCount c' = watchCount c"
      using post by (auto simp: create_watch_post_def fun_eq_iff split: option.splits if_splits)
    then show ?thesis
      using inv p(4) other unfolding cache_inv_def watch_ids_def watch_chans_def watch_current_def by auto
  next
    case (Some t)
    show ?thesis
      by (intro conjI new_watch_inv [OF inv left post [unfolded Some]]) (auto dest: other)
  qed
  ultimately show ?thesis
    using assms(2) by (simp add: cache_inv_def)
qed

lemma CreateWatch_inv:
  assumes "cache_inv h c" and "ids_left c" and "is_order (ords 0)"
  shows "\<exists>h' c' ch k. CreateWatch now ords request (h, c) = Inr ((h', c'), ch, k) \<and> cache_inv h' c' \<and>
    create_watch_post ords request h c h' c' ch k"
proof -
  have "cache_wf c" using assms(1) by (simp add: cache_inv_def)
  from CreateWatch_correct [where ords = ords, OF this assms(3)] show ?thesis
    using create_watch_post_inv [OF assms(1) _ assms(2)] by meson
qed

subsection \<open>Cancelling and clearing\<close>

lemma open_watch_cancel:
  "open_watch (cancelWatch (CancelWatch n i) c) m j = (if m = n \<and> j = i then None else open_watch c m j)"
  by (auto simp: open_watch_def split: option.splits)

lemma cancelWatch_other [simp]:
  "snapshots (cancelWatch k c) = snapshots c" "watchCount (cancelWatch k c) = watchCount c"
  "ads (cancelWatch k c) = ads c"
  by (cases k; simp split: option.splits)+

declare cancelWatch.simps [simp del]

lemma cache_wf_cancel: "cache_wf c \<Longrightarrow> cache_wf (cancelWatch k c)"
  by (cases k) (auto simp: cache_wf_def cancelWatch.simps split: option.splits)

text \<open>Fewer open watches keep the invariant.\<close>

lemma cache_inv_fewer:
  assumes "cache_inv h c" and "cache_wf c'" and "watchCount c' = watchCount c"
    and "\<And>n s. map_of (snapshots c') n = Some s \<Longrightarrow> map_of (snapshots c) n = Some s"
    and "\<And>n i w. open_watch c' n i = Some w \<Longrightarrow> open_watch c n i = Some w"
  shows "cache_inv h c'"
proof -
  have "watch_ids c'"
    using cache_inv_id [OF assms(1) assms(5)] assms(3) by (simp add: watch_ids_def)
  moreover have "watch_chans h c'"
    unfolding watch_chans_def
    using cache_inv_ready [OF assms(1) assms(5)] cache_inv_unique [OF assms(1) assms(5) assms(5)] by blast
  moreover have "watch_current c'"
    unfolding watch_current_def using cache_inv_current [OF assms(1) assms(5) assms(4)] by blast
  ultimately show ?thesis
    using assms(1,2) by (simp add: cache_inv_def)
qed

lemma cancelWatch_inv:
  assumes "cache_inv h c"
  shows "cache_inv h (cancelWatch k c)"
proof (rule cache_inv_fewer [OF assms])
  show "cache_wf (cancelWatch k c)" using assms by (simp add: cache_inv_def cache_wf_cancel)
  show "open_watch c n i = Some w" if "open_watch (cancelWatch k c) n i = Some w" for n i w
    using that by (cases k) (simp add: open_watch_cancel split: if_splits)
qed simp_all

lemma open_watch_clear: "open_watch (ClearSnapshot n c) m i = (if m = n then None else open_watch c m i)"
  by (auto simp: open_watch_def ClearSnapshot_def)

lemma ClearSnapshot_inv:
  assumes "cache_inv h c"
  shows "cache_inv h (ClearSnapshot n c)"
proof (rule cache_inv_fewer [OF assms])
  show "cache_wf (ClearSnapshot n c)"
    using assms by (auto simp: cache_inv_def cache_wf_def ClearSnapshot_def)
  show "map_of (snapshots c) m = Some s" if "map_of (snapshots (ClearSnapshot n c)) m = Some s" for m s
    using that by (simp add: ClearSnapshot_def split: if_splits)
  show "open_watch c m i = Some w" if "open_watch (ClearSnapshot n c) m i = Some w" for m i w
    using that by (simp add: open_watch_clear split: if_splits)
qed (simp add: ClearSnapshot_def)

lemma NewSnapshotCache_inv: "cache_inv empty_heap (NewSnapshotCache b)"
  by (simp add: cache_inv_defs NewSnapshotCache_def open_watch_def)

text \<open>A receiver that takes a value out of a channel does not disturb the watches.\<close>

lemma recv_cache_inv: "recv ch h = (r, h') \<Longrightarrow> cache_inv h c \<Longrightarrow> cache_inv h' c"
  by (simp add: cache_inv_def watch_chans_def recv_heap_wf) (metis recv_keeps_ready)

subsection \<open>The snapshot cache is a config watcher\<close>

fun watching_chan :: "snapshot_cache \<Rightarrow> cancel \<Rightarrow> chan_id option" where
  "watching_chan c (CancelWatch n i) = map_option w_Response (open_watch c n i)"

definition cancel_serial :: "cancel \<Rightarrow> nat" where
  "cancel_serial k = unat (cancel_id k)"

definition ids_issued :: "snapshot_cache \<Rightarrow> nat" where
  "ids_issued c = unat (watchCount c)"

definition id_limit :: nat where
  "id_limit = 2 ^ 64 - 1"

definition legal_orders :: "int \<times> orders \<Rightarrow> bool" where
  "legal_orders e \<longleftrightarrow> (\<forall>j. is_order (snd e j))"

lemma ids_left_limit: "ids_issued c < id_limit \<longleftrightarrow> ids_left c"
  by (simp add: ids_issued_def id_limit_def ids_left_def)

lemma CreateWatch_post:
  assumes "cache_inv h c" and "ids_issued c < id_limit" and "legal_orders e"
    and "CreateWatch (fst e) (snd e) req (h, c) = Inr ((h', c'), ch, k)"
  shows "cache_inv h' c' \<and> create_watch_post (snd e) req h c h' c' ch k"
  using CreateWatch_inv [of h c "snd e" "fst e" req] assms
  by (auto simp: ids_left_limit legal_orders_def)

lemma watching_chan_eqI:
  "(\<And>n i. map_option w_Response (open_watch c n i) = f (CancelWatch n i)) \<Longrightarrow> watching_chan c = f"
  by (rule ext, rename_tac k, case_tac k) simp

interpretation sc: config_watcher
  "\<lambda>e. CreateWatch (fst e) (snd e)" cancelWatch watching_chan cache_inv cancel_serial ids_issued
  id_limit legal_orders
proof
  fix h c e req
  assume "cache_inv h c" "ids_issued c < id_limit" "legal_orders e"
  then show "\<exists>h' c' ch k. CreateWatch (fst e) (snd e) req (h, c) = Inr ((h', c'), ch, k)"
    using CreateWatch_inv [of h c "snd e" "fst e" req] by (auto simp: ids_left_limit legal_orders_def)
next
  fix h c e req h' c' ch k
  assume a: "cache_inv h c" "ids_issued c < id_limit" "legal_orders e"
    "CreateWatch (fst e) (snd e) req (h, c) = Inr ((h', c'), ch, k)"
  show "cache_inv h' c'"
    using CreateWatch_post [OF a] by blast
  show "ch = h_next h \<and> h_next h' = Suc (h_next h) \<and> (\<forall>d. d \<noteq> ch \<longrightarrow> h_chan h' d = h_chan h d)"
    using CreateWatch_post [OF a] by (simp add: create_watch_post_def)
next
  fix h c e req h' c' ch k
  assume a: "cache_inv h c" "ids_issued c < id_limit" "legal_orders e"
    "CreateWatch (fst e) (snd e) req (h, c) = Inr ((h', c'), ch, Some k)"
  have left: "ids_left c" using a(2) by (simp add: ids_left_limit)
  have p: "k = CancelWatch (nodeID req) (watchCount c + 1)" "watchCount c' = watchCount c + 1"
    "\<And>m i. open_watch c' m i = (if m = nodeID req \<and> i = watchCount c + 1
       then Some \<lparr>w_Request = req, w_Response = ch\<rparr> else open_watch c m i)"
    using CreateWatch_post [OF a] by (simp_all add: create_watch_post_def)
  have "watching_chan c' = (watching_chan c)(k \<mapsto> ch)"
    by (rule watching_chan_eqI) (simp add: p)
  then show "cancel_serial k = Suc (ids_issued c) \<and> ids_issued c' = Suc (ids_issued c) \<and>
      watching_chan c' = (watching_chan c)(k \<mapsto> ch)"
    using unat_next_id [OF left] by (simp add: cancel_serial_def ids_issued_def p)
next
  fix h c e req h' c' ch
  assume a: "cache_inv h c" "ids_issued c < id_limit" "legal_orders e"
    "CreateWatch (fst e) (snd e) req (h, c) = Inr ((h', c'), ch, None)"
  then have "watchCount c' = watchCount c" "\<And>m i. open_watch c' m i = open_watch c m i"
    using CreateWatch_post [OF a] by (auto simp: create_watch_post_def split: option.splits if_splits)
  then show "ids_issued c' = ids_issued c \<and> watching_chan c' = watching_chan c"
    by (simp add: ids_issued_def watching_chan_eqI)
next
  fix h c k
  show "cache_inv h c \<Longrightarrow> cache_inv h (cancelWatch k c)" by (rule cancelWatch_inv)
next
  fix k c
  show "ids_issued (cancelWatch k c) = ids_issued c" by (simp add: ids_issued_def)
  show "watching_chan (cancelWatch k c) = (watching_chan c)(k := None)"
    by (rule watching_chan_eqI, cases k) (simp add: open_watch_cancel)
next
  fix h c k ch
  assume "cache_inv h c" "watching_chan c k = Some ch"
  then show "cancel_serial k \<le> ids_issued c" "chan_ready h ch"
    by (cases k; auto simp: cancel_serial_def ids_issued_def dest: cache_inv_id cache_inv_ready)+
next
  fix h c ch r h'
  show "cache_inv h c \<Longrightarrow> recv ch h = (r, h') \<Longrightarrow> cache_inv h' c" by (rule recv_cache_inv)
qed

text \<open>A cache with one client that waits.\<close>

lemma ids_left_New [simp]: "ids_left (NewSnapshotCache b)"
  by (simp add: ids_left_def NewSnapshotCache_def)

lemma waiting_cache:
  fixes req :: discovery_request
  obtains h c ch k where "CreateWatch 0 (\<lambda>_. id) req (empty_heap, NewSnapshotCache False) = Inr ((h, c), ch, k)"
    "cache_inv h c" "open_watch c (nodeID req) 1 = Some \<lparr>w_Request = req, w_Response = 0\<rparr>" "ads c = False"
proof -
  obtain h c ch k where w: "CreateWatch 0 (\<lambda>_. id) req (empty_heap, NewSnapshotCache False) = Inr ((h, c), ch, k)"
      "cache_inv h c" "create_watch_post (\<lambda>_. id) req empty_heap (NewSnapshotCache False) h c ch k"
    using CreateWatch_inv [OF NewSnapshotCache_inv ids_left_New, of "\<lambda>_. id" 0 req False] by auto
  then have "k \<noteq> None" "ads c = False" "ch = 0"
    by (auto simp: create_watch_post_def NewSnapshotCache_def empty_heap_def)
  then obtain t where "k = Some t" by blast
  with w(3) have "open_watch c m i = (if m = nodeID req \<and> i = watchCount (NewSnapshotCache False) + 1
      then Some \<lparr>w_Request = req, w_Response = ch\<rparr> else open_watch (NewSnapshotCache False) m i)" for m i
    by (simp add: create_watch_post_def)
  then have "open_watch c (nodeID req) 1 = Some \<lparr>w_Request = req, w_Response = 0\<rparr>"
    using \<open>ch = 0\<close> by (simp add: NewSnapshotCache_def)
  with w(1,2) \<open>ads c = False\<close> show thesis by (intro that)
qed

end
