(* ===== verification/GoStrings.thy ===== *)
theory GoStrings
  imports Prelude
begin

text \<open>
  The functions of Go's packages \<open>strings\<close>, \<open>strconv\<close> and \<open>encoding/hex\<close> that the
  program calls: \<open>strings.Split\<close>, \<open>strings.TrimPrefix\<close>, \<open>strconv.Atoi\<close> and
  \<open>strconv.ParseInt(s, 10, 64)\<close>, \<open>strconv.FormatInt(i, 10)\<close>, \<open>hex.EncodeToString\<close>.
  A Go string is the list of its bytes, as \<open>char\<close>s. \<open>int\<close> is 64 bits wide, so
  \<open>Atoi\<close> and \<open>ParseInt\<close> accept the same strings.
\<close>

subsection \<open>strings.Split and strings.TrimPrefix\<close>

definition HasPrefix :: "string \<Rightarrow> string \<Rightarrow> bool" where
  "HasPrefix s p \<longleftrightarrow> take (length p) s = p"

definition TrimPrefix :: "string \<Rightarrow> string \<Rightarrow> string" where
  "TrimPrefix s p = (if HasPrefix s p then drop (length p) s else s)"

text \<open>
  The program only splits at non-empty literals. \<open>split_from sep acc s\<close> has read \<open>acc\<close>
  (reversed) since the last separator.
\<close>

function split_from :: "string \<Rightarrow> string \<Rightarrow> string \<Rightarrow> string list" where
  "split_from sep acc [] = [rev acc]"
| "split_from sep acc (c # cs) =
     (if sep \<noteq> [] \<and> HasPrefix (c # cs) sep
      then rev acc # split_from sep [] (drop (length sep) (c # cs))
      else split_from sep (c # acc) cs)"
  by pat_completeness auto
termination
  by (relation "measure (\<lambda>(sep, acc, s). length s)") auto

definition Split :: "string \<Rightarrow> string \<Rightarrow> string list" where
  "Split s sep = split_from sep [] s"

fun Join :: "string list \<Rightarrow> string \<Rightarrow> string" where
  "Join [] sep = []"
| "Join [x] sep = x"
| "Join (x # y # xs) sep = x @ sep @ Join (y # xs) sep"

lemma HasPrefix_append: "HasPrefix s p \<longleftrightarrow> (\<exists>t. s = p @ t)"
  by (metis HasPrefix_def append_eq_conv_conj append_take_drop_id)

lemma HasPrefix_self [simp]: "HasPrefix (p @ t) p"
  by (simp add: HasPrefix_def)

lemma TrimPrefix_append [simp]: "TrimPrefix (p @ t) p = t"
  by (simp add: TrimPrefix_def)

text \<open>The test \<open>TrimPrefix(s, p) == s\<close> of the program decides whether \<open>s\<close> lacks the prefix.\<close>

lemma TrimPrefix_same: "p \<noteq> [] \<Longrightarrow> TrimPrefix s p = s \<longleftrightarrow> \<not> HasPrefix s p"
  by (auto simp: TrimPrefix_def HasPrefix_append)

lemma TrimPrefix_inj:
  "HasPrefix s p \<Longrightarrow> HasPrefix t p \<Longrightarrow> TrimPrefix s p = TrimPrefix t p \<Longrightarrow> s = t"
  by (auto simp: HasPrefix_append)

lemma split_from_nonempty: "split_from sep acc s \<noteq> []"
  by (induction sep acc s rule: split_from.induct) auto

lemma Split_Nil [simp]: "Split [] sep = [[]]"
  by (simp add: Split_def)

lemma Split_nonempty [simp]: "Split s sep \<noteq> []"
  by (simp add: Split_def split_from_nonempty)

lemma Join_Cons: "xs \<noteq> [] \<Longrightarrow> Join (x # xs) sep = x @ sep @ Join xs sep"
  by (cases xs) auto

lemma Join_split_from: "Join (split_from sep acc s) sep = rev acc @ s"
proof (induction sep acc s rule: split_from.induct)
  case (1 sep acc)
  show ?case by simp
next
  case (2 sep acc c cs)
  show ?case
  proof (cases "sep \<noteq> [] \<and> HasPrefix (c # cs) sep")
    case True
    then obtain t where t: "c # cs = sep @ t" by (auto simp: HasPrefix_append)
    then have d: "drop (length sep) (c # cs) = t" by simp
    from True have "split_from sep acc (c # cs) = rev acc # split_from sep [] t"
      by (simp only: split_from.simps d if_True simp_thms)
    then show ?thesis
      using "2.IH"(1) [OF True] by (simp only: d t Join_Cons [OF split_from_nonempty]) simp
  next
    case False
    with "2.IH"(2) show ?thesis by auto
  qed
qed

lemma Join_Split: "Join (Split s sep) sep = s"
  by (simp add: Split_def Join_split_from)

text \<open>A string without the first character of the separator is not split.\<close>

lemma split_from_clean:
  assumes "a \<notin> set s"
  shows "split_from (a # p) acc s = [rev acc @ s]"
  using assms by (induction s arbitrary: acc) (auto simp: HasPrefix_def)

lemma split_from_cut:
  assumes "a \<notin> set s"
  shows "split_from (a # p) acc (s @ a # p @ t) = (rev acc @ s) # split_from (a # p) [] t"
  using assms by (induction s arbitrary: acc) (auto simp: HasPrefix_def)

lemma Split_clean: "a \<notin> set s \<Longrightarrow> Split s (a # p) = [s]"
  by (simp add: Split_def split_from_clean)

lemma Split_cut: "a \<notin> set s \<Longrightarrow> Split (s @ a # p @ t) (a # p) = s # Split t (a # p)"
  by (simp add: Split_def split_from_cut)

text \<open>A separator that does not occur, and one whose last character occurs in it only once.\<close>

lemma split_from_absent: "\<nexists>a b. s = a @ sep @ b \<Longrightarrow> split_from sep acc s = [rev acc @ s]"
proof (induction s arbitrary: acc)
  case (Cons c cs)
  have "\<not> HasPrefix (c # cs) sep"
    using Cons.prems by (metis HasPrefix_append append_Nil)
  moreover have "\<nexists>a b. cs = a @ sep @ b"
    using Cons.prems by (metis append_Cons)
  ultimately show ?case using Cons.IH by simp
qed simp

lemma Split_absent: "\<nexists>a b. s = a @ sep @ b \<Longrightarrow> Split s sep = [s]"
  by (simp add: Split_def split_from_absent)

lemma split_from_present:
  "sep \<noteq> [] \<Longrightarrow> 2 \<le> length (split_from sep acc (a @ sep @ b))"
proof (induction a arbitrary: acc)
  case Nil
  obtain c p where sep: "sep = c # p" using Nil by (cases sep) auto
  have "1 \<le> length (split_from sep [] b)" by (simp add: Suc_le_eq split_from_nonempty)
  moreover have "HasPrefix (c # p @ b) (c # p)" using HasPrefix_self [of "c # p" b] by simp
  ultimately show ?case by (simp add: sep)
next
  case (Cons x a)
  show ?case
  proof (cases "HasPrefix (x # a @ sep @ b) sep")
    case True
    have "1 \<le> length (split_from sep [] (drop (length sep) (x # a @ sep @ b)))"
      by (simp only: Suc_le_eq One_nat_def length_greater_0_conv split_from_nonempty not_False_eq_True)
    with True Cons.prems show ?thesis by simp
  next
    case False
    with Cons show ?thesis by simp
  qed
qed

lemma Split_two_iff: "sep \<noteq> [] \<Longrightarrow> length (Split s sep) < 2 \<longleftrightarrow> (\<nexists>a b. s = a @ sep @ b)"
proof
  assume "sep \<noteq> []" and "length (Split s sep) < 2"
  then show "\<nexists>a b. s = a @ sep @ b"
    using split_from_present [of sep "[]"] by (metis Split_def not_less)
qed (simp add: Split_absent)

lemma split_from_first:
  assumes "c \<notin> set pre" and "c \<notin> set p"
  shows "split_from (p @ [c]) acc (pre @ p @ c # t) = (rev acc @ pre) # split_from (p @ [c]) [] t"
  using assms(1)
proof (induction pre arbitrary: acc)
  case Nil
  have pre: "HasPrefix (p @ c # t) (p @ [c])" using HasPrefix_self [of "p @ [c]" t] by simp
  obtain x xs where x: "p @ c # t = x # xs" by (cases p) auto
  have "drop (length (p @ [c])) (x # xs) = t" by (simp flip: x)
  with pre show ?case by (simp only: x append_Nil) simp
next
  case (Cons x pre)
  have "\<not> HasPrefix (x # pre @ p @ c # t) (p @ [c])"
  proof
    assume "HasPrefix (x # pre @ p @ c # t) (p @ [c])"
    then obtain u where u: "x # pre @ p @ c # t = p @ c # u" by (auto simp: HasPrefix_append)
    have "takeWhile (\<lambda>y. y \<noteq> c) ((x # pre @ p) @ c # t) = x # pre @ p"
      by (subst takeWhile_append2) (use Cons.prems assms(2) in auto)
    moreover have "takeWhile (\<lambda>y. y \<noteq> c) (p @ c # u) = p"
      by (subst takeWhile_append2) (use assms(2) in auto)
    ultimately have "x # pre @ p = p" using u by simp
    then have "length (x # pre @ p) = length p" by simp
    then show False by simp
  qed
  with Cons show ?case by simp
qed

lemma Split_first:
  "c \<notin> set pre \<Longrightarrow> c \<notin> set p \<Longrightarrow> Split (pre @ p @ c # t) (p @ [c]) = pre # Split t (p @ [c])"
  by (simp add: Split_def split_from_first)

subsection \<open>Decimal numbers\<close>

definition is_digit :: "char \<Rightarrow> bool" where
  "is_digit c \<longleftrightarrow> 48 \<le> (of_char c :: nat) \<and> (of_char c :: nat) \<le> 57"

definition digit_val :: "char \<Rightarrow> nat" where
  "digit_val c = of_char c - 48"

definition digit_char :: "nat \<Rightarrow> char" where
  "digit_char d = char_of (48 + d)"

fun parse_digits :: "nat \<Rightarrow> string \<Rightarrow> nat option" where
  "parse_digits acc [] = Some acc"
| "parse_digits acc (c # cs) =
     (if is_digit c then parse_digits (10 * acc + digit_val c) cs else None)"

text \<open>
  An optional sign, at least one digit, nothing else, and a value that fits in 64 bits.
  \<open>None\<close> is an error return (\<open>ErrSyntax\<close> or \<open>ErrRange\<close>); no caller looks at the number then.
\<close>

definition parse_magnitude :: "bool \<Rightarrow> string \<Rightarrow> int option" where
  "parse_magnitude neg ds =
     (if ds = [] then None
      else case parse_digits 0 ds of
        None \<Rightarrow> None
      | Some n \<Rightarrow>
          if neg then (if n \<le> 2 ^ 63 then Some (- int n) else None)
          else (if n < 2 ^ 63 then Some (int n) else None))"

fun ParseInt :: "string \<Rightarrow> int option" where
  "ParseInt [] = None"
| "ParseInt (c # cs) =
     (if c = CHR ''-'' then parse_magnitude True cs
      else if c = CHR ''+'' then parse_magnitude False cs
      else parse_magnitude False (c # cs))"

abbreviation Atoi :: "string \<Rightarrow> int option" where
  "Atoi \<equiv> ParseInt"

fun format_nat :: "nat \<Rightarrow> string" where
  "format_nat n =
     (if n < 10 then [digit_char n] else format_nat (n div 10) @ [digit_char (n mod 10)])"

declare format_nat.simps [simp del]

definition FormatInt :: "int \<Rightarrow> string" where
  "FormatInt i = (if i < 0 then CHR ''-'' # format_nat (nat (- i)) else format_nat (nat i))"

lemma of_char_digit_char: "d < 10 \<Longrightarrow> of_char (digit_char d) = 48 + d"
  by (simp add: digit_char_def)

lemma digit_char [simp]: "d < 10 \<Longrightarrow> is_digit (digit_char d)" "d < 10 \<Longrightarrow> digit_val (digit_char d) = d"
  by (simp_all add: is_digit_def digit_val_def of_char_digit_char)

lemma is_digit_not_sign: "is_digit c \<Longrightarrow> c \<noteq> CHR ''-'' \<and> c \<noteq> CHR ''+'' \<and> c \<noteq> CHR '':''"
  by (auto simp: is_digit_def)

lemma parse_digits_append:
  "parse_digits acc (xs @ ys) =
     (case parse_digits acc xs of None \<Rightarrow> None | Some n \<Rightarrow> parse_digits n ys)"
  by (induction xs arbitrary: acc) auto

lemma format_nat_nonempty [simp]: "format_nat n \<noteq> []"
  by (subst format_nat.simps) simp

lemma format_nat_digits: "c \<in> set (format_nat n) \<Longrightarrow> is_digit c"
proof (induction n rule: format_nat.induct)
  case (1 n)
  then show ?case by (cases "n < 10") (auto simp: format_nat.simps [of n])
qed

lemma parse_format_nat: "parse_digits 0 (format_nat n) = Some n"
proof (induction n rule: format_nat.induct)
  case (1 n)
  then show ?case
    by (cases "n < 10") (auto simp: format_nat.simps [of n] parse_digits_append)
qed

lemma format_nat_inj: "format_nat m = format_nat n \<Longrightarrow> m = n"
  by (metis option.inject parse_format_nat)

lemma ParseInt_digits:
  assumes "s \<noteq> []" and "\<And>c. c \<in> set s \<Longrightarrow> is_digit c"
  shows "ParseInt s = parse_magnitude False s"
  using assms by (cases s) (auto dest: is_digit_not_sign)

lemma ParseInt_FormatInt:
  assumes "- (2 ^ 63) \<le> i" and "i < 2 ^ 63"
  shows "ParseInt (FormatInt i) = Some i"
proof (cases "i < 0")
  case True
  moreover have "nat (- i) \<le> 2 ^ 63" using assms(1) by simp
  ultimately show ?thesis
    by (simp add: FormatInt_def parse_magnitude_def parse_format_nat)
next
  case False
  moreover have "nat i < 2 ^ 63" using assms(2) False by simp
  ultimately show ?thesis
    using ParseInt_digits [OF format_nat_nonempty format_nat_digits, of "nat i"]
    by (simp add: FormatInt_def parse_magnitude_def parse_format_nat)
qed

lemma format_nat_not_minus: "format_nat n \<noteq> CHR ''-'' # s"
  by (metis format_nat_digits is_digit_not_sign list.set_intros(1))

lemma FormatInt_inj: "FormatInt i = FormatInt j \<Longrightarrow> i = j"
  using format_nat_not_minus [symmetric]
  by (auto simp: FormatInt_def format_nat_not_minus dest!: format_nat_inj split: if_splits)

lemma FormatInt_nonempty [simp]: "FormatInt i \<noteq> []"
  by (simp add: FormatInt_def)

lemma ParseInt_range: "ParseInt s = Some i \<Longrightarrow> - (2 ^ 63) \<le> i \<and> i < 2 ^ 63"
  by (cases s) (auto simp: parse_magnitude_def split: if_splits option.splits)

subsection \<open>hex.EncodeToString\<close>

definition hex_char :: "byte \<Rightarrow> char" where
  "hex_char d = (if d < 10 then char_of (48 + unat d) else char_of (87 + unat d))"

definition EncodeToString :: "bytes \<Rightarrow> string" where
  "EncodeToString bs = concat (map (\<lambda>b. [hex_char (drop_bit 4 b), hex_char (take_bit 4 b)]) bs)"

end
