(* ===== verification/Server.thy ===== *)
theory Server
  imports Cache GoStrings
begin

text \<open>
  \<open>pkg/server/server.go\<close>: the streaming xDS server. The server only sees the cache
  through the interface \<open>cache.Cache\<close>, so the functions here take \<open>CreateWatch\<close>,
  the call of a cancel function and \<open>Fetch\<close> as arguments and are polymorphic in the
  cache's state \<open>'c\<close>, its cancel functions \<open>'k\<close> and the environment's choices at a call
  \<open>'e\<close> (clock and map orders for the snapshot cache).

  \<open>process\<close> is a loop around a \<open>select\<close>; its local variables are the record
  \<open>stream\<close>. One turn of the loop is \<open>on_response\<close> (a case that receives from one of
  the five watch channels) or the two halves of the request case: \<open>begin_request\<close> up to
  the call of the old cancel function and \<open>create_request\<close>, the call of
  \<open>CreateWatch\<close>. The cache mutex is free between the two, so other goroutines may run
  there. \<open>finish\<close> is the deferred function that runs when \<open>process\<close> returns. Responses
  given to \<open>stream.Send\<close>, requests read from \<open>reqCh\<close> and calls of the callbacks are recorded
  in the stream.
\<close>

subsection \<open>Resource types and the watches of a stream\<close>

datatype xtype = TEndpoint | TCluster | TRoute | TListener | TSecret

definition xtypes :: "xtype list" where
  "xtypes = [TEndpoint, TCluster, TRoute, TListener, TSecret]"

fun type_url :: "xtype \<Rightarrow> string" where
  "type_url TEndpoint = EndpointType"
| "type_url TCluster = ClusterType"
| "type_url TRoute = RouteType"
| "type_url TListener = ListenerType"
| "type_url TSecret = SecretType"

fun watch_name :: "xtype \<Rightarrow> string" where
  "watch_name TEndpoint = ''endpoints''"
| "watch_name TCluster = ''clusters''"
| "watch_name TRoute = ''routes''"
| "watch_name TListener = ''listeners''"
| "watch_name TSecret = ''secrets''"

record 'k watches =
  endpoints :: "chan_id option"
  clusters :: "chan_id option"
  routes :: "chan_id option"
  listeners :: "chan_id option"
  secrets :: "chan_id option"
  endpointCancel :: "'k option"
  clusterCancel :: "'k option"
  routeCancel :: "'k option"
  listenerCancel :: "'k option"
  secretCancel :: "'k option"
  endpointNonce :: string
  clusterNonce :: string
  routeNonce :: string
  listenerNonce :: string
  secretNonce :: string

definition zero_watches :: "'k watches" where
  "zero_watches = \<lparr>endpoints = None, clusters = None, routes = None, listeners = None, secrets = None,
     endpointCancel = None, clusterCancel = None, routeCancel = None, listenerCancel = None,
     secretCancel = None, endpointNonce = [], clusterNonce = [], routeNonce = [],
     listenerNonce = [], secretNonce = []\<rparr>"

text \<open>The three fields of one resource type.\<close>

fun get_chan :: "xtype \<Rightarrow> 'k watches \<Rightarrow> chan_id option" where
  "get_chan TEndpoint v = endpoints v"
| "get_chan TCluster v = clusters v"
| "get_chan TRoute v = routes v"
| "get_chan TListener v = listeners v"
| "get_chan TSecret v = secrets v"

fun get_cancel :: "xtype \<Rightarrow> 'k watches \<Rightarrow> 'k option" where
  "get_cancel TEndpoint v = endpointCancel v"
| "get_cancel TCluster v = clusterCancel v"
| "get_cancel TRoute v = routeCancel v"
| "get_cancel TListener v = listenerCancel v"
| "get_cancel TSecret v = secretCancel v"

fun get_nonce :: "xtype \<Rightarrow> 'k watches \<Rightarrow> string" where
  "get_nonce TEndpoint v = endpointNonce v"
| "get_nonce TCluster v = clusterNonce v"
| "get_nonce TRoute v = routeNonce v"
| "get_nonce TListener v = listenerNonce v"
| "get_nonce TSecret v = secretNonce v"

fun set_watch :: "xtype \<Rightarrow> chan_id \<Rightarrow> 'k option \<Rightarrow> 'k watches \<Rightarrow> 'k watches" where
  "set_watch TEndpoint ch k v = v\<lparr>endpoints := Some ch, endpointCancel := k\<rparr>"
| "set_watch TCluster ch k v = v\<lparr>clusters := Some ch, clusterCancel := k\<rparr>"
| "set_watch TRoute ch k v = v\<lparr>routes := Some ch, routeCancel := k\<rparr>"
| "set_watch TListener ch k v = v\<lparr>listeners := Some ch, listenerCancel := k\<rparr>"
| "set_watch TSecret ch k v = v\<lparr>secrets := Some ch, secretCancel := k\<rparr>"

fun set_nonce :: "xtype \<Rightarrow> string \<Rightarrow> 'k watches \<Rightarrow> 'k watches" where
  "set_nonce TEndpoint n v = v\<lparr>endpointNonce := n\<rparr>"
| "set_nonce TCluster n v = v\<lparr>clusterNonce := n\<rparr>"
| "set_nonce TRoute n v = v\<lparr>routeNonce := n\<rparr>"
| "set_nonce TListener n v = v\<lparr>listenerNonce := n\<rparr>"
| "set_nonce TSecret n v = v\<lparr>secretNonce := n\<rparr>"

text \<open>\<open>func (values watches) Cancel()\<close>.\<close>

definition call_cancel :: "('k \<Rightarrow> 'c \<Rightarrow> 'c) \<Rightarrow> 'k option \<Rightarrow> 'c \<Rightarrow> 'c" where
  "call_cancel cancel k c = (case k of None \<Rightarrow> c | Some f \<Rightarrow> cancel f c)"

definition Cancel :: "('k \<Rightarrow> 'c \<Rightarrow> 'c) \<Rightarrow> 'k watches \<Rightarrow> 'c \<Rightarrow> 'c" where
  "Cancel cancel values c =
     call_cancel cancel (secretCancel values)
       (call_cancel cancel (listenerCancel values)
         (call_cancel cancel (routeCancel values)
           (call_cancel cancel (clusterCancel values)
             (call_cancel cancel (endpointCancel values) c))))"

subsection \<open>Callbacks and responses\<close>

text \<open>
  The callbacks object is supplied by the caller of \<open>NewServer\<close> and may be nil. Its
  methods decide by their error result; a call is recorded as a \<open>callback\<close>.
\<close>

record callbacks =
  OnStreamOpen :: "int64 \<Rightarrow> string \<Rightarrow> go_error option"
  OnStreamRequest :: "int64 \<Rightarrow> discovery_request \<Rightarrow> go_error option"
  OnFetchRequest :: "discovery_request \<Rightarrow> go_error option"

datatype callback =
    StreamOpen int64 string
  | StreamClosed int64
  | StreamRequest int64 discovery_request
  | StreamResponse int64 discovery_request discovery_response
  | FetchRequest discovery_request
  | FetchResponse discovery_request "discovery_response option"

record server =
  srv_callbacks :: "callbacks option"
  srv_streamCount :: int64

definition NewServer :: "callbacks option \<Rightarrow> server" where
  "NewServer cb = \<lparr>srv_callbacks = cb, srv_streamCount = 0\<rparr>"

fun marshal_all :: "protobuf \<Rightarrow> string \<Rightarrow> resource list \<Rightarrow> go_error + any list" where
  "marshal_all pb typeURL [] = Inr []"
| "marshal_all pb typeURL (r # rs) =
     (case pb_Marshal pb r of
        Inl err \<Rightarrow> Inl err
      | Inr data \<Rightarrow>
          (case marshal_all pb typeURL rs of
             Inl err \<Rightarrow> Inl err
           | Inr as \<Rightarrow> Inr (\<lparr>any_TypeUrl = typeURL, any_Value = data\<rparr> # as)))"

definition server_createResponse ::
    "protobuf \<Rightarrow> cache_response option \<Rightarrow> string \<Rightarrow> go_error + discovery_response" where
  "server_createResponse pb resp typeURL =
     (case resp of
        None \<Rightarrow> Inl MissingResponse
      | Some r \<Rightarrow>
          (case marshal_all pb typeURL (rsp_Resources r) of
             Inl err \<Rightarrow> Inl err
           | Inr resources \<Rightarrow>
               Inr \<lparr>dr_VersionInfo = rsp_Version r, dr_Resources = resources,
                    dr_TypeUrl = typeURL, dr_Nonce = []\<rparr>))"

subsection \<open>The stream loop\<close>

record 'k stream =
  st_id :: int64
  st_type :: string
  st_nonce :: int64
  st_values :: "'k watches"
  st_pending :: "(xtype \<times> discovery_request) option"
  st_received :: "discovery_request list"
  st_sent :: "discovery_response list"
  st_log :: "callback list"
  st_result :: "go_error option option"

abbreviation running :: "'k stream \<Rightarrow> bool" where
  "running st \<equiv> st_result st = None"

definition log_call :: "callbacks option \<Rightarrow> callback \<Rightarrow> 'k stream \<Rightarrow> 'k stream" where
  "log_call cbs cb st = (case cbs of None \<Rightarrow> st | Some _ \<Rightarrow> st\<lparr>st_log := st_log st @ [cb]\<rparr>)"

text \<open>\<open>process\<close> returns \<open>res\<close>: the deferred function cancels the watches and reports the end.\<close>

definition finish ::
    "callbacks option \<Rightarrow> ('k \<Rightarrow> 'c \<Rightarrow> 'c) \<Rightarrow> go_error option \<Rightarrow> 'c \<times> 'k stream \<Rightarrow> 'c \<times> 'k stream" where
  "finish cbs cancel res = (\<lambda>(c, st).
     (Cancel cancel (st_values st) c,
      (log_call cbs (StreamClosed (st_id st)) st)\<lparr>st_result := Some res\<rparr>))"

text \<open>The start of \<open>process\<close>, up to the loop.\<close>

definition process_start ::
    "('k \<Rightarrow> 'c \<Rightarrow> 'c) \<Rightarrow> string \<Rightarrow> server \<times> 'c \<Rightarrow> server \<times> 'c \<times> 'k stream" where
  "process_start cancel defaultTypeURL = (\<lambda>(s, c).
     let streamID = srv_streamCount s + 1;
         s' = s\<lparr>srv_streamCount := streamID\<rparr>;
         st = \<lparr>st_id = streamID, st_type = defaultTypeURL, st_nonce = 0, st_values = zero_watches,
               st_pending = None, st_received = [], st_sent = [], st_log = [], st_result = None\<rparr>
     in case srv_callbacks s of
          None \<Rightarrow> (s', c, st)
        | Some cb \<Rightarrow>
            let st' = log_call (Some cb) (StreamOpen streamID defaultTypeURL) st in
            (case OnStreamOpen cb streamID defaultTypeURL of
               None \<Rightarrow> (s', c, st')
             | Some err \<Rightarrow> (s', finish (Some cb) cancel (Some err) (c, st'))))"

text \<open>
  The closure \<open>send\<close>: the nonce is only incremented once the response is built.
  \<open>res\<close> is the error that \<open>stream.Send\<close> returns.
\<close>

definition send_response ::
    "protobuf \<Rightarrow> callbacks option \<Rightarrow> go_error option \<Rightarrow> cache_response \<Rightarrow> string \<Rightarrow> 'k stream
     \<Rightarrow> (go_error + string) \<times> 'k stream" where
  "send_response pb cbs res resp typeURL st =
     (case server_createResponse pb (Some resp) typeURL of
        Inl err \<Rightarrow> (Inl err, st)
      | Inr out0 \<Rightarrow>
          let nonce = st_nonce st + 1;
              out = out0\<lparr>dr_Nonce := FormatInt (sint nonce)\<rparr>;
              st1 = log_call cbs (StreamResponse (st_id st) (rsp_Request resp) out) (st\<lparr>st_nonce := nonce\<rparr>);
              st2 = st1\<lparr>st_sent := st_sent st1 @ [out]\<rparr>
          in (case res of Some err \<Rightarrow> Inl err | None \<Rightarrow> Inr (dr_Nonce out), st2))"

text \<open>The case \<open>resp, more := <-values.t\<close>; \<open>None\<close> when it is not ready.\<close>

definition on_response ::
    "protobuf \<Rightarrow> callbacks option \<Rightarrow> ('k \<Rightarrow> 'c \<Rightarrow> 'c) \<Rightarrow> xtype \<Rightarrow> go_error option
     \<Rightarrow> rheap \<times> 'c \<times> 'k stream \<Rightarrow> (rheap \<times> 'c \<times> 'k stream) option" where
  "on_response pb cbs cancel t res = (\<lambda>(h, c, st).
     case get_chan t (st_values st) of
       None \<Rightarrow> None
     | Some ch \<Rightarrow>
         (case recv ch h of
            (NotReady, h') \<Rightarrow> None
          | (Closed, h') \<Rightarrow>
              Some (h', finish cbs cancel (Some (Status Unavailable (watch_name t @ '' watch failed''))) (c, st))
          | (Received resp, h') \<Rightarrow>
              (case send_response pb cbs res resp (type_url t) st of
                 (Inl err, st') \<Rightarrow> Some (h', finish cbs cancel (Some err) (c, st'))
               | (Inr nonce, st') \<Rightarrow>
                   Some (h', c, st'\<lparr>st_values := set_nonce t nonce (st_values st')\<rparr>))))"

text \<open>The switch over the type and the nonce: which watch the request renews.\<close>

definition select_watch :: "discovery_request \<Rightarrow> 'k watches \<Rightarrow> xtype option" where
  "select_watch req values =
     find (\<lambda>t. req_TypeUrl req = type_url t \<and>
               (get_nonce t values = [] \<or> get_nonce t values = req_ResponseNonce req)) xtypes"

text \<open>
  The case \<open>req, more := <-reqCh\<close> up to the call of the old cancel function. The argument
  is \<open>None\<close> for a closed channel, \<open>Some None\<close> for a nil request.
\<close>

definition note_request :: "callbacks option \<Rightarrow> discovery_request \<Rightarrow> 'k stream \<Rightarrow> 'k stream" where
  "note_request cbs req st =
     log_call cbs (StreamRequest (st_id st) req) (st\<lparr>st_received := st_received st @ [req]\<rparr>)"

definition begin_request ::
    "callbacks option \<Rightarrow> ('k \<Rightarrow> 'c \<Rightarrow> 'c) \<Rightarrow> discovery_request option option
     \<Rightarrow> 'c \<times> 'k stream \<Rightarrow> 'c \<times> 'k stream" where
  "begin_request cbs cancel incoming = (\<lambda>(c, st).
     case incoming of
       None \<Rightarrow> finish cbs cancel None (c, st)
     | Some None \<Rightarrow> finish cbs cancel (Some (Status Unavailable ''empty request'')) (c, st)
     | Some (Some req0) \<Rightarrow>
         if st_type st = AnyType \<and> req_TypeUrl req0 = []
         then finish cbs cancel (Some (Status InvalidArgument ''type URL is required for ADS'')) (c, st)
         else
           let req = (if req_TypeUrl req0 = [] then req0\<lparr>req_TypeUrl := st_type st\<rparr> else req0);
               st1 = note_request cbs req st
           in case (case cbs of None \<Rightarrow> None | Some cb \<Rightarrow> OnStreamRequest cb (st_id st) req) of
                Some err \<Rightarrow> finish cbs cancel (Some err) (c, st1)
              | None \<Rightarrow>
                  (case select_watch req (st_values st1) of
                     None \<Rightarrow> (c, st1)
                   | Some t \<Rightarrow>
                       (call_cancel cancel (get_cancel t (st_values st1)) c,
                        st1\<lparr>st_pending := Some (t, req)\<rparr>)))"

text \<open>\<open>values.t, values.tCancel = s.cache.CreateWatch(*req)\<close>.\<close>

definition create_request ::
    "('e \<Rightarrow> discovery_request \<Rightarrow> rheap \<times> 'c \<Rightarrow> ((rheap \<times> 'c) \<times> chan_id \<times> 'k option) go)
     \<Rightarrow> 'e \<Rightarrow> rheap \<times> 'c \<times> 'k stream \<Rightarrow> (rheap \<times> 'c \<times> 'k stream) go" where
  "create_request createWatch e = (\<lambda>(h, c, st).
     case st_pending st of
       None \<Rightarrow> Inr (h, c, st)
     | Some (t, req) \<Rightarrow>
         go_bind (createWatch e req (h, c)) (\<lambda>((h', c'), ch, k).
           Inr (h', c', st\<lparr>st_values := set_watch t ch k (st_values st), st_pending := None\<rparr>)))"

text \<open>A whole turn of the loop that takes the request case, without another goroutine in between.\<close>

definition on_request ::
    "callbacks option
     \<Rightarrow> ('e \<Rightarrow> discovery_request \<Rightarrow> rheap \<times> 'c \<Rightarrow> ((rheap \<times> 'c) \<times> chan_id \<times> 'k option) go)
     \<Rightarrow> ('k \<Rightarrow> 'c \<Rightarrow> 'c) \<Rightarrow> 'e \<Rightarrow> discovery_request option option
     \<Rightarrow> rheap \<times> 'c \<times> 'k stream \<Rightarrow> (rheap \<times> 'c \<times> 'k stream) go" where
  "on_request cbs createWatch cancel e incoming = (\<lambda>(h, c, st).
     create_request createWatch e (h, begin_request cbs cancel incoming (c, st)))"

text \<open>
  \<open>process\<close> on a sequence of ready cases: the loop runs while the stream has no result.
  \<open>None\<close> when a case in the sequence is not ready.
\<close>

datatype 'e event =
    Response xtype "go_error option"
  | Request "discovery_request option option" 'e

fun process ::
    "protobuf \<Rightarrow> callbacks option
     \<Rightarrow> ('e \<Rightarrow> discovery_request \<Rightarrow> rheap \<times> 'c \<Rightarrow> ((rheap \<times> 'c) \<times> chan_id \<times> 'k option) go)
     \<Rightarrow> ('k \<Rightarrow> 'c \<Rightarrow> 'c) \<Rightarrow> 'e event list
     \<Rightarrow> rheap \<times> 'c \<times> 'k stream \<Rightarrow> (rheap \<times> 'c \<times> 'k stream) go option" where
  "process pb cbs createWatch cancel [] (h, c, st) = Some (Inr (h, c, st))"
| "process pb cbs createWatch cancel (ev # evs) (h, c, st) =
     (if \<not> running st then Some (Inr (h, c, st))
      else case ev of
        Response t res \<Rightarrow>
          (case on_response pb cbs cancel t res (h, c, st) of
             None \<Rightarrow> None
           | Some s \<Rightarrow> process pb cbs createWatch cancel evs s)
      | Request incoming e \<Rightarrow>
          (case on_request cbs createWatch cancel e incoming (h, c, st) of
             Inl stop \<Rightarrow> Some (Inl stop)
           | Inr s \<Rightarrow> process pb cbs createWatch cancel evs s))"

subsection \<open>The handlers\<close>

text \<open>
  The goroutine of \<open>handler\<close> turns the results of \<open>stream.Recv\<close> into the contents of
  \<open>reqCh\<close>: the first error closes the channel and ends the goroutine.
\<close>

fun recv_loop :: "(go_error + discovery_request option) list \<Rightarrow> discovery_request option option list" where
  "recv_loop [] = []"
| "recv_loop (Inl err # rs) = [None]"
| "recv_loop (Inr req # rs) = Some req # recv_loop rs"

datatype stream_method =
    StreamAggregatedResources | StreamEndpoints | StreamClusters | StreamRoutes
  | StreamListeners | StreamSecrets

fun stream_type :: "stream_method \<Rightarrow> string" where
  "stream_type StreamAggregatedResources = AnyType"
| "stream_type StreamEndpoints = EndpointType"
| "stream_type StreamClusters = ClusterType"
| "stream_type StreamRoutes = RouteType"
| "stream_type StreamListeners = ListenerType"
| "stream_type StreamSecrets = SecretType"

text \<open>The result, and the callbacks called.\<close>

definition server_Fetch ::
    "protobuf \<Rightarrow> callbacks option \<Rightarrow> (discovery_request \<Rightarrow> go_error + cache_response)
     \<Rightarrow> discovery_request \<Rightarrow> (discovery_response option \<times> go_error option) \<times> callback list" where
  "server_Fetch pb cbs fetch req =
     (let log1 = (case cbs of None \<Rightarrow> [] | Some _ \<Rightarrow> [FetchRequest req]) in
      case (case cbs of None \<Rightarrow> None | Some cb \<Rightarrow> OnFetchRequest cb req) of
        Some err \<Rightarrow> ((None, Some err), log1)
      | None \<Rightarrow>
          (case fetch req of
             Inl err \<Rightarrow> ((None, Some err), log1)
           | Inr resp \<Rightarrow>
               let r = server_createResponse pb (Some resp) (req_TypeUrl req);
                   out = (case r of Inl _ \<Rightarrow> None | Inr o' \<Rightarrow> Some o');
                   err = (case r of Inl e \<Rightarrow> Some e | Inr _ \<Rightarrow> None)
               in ((out, err), log1 @ (case cbs of None \<Rightarrow> [] | Some _ \<Rightarrow> [FetchResponse req out]))))"

text \<open>\<open>FetchEndpoints\<close>, \<open>FetchClusters\<close>, \<open>FetchRoutes\<close>, \<open>FetchListeners\<close>, \<open>FetchSecrets\<close>.\<close>

definition fetch_typed ::
    "protobuf \<Rightarrow> callbacks option \<Rightarrow> (discovery_request \<Rightarrow> go_error + cache_response)
     \<Rightarrow> xtype \<Rightarrow> discovery_request option
     \<Rightarrow> (discovery_response option \<times> go_error option) \<times> callback list" where
  "fetch_typed pb cbs fetch t req =
     (case req of
        None \<Rightarrow> ((None, Some (Status Unavailable ''empty request'')), [])
      | Some r \<Rightarrow> server_Fetch pb cbs fetch (r\<lparr>req_TypeUrl := type_url t\<rparr>))"

datatype incremental_method =
  IncrementalAggregatedResources | IncrementalClusters | IncrementalRoutes

fun incremental :: "incremental_method \<Rightarrow> go_error option" where
  "incremental IncrementalAggregatedResources = Some NotImplemented"
| "incremental IncrementalClusters = Some NotImplemented"
| "incremental IncrementalRoutes = Some NotImplemented"

end
