(* ===== verification/Streams.thy ===== *)
theory Streams
  imports Server
begin

text \<open>
  The stream loop of \<open>Server\<close> proved correct over any cache that is a \<open>config_watcher\<close>: the
  nonces of a stream (\<open>nonces_ok\<close>), the outcomes of each half of a turn
  (\<open>on_response_outcome\<close>, \<open>begin_request_cases\<close>, \<open>create_request_cases\<close>), and the invariant of
  a stream's watches (\<open>stream_inv\<close>) with what a turn does to the cache (\<open>turn_ok\<close>).
\<close>

subsection \<open>Fields of the watches\<close>

lemma type_url_inj [simp]: "type_url t = type_url u \<longleftrightarrow> t = u"
  by (cases t; cases u) simp_all

lemma type_url_nonempty [simp]: "type_url t \<noteq> []"
  by (cases t) simp_all

lemma xtypes_all [simp]: "t \<in> set xtypes"
  by (cases t) (simp_all add: xtypes_def)

lemma get_set_watch [simp]:
  "get_chan t (set_watch u ch k v) = (if t = u then Some ch else get_chan t v)"
  "get_cancel t (set_watch u ch k v) = (if t = u then k else get_cancel t v)"
  "get_nonce t (set_watch u ch k v) = get_nonce t v"
  by (cases t; cases u; simp)+

lemma get_set_nonce [simp]:
  "get_chan t (set_nonce u n v) = get_chan t v"
  "get_cancel t (set_nonce u n v) = get_cancel t v"
  "get_nonce t (set_nonce u n v) = (if t = u then n else get_nonce t v)"
  by (cases t; cases u; simp)+

lemma get_zero_watches [simp]:
  "get_chan t zero_watches = None" "get_cancel t zero_watches = None" "get_nonce t zero_watches = []"
  by (cases t; simp add: zero_watches_def)+

lemma log_call_fields [simp]:
  "st_id (log_call cbs cb st) = st_id st" "st_type (log_call cbs cb st) = st_type st"
  "st_nonce (log_call cbs cb st) = st_nonce st" "st_values (log_call cbs cb st) = st_values st"
  "st_pending (log_call cbs cb st) = st_pending st" "st_sent (log_call cbs cb st) = st_sent st"
  "st_received (log_call cbs cb st) = st_received st" "st_result (log_call cbs cb st) = st_result st"
  by (simp_all add: log_call_def split: option.split)

lemma note_request_fields [simp]:
  "st_id (note_request cbs req st) = st_id st" "st_type (note_request cbs req st) = st_type st"
  "st_nonce (note_request cbs req st) = st_nonce st" "st_values (note_request cbs req st) = st_values st"
  "st_pending (note_request cbs req st) = st_pending st" "st_sent (note_request cbs req st) = st_sent st"
  "st_received (note_request cbs req st) = st_received st @ [req]"
  "st_result (note_request cbs req st) = st_result st"
  by (simp_all add: note_request_def)

lemma finish_fields [simp]:
  "st_id (snd (finish cbs cancel res cst)) = st_id (snd cst)"
  "st_type (snd (finish cbs cancel res cst)) = st_type (snd cst)"
  "st_nonce (snd (finish cbs cancel res cst)) = st_nonce (snd cst)"
  "st_values (snd (finish cbs cancel res cst)) = st_values (snd cst)"
  "st_pending (snd (finish cbs cancel res cst)) = st_pending (snd cst)"
  "st_sent (snd (finish cbs cancel res cst)) = st_sent (snd cst)"
  "st_received (snd (finish cbs cancel res cst)) = st_received (snd cst)"
  "st_result (snd (finish cbs cancel res cst)) = Some res"
  by (simp_all add: finish_def case_prod_beta)

lemma fst_finish: "fst (finish cbs cancel res cst) = Cancel cancel (st_values (snd cst)) (fst cst)"
  by (simp add: finish_def case_prod_beta)

text \<open>A request renews the watch of its type exactly when its nonce is current.\<close>

lemma select_watch_Some:
  "select_watch req v = Some t \<longleftrightarrow>
   req_TypeUrl req = type_url t \<and> (get_nonce t v = [] \<or> get_nonce t v = req_ResponseNonce req)"
proof
  assume "select_watch req v = Some t"
  then show "req_TypeUrl req = type_url t \<and> (get_nonce t v = [] \<or> get_nonce t v = req_ResponseNonce req)"
    by (auto simp: select_watch_def dest: find_SomeD)
next
  assume *: "req_TypeUrl req = type_url t \<and> (get_nonce t v = [] \<or> get_nonce t v = req_ResponseNonce req)"
  then have "select_watch req v \<noteq> None"
    by (auto simp: select_watch_def find_None_ball intro!: bexI [of _ t])
  then obtain u where u: "select_watch req v = Some u" by blast
  then have "req_TypeUrl req = type_url u"
    by (auto simp: select_watch_def dest: find_SomeD)
  with * u show "select_watch req v = Some t" by simp
qed

lemma select_watch_None:
  "select_watch req v = None \<longleftrightarrow>
   (\<forall>t. req_TypeUrl req = type_url t \<longrightarrow> get_nonce t v \<noteq> [] \<and> get_nonce t v \<noteq> req_ResponseNonce req)"
  using select_watch_Some [of req v] by (metis not_Some_eq)

subsection \<open>Responses and nonces\<close>

lemma marshal_all_Inr:
  "marshal_all pb u rs = Inr as \<Longrightarrow>
   list_all2 (\<lambda>r a. \<exists>d. pb_Marshal pb r = Inr d \<and> a = \<lparr>any_TypeUrl = u, any_Value = d\<rparr>) rs as"
  by (induction rs arbitrary: as) (auto simp: list_all2_Cons1 split: sum.splits)

lemma marshal_all_Inl: "marshal_all pb u rs = Inl e \<Longrightarrow> \<exists>r \<in> set rs. pb_Marshal pb r = Inl e"
  by (induction rs) (auto split: sum.splits)

text \<open>What a response on the wire says about the answer of the cache it was built from.\<close>

definition encodes :: "protobuf \<Rightarrow> string \<Rightarrow> cache_response \<Rightarrow> discovery_response \<Rightarrow> bool" where
  "encodes pb u resp out \<longleftrightarrow> dr_VersionInfo out = rsp_Version resp \<and> dr_TypeUrl out = u \<and>
     marshal_all pb u (rsp_Resources resp) = Inr (dr_Resources out)"

lemma server_createResponse_Inr:
  "server_createResponse pb (Some resp) u = Inr out \<Longrightarrow> encodes pb u resp out"
  by (auto simp: server_createResponse_def encodes_def split: sum.splits)

lemma send_response_cases:
  assumes "send_response pb cbs res resp u st = (r, st')"
  obtains (build) e where "server_createResponse pb (Some resp) u = Inl e" "r = Inl e" "st' = st"
  | (sent) out where "encodes pb u resp out" "dr_Nonce out = FormatInt (sint (st_nonce st + 1))"
      "r = (case res of Some e \<Rightarrow> Inl e | None \<Rightarrow> Inr (dr_Nonce out))"
      "st_sent st' = st_sent st @ [out]" "st_nonce st' = st_nonce st + 1"
      "st_values st' = st_values st" "st_pending st' = st_pending st" "st_result st' = st_result st"
      "st_id st' = st_id st" "st_type st' = st_type st" "st_received st' = st_received st"
  using assms server_createResponse_Inr
  by (fastforce simp: send_response_def Let_def encodes_def split: sum.splits)

definition latest_nonce :: "xtype \<Rightarrow> discovery_response list \<Rightarrow> string" where
  "latest_nonce t sent =
     (case filter (\<lambda>o'. dr_TypeUrl o' = type_url t) sent of [] \<Rightarrow> [] | os \<Rightarrow> dr_Nonce (last os))"

lemma latest_nonce_Nil [simp]: "latest_nonce t [] = []"
  by (simp add: latest_nonce_def)

lemma latest_nonce_snoc [simp]:
  "latest_nonce t (sent @ [out]) = (if dr_TypeUrl out = type_url t then dr_Nonce out else latest_nonce t sent)"
  by (cases "filter (\<lambda>o'. dr_TypeUrl o' = type_url t) sent") (simp_all add: latest_nonce_def)

text \<open>
  The nonce discipline of a stream: the responses carry the nonces 1, 2, 3, \<open>...\<close> in the
  order they were sent, and while the stream runs each watch remembers the nonce of the
  last response of its type.
\<close>

definition nonces_ok :: "'k stream \<Rightarrow> bool" where
  "nonces_ok st \<longleftrightarrow>
     st_nonce st = of_nat (length (st_sent st)) \<and>
     map dr_Nonce (st_sent st) =
       map (\<lambda>i. FormatInt (sint (of_nat (Suc i) :: int64))) [0..<length (st_sent st)] \<and>
     (running st \<longrightarrow> (\<forall>t. get_nonce t (st_values st) = latest_nonce t (st_sent st)))"

lemma nonces_decimal:
  assumes "nonces_ok st" and "length (st_sent st) < 2 ^ 63"
  shows "map dr_Nonce (st_sent st) = map (\<lambda>k. FormatInt (int k)) [1..<length (st_sent st) + 1]"
proof -
  have "sint (of_nat (Suc k) :: int64) = int (Suc k)" if "k < length (st_sent st)" for k
    using that assms(2) by (simp del: of_nat_Suc add: signed_of_nat signed_take_bit_int_eq_self)
  then have "map (\<lambda>k. FormatInt (sint (of_nat (Suc k) :: int64))) [0..<length (st_sent st)] =
      map (\<lambda>k. FormatInt (int k)) (map Suc [0..<length (st_sent st)])"
    by (simp del: of_nat_Suc)
  then show ?thesis
    using assms(1) by (simp add: nonces_ok_def map_Suc_upt)
qed

lemma nonces_ok_same:
  "nonces_ok st \<Longrightarrow> st_nonce st' = st_nonce st \<Longrightarrow> st_sent st' = st_sent st \<Longrightarrow>
   (running st' \<Longrightarrow> running st \<and> (\<forall>t. get_nonce t (st_values st') = get_nonce t (st_values st))) \<Longrightarrow>
   nonces_ok st'"
  by (simp add: nonces_ok_def)

lemma nonces_ok_finish: "nonces_ok (snd cst) \<Longrightarrow> nonces_ok (snd (finish cbs cancel res cst))"
  by (rule nonces_ok_same) simp_all

lemma nonces_ok_start: "nonces_ok (snd (snd (process_start cancel u sc)))"
  by (auto simp: process_start_def Let_def nonces_ok_def finish_def case_prod_beta log_call_def split: option.splits)

lemma nonces_ok_snoc:
  assumes "nonces_ok st" and "st_sent st' = st_sent st @ [out]" and "st_nonce st' = st_nonce st + 1"
    and "dr_Nonce out = FormatInt (sint (st_nonce st + 1))"
    and "running st' \<Longrightarrow> \<forall>t. get_nonce t (st_values st') = latest_nonce t (st_sent st')"
  shows "nonces_ok st'"
  using assms by (auto simp: nonces_ok_def add.commute)

lemma on_response_nonces:
  assumes ok: "nonces_ok st" and "running st"
    and step: "on_response pb cbs cancel t res (h, c, st) = Some (h', c', st')"
  shows "nonces_ok st'"
proof -
  obtain ch r where "get_chan t (st_values st) = Some ch" and r: "recv ch h = (r, h')"
    using step by (auto simp: on_response_def split: option.splits prod.splits received.splits sum.splits)
  with step consider (closed) "st' = snd (finish cbs cancel
        (Some (Status Unavailable (watch_name t @ '' watch failed''))) (c, st))"
    | (got) resp where "r = Received resp"
    by (cases r) (auto simp: on_response_def)
  then show ?thesis
  proof cases
    case closed
    then show ?thesis using nonces_ok_finish [of "(c, st)"] ok by simp
  next
    case (got resp)
    obtain q st1 where snd: "send_response pb cbs res resp (type_url t) st = (q, st1)"
      by (cases "send_response pb cbs res resp (type_url t) st")
    from step got r \<open>get_chan t (st_values st) = Some ch\<close> snd
    have res: "(c', st') = (case q of Inl err \<Rightarrow> finish cbs cancel (Some err) (c, st1)
        | Inr nonce \<Rightarrow> (c, st1\<lparr>st_values := set_nonce t nonce (st_values st1)\<rparr>))"
      by (auto simp: on_response_def split: sum.splits)
    from snd show ?thesis
    proof (cases rule: send_response_cases)
      case (build e)
      then show ?thesis using res nonces_ok_finish [of "(c, st1)"] ok by (metis old.sum.simps(5) snd_conv)
    next
      case (sent out)
      have "\<forall>u. get_nonce u (st_values st) = latest_nonce u (st_sent st)"
        using ok assms(2) by (simp add: nonces_ok_def)
      then show ?thesis
        using sent res assms(2)
        by (intro nonces_ok_snoc [OF ok, of st' out])
          (auto simp: encodes_def finish_def split: sum.splits option.splits)
    qed
  qed
qed

text \<open>A turn that receives an answer: the stream goes on, or \<open>process\<close> returns.\<close>

lemma on_response_outcome:
  assumes step: "on_response pb cbs cancel t res (h, c, st) = Some (h', c', st')"
  obtains ch r st1 where "get_chan t (st_values st) = Some ch" "recv ch h = (r, h')"
    "\<And>u. get_chan u (st_values st1) = get_chan u (st_values st)"
    "\<And>u. get_cancel u (st_values st1) = get_cancel u (st_values st)" "st_pending st1 = st_pending st"
    "set (st_received st) \<subseteq> set (st_received st1)" "running st \<Longrightarrow> running st1"
    "(c' = c \<and> st' = st1) \<or> (\<exists>e. finish cbs cancel e (c, st1) = (c', st'))"
proof -
  obtain ch r where ch: "get_chan t (st_values st) = Some ch" and r: "recv ch h = (r, h')"
    using step by (auto simp: on_response_def split: option.splits prod.splits received.splits sum.splits)
  note found = that [OF ch r]
  show thesis
  proof (cases r)
    case NotReady
    with step ch r show ?thesis by (simp add: on_response_def)
  next
    case Closed
    with step ch r show ?thesis by (intro found [of st]) (auto simp: on_response_def)
  next
    case (Received resp)
    obtain q st1 where snd: "send_response pb cbs res resp (type_url t) st = (q, st1)"
      by (cases "send_response pb cbs res resp (type_url t) st")
    have "st_values st1 = st_values st \<and> st_pending st1 = st_pending st \<and> st_result st1 = st_result st \<and>
        st_received st1 = st_received st"
      using snd by (rule send_response_cases) simp_all
    with step ch r Received snd found [of st1] found [of "st1\<lparr>st_values := set_nonce t (projr q) (st_values st1)\<rparr>"]
    show ?thesis by (cases q) (auto simp: on_response_def)
  qed
qed

text \<open>The outcomes of the first half of the request case.\<close>

definition effective_request :: "'k stream \<Rightarrow> discovery_request \<Rightarrow> discovery_request" where
  "effective_request st req = (if req_TypeUrl req = [] then req\<lparr>req_TypeUrl := st_type st\<rparr> else req)"

lemma begin_request_typed:
  assumes "\<not> (st_type st = AnyType \<and> req_TypeUrl req = [])"
  shows "begin_request cbs cancel (Some (Some req)) (c, st) =
    (let q = effective_request st req; st1 = note_request cbs q st in
     case (case cbs of None \<Rightarrow> None | Some cb \<Rightarrow> OnStreamRequest cb (st_id st) q) of
       Some err \<Rightarrow> finish cbs cancel (Some err) (c, st1)
     | None \<Rightarrow> (case select_watch q (st_values st) of
         None \<Rightarrow> (c, st1)
       | Some t \<Rightarrow> (call_cancel cancel (get_cancel t (st_values st)) c, st1\<lparr>st_pending := Some (t, q)\<rparr>)))"
  using assms
  by (simp only: begin_request_def prod.case option.case if_False Let_def effective_request_def note_request_fields)

lemma begin_request_cases:
  assumes "begin_request cbs cancel incoming (c, st) = (c', st')"
  obtains (finished) res st1 where "(c', st') = finish cbs cancel res (c, st1)"
      "st1 = st \<or> (\<exists>req. st1 = note_request cbs req st)"
  | (ignored) req where "incoming = Some (Some req)"
      "select_watch (effective_request st req) (st_values st) = None"
      "c' = c" "st' = note_request cbs (effective_request st req) st"
  | (renew) req t where "incoming = Some (Some req)"
      "select_watch (effective_request st req) (st_values st) = Some t"
      "c' = call_cancel cancel (get_cancel t (st_values st)) c"
      "st' = (note_request cbs (effective_request st req) st)\<lparr>st_pending := Some (t, effective_request st req)\<rparr>"
proof -
  consider "incoming = None" | "incoming = Some None"
    | req where "incoming = Some (Some req)" "st_type st = AnyType \<and> req_TypeUrl req = []"
    | req where "incoming = Some (Some req)" "\<not> (st_type st = AnyType \<and> req_TypeUrl req = [])"
    by (metis option.exhaust)
  then show thesis
  proof cases
    case 1
    with assms show thesis by (intro finished [of None st]) (simp_all add: begin_request_def)
  next
    case 2
    with assms show thesis
      by (intro finished [of "Some (Status Unavailable ''empty request'')" st]) (simp_all add: begin_request_def)
  next
    case (3 req)
    with assms show thesis
      by (intro finished [of "Some (Status InvalidArgument ''type URL is required for ADS'')" st])
        (simp_all add: begin_request_def)
  next
    case (4 req)
    show thesis
      using assms [unfolded 4(1) begin_request_typed [OF 4(2)], symmetric] finished ignored renew 4(1)
      by (auto simp: Let_def split: option.splits)
  qed
qed

lemma begin_request_nonces:
  assumes ok: "nonces_ok st" and "running st"
    and step: "begin_request cbs cancel incoming (c, st) = (c', st')"
  shows "nonces_ok st'"
  using step
proof (cases rule: begin_request_cases)
  case (finished res st1)
  have "nonces_ok (snd (c, st1))"
    using finished(2) by (auto intro!: nonces_ok_same [OF ok] simp: assms(2))
  then have "nonces_ok (snd (finish cbs cancel res (c, st1)))" by (rule nonces_ok_finish)
  then show ?thesis using finished(1) by (metis snd_conv)
next
  case (ignored req)
  then show ?thesis by (auto intro!: nonces_ok_same [OF ok] simp: assms(2))
next
  case (renew req t)
  then show ?thesis by (auto intro!: nonces_ok_same [OF ok] simp: assms(2))
qed

lemma create_request_cases:
  assumes "create_request createWatch e (h, c, st) = Inr (h', c', st')"
  obtains (idle) "st_pending st = None" "h' = h" "c' = c" "st' = st"
  | (created) t req ch k where "st_pending st = Some (t, req)"
      "createWatch e req (h, c) = Inr ((h', c'), ch, k)"
      "st' = st\<lparr>st_values := set_watch t ch k (st_values st), st_pending := None\<rparr>"
  using assms by (auto simp: create_request_def go_bind_eq_Inr split: option.splits)

lemma create_request_nonces:
  "nonces_ok st \<Longrightarrow> create_request createWatch e (h, c, st) = Inr (h', c', st') \<Longrightarrow> nonces_ok st'"
  by (erule create_request_cases) (auto intro: nonces_ok_same)

lemma process_nonces:
  "process pb cbs createWatch cancel evs (h, c, st) = Some (Inr (h', c', st')) \<Longrightarrow>
   nonces_ok st \<Longrightarrow> nonces_ok st'"
proof (induction evs arbitrary: h c st)
  case Nil
  then show ?case by simp
next
  case (Cons ev evs)
  show ?case
  proof (cases "running st")
    case False
    with Cons.prems show ?thesis by simp
  next
    case True
    show ?thesis
    proof (cases ev)
      case (Response t res)
      with Cons.prems(1) True obtain h1 c1 st1
        where s: "on_response pb cbs cancel t res (h, c, st) = Some (h1, c1, st1)"
          and "process pb cbs createWatch cancel evs (h1, c1, st1) = Some (Inr (h', c', st'))"
        by (auto split: option.splits)
      then show ?thesis
        using Cons.IH on_response_nonces [OF Cons.prems(2) True s] by blast
    next
      case (Request incoming e)
      obtain c0 st0 where b: "begin_request cbs cancel incoming (c, st) = (c0, st0)"
        by (cases "begin_request cbs cancel incoming (c, st)")
      with Cons.prems(1) True Request obtain h1 c1 st1
        where s: "create_request createWatch e (h, c0, st0) = Inr (h1, c1, st1)"
          and "process pb cbs createWatch cancel evs (h1, c1, st1) = Some (Inr (h', c', st'))"
        by (auto simp: on_request_def split: sum.splits)
      then show ?thesis
        using Cons.IH create_request_nonces [OF begin_request_nonces [OF Cons.prems(2) True b] s] by blast
    qed
  qed
qed

text \<open>
  How a turn ends a stream: \<open>None\<close> when the stream goes on, \<open>Some None\<close> when \<open>process\<close> returns
  nil and \<open>Some (Some err)\<close> when it returns an error. A request ends it with the end of the input,
  a nil request, an ADS request without a type or an error of the callback; an answer ends it
  when its channel is closed, a resource cannot be marshalled or \<open>stream.Send\<close> fails.
\<close>

definition request_end :: "callbacks option \<Rightarrow> 'k stream \<Rightarrow> discovery_request option option \<Rightarrow> go_error option option" where
  "request_end cbs st incoming =
     (case incoming of
        None \<Rightarrow> Some None
      | Some None \<Rightarrow> Some (Some (Status Unavailable ''empty request''))
      | Some (Some req) \<Rightarrow>
          if st_type st = AnyType \<and> req_TypeUrl req = []
          then Some (Some (Status InvalidArgument ''type URL is required for ADS''))
          else (case cbs of None \<Rightarrow> None
            | Some cb \<Rightarrow> map_option Some (OnStreamRequest cb (st_id st) (effective_request st req))))"

definition response_end :: "protobuf \<Rightarrow> xtype \<Rightarrow> go_error option \<Rightarrow> cache_response received \<Rightarrow> go_error option option" where
  "response_end pb t res r =
     (case r of
        NotReady \<Rightarrow> None
      | Closed \<Rightarrow> Some (Some (Status Unavailable (watch_name t @ '' watch failed'')))
      | Received resp \<Rightarrow>
          (case marshal_all pb (type_url t) (rsp_Resources resp) of
             Inl err \<Rightarrow> Some (Some err)
           | Inr _ \<Rightarrow> map_option Some res))"

lemma begin_request_end:
  assumes "begin_request cbs cancel incoming (c, st) = (c', st')" and "running st"
  shows "st_result st' = request_end cbs st incoming"
proof (cases "\<exists>req. incoming = Some (Some req) \<and> \<not> (st_type st = AnyType \<and> req_TypeUrl req = [])")
  case True
  then obtain req where req: "incoming = Some (Some req)" "\<not> (st_type st = AnyType \<and> req_TypeUrl req = [])" by blast
  have st': "st' = snd (begin_request cbs cancel incoming (c, st))" using assms(1) by simp
  show ?thesis
    unfolding st' req(1) begin_request_typed [OF req(2)] using req(2) assms(2)
    by (auto simp: request_end_def Let_def split: option.split)
next
  case False
  have st': "st' = snd (begin_request cbs cancel incoming (c, st))" using assms(1) by simp
  show ?thesis
    unfolding st' using False by (cases incoming; cases "the incoming") (auto simp: begin_request_def request_end_def)
qed

lemma on_response_end:
  assumes step: "on_response pb cbs cancel t res (h, c, st) = Some (h', c', st')" and "running st"
    and ch: "get_chan t (st_values st) = Some ch"
  shows "st_result st' = response_end pb t res (fst (recv ch h))"
proof -
  obtain r h1 where r: "recv ch h = (r, h1)" by fastforce
  have fin: "st_result st' = Some e" if "finish cbs cancel e x = (c', st')" for e x
    using finish_fields(8) [of cbs cancel e x] that by (metis snd_conv)
  show ?thesis
  proof (cases r)
    case NotReady
    with step show ?thesis by (simp add: on_response_def ch r)
  next
    case Closed
    with step have "finish cbs cancel (Some (Status Unavailable (watch_name t @ '' watch failed''))) (c, st) = (c', st')"
      by (simp add: on_response_def ch r)
    from fin [OF this] show ?thesis by (simp add: r Closed response_end_def)
  next
    case (Received resp)
    obtain q st1 where snd: "send_response pb cbs res resp (type_url t) st = (q, st1)" by fastforce
    have step': "(case q of Inl err \<Rightarrow> Some (h1, finish cbs cancel (Some err) (c, st1))
        | Inr nonce \<Rightarrow> Some (h1, c, st1\<lparr>st_values := set_nonce t nonce (st_values st1)\<rparr>)) = Some (h', c', st')"
      using step by (simp add: on_response_def ch r Received snd)
    show ?thesis
    proof (cases "marshal_all pb (type_url t) (rsp_Resources resp)")
      case (Inl e)
      then have "q = Inl e" using snd by (simp add: send_response_def server_createResponse_def)
      with step' fin [of "Some e" "(c, st1)"] show ?thesis by (simp add: r Received response_end_def Inl)
    next
      case (Inr as)
      have q: "q = (case res of Some err \<Rightarrow> Inl err | None \<Rightarrow> Inr (FormatInt (sint (st_nonce st + 1))))"
          "st_result st1 = None"
        using snd assms(2) Inr by (cases res; auto simp: send_response_def server_createResponse_def Let_def)+
      show ?thesis
      proof (cases res)
        case None
        with step' q show ?thesis by (auto simp: r Received response_end_def Inr)
      next
        case (Some err)
        with step' q fin [of "Some err" "(c, st1)"] show ?thesis by (simp add: r Received response_end_def Inr)
      qed
    qed
  qed
qed

subsection \<open>The watches a stream holds\<close>

definition holds :: "'k stream \<Rightarrow> 'k \<Rightarrow> bool" where
  "holds st k \<longleftrightarrow> (\<exists>t. get_cancel t (st_values st) = Some k)"

lemma ex_xtype: "(\<exists>t. P t) \<longleftrightarrow> P TEndpoint \<or> P TCluster \<or> P TRoute \<or> P TListener \<or> P TSecret"
  by (metis xtype.exhaust)

lemma holds_iff:
  "holds st k \<longleftrightarrow> Some k \<in> {endpointCancel (st_values st), clusterCancel (st_values st),
     routeCancel (st_values st), listenerCancel (st_values st), secretCancel (st_values st)}"
  by (auto simp: holds_def ex_xtype)

context config_watcher
begin

lemma call_cancel_watching:
  "watching (call_cancel cancel ko c) k = (if ko = Some k then None else watching c k)"
  by (cases ko) (auto simp: call_cancel_def cancel_watching)

lemma call_cancel_inv: "inv h c \<Longrightarrow> inv h (call_cancel cancel ko c)"
  by (cases ko) (simp_all add: call_cancel_def cancel_inv)

lemma call_cancel_issued: "issued (call_cancel cancel ko c) = issued c"
  by (cases ko) (simp_all add: call_cancel_def cancel_issued)

text \<open>When \<open>process\<close> returns, every watch of the stream is closed and no other.\<close>

lemma finish_releases:
  "watching (fst (finish cbs cancel res (c, st))) k = (if holds st k then None else watching c k)"
  by (auto simp: fst_finish Cancel_def call_cancel_watching holds_iff)

lemma finish_inv: "inv h c \<Longrightarrow> inv h (fst (finish cbs cancel res (c, st)))"
  by (simp add: fst_finish Cancel_def call_cancel_inv)

lemma finish_issued: "issued (fst (finish cbs cancel res (c, st))) = issued c"
  by (simp add: fst_finish Cancel_def call_cancel_issued)

text \<open>
  What a stream may assume about itself while other goroutines use the cache: its cancel
  functions were handed out, an open watch of the stream answers on the channel the stream
  listens to, different fields hold different cancel functions, and between the halves of a
  request the old watch is closed.
\<close>

definition stream_inv :: "rheap \<Rightarrow> 'c \<Rightarrow> 'k stream \<Rightarrow> bool" where
  "stream_inv h c st \<longleftrightarrow>
     (\<forall>k. holds st k \<longrightarrow> serial k \<le> issued c) \<and>
     (\<forall>t ch. get_chan t (st_values st) = Some ch \<longrightarrow> ch < h_next h) \<and>
     (\<forall>t k ch. get_cancel t (st_values st) = Some k \<longrightarrow> watching c k = Some ch \<longrightarrow>
        get_chan t (st_values st) = Some ch) \<and>
     (\<forall>t u k. get_cancel t (st_values st) = Some k \<longrightarrow> get_cancel u (st_values st) = Some k \<longrightarrow> t = u) \<and>
     (\<forall>t req. st_pending st = Some (t, req) \<longrightarrow> req_TypeUrl req = type_url t \<and> req \<in> set (st_received st)) \<and>
     (\<forall>t req k. st_pending st = Some (t, req) \<longrightarrow> get_cancel t (st_values st) = Some k \<longrightarrow> watching c k = None)"

lemma stream_inv_values:
  "stream_inv h c st \<Longrightarrow>
   (\<And>t. get_chan t (st_values st') = get_chan t (st_values st)) \<Longrightarrow>
   (\<And>t. get_cancel t (st_values st') = get_cancel t (st_values st)) \<Longrightarrow>
   st_pending st' = st_pending st \<Longrightarrow> set (st_received st) \<subseteq> set (st_received st') \<Longrightarrow> stream_inv h c st'"
  unfolding stream_inv_def holds_def by (simp add: subset_iff)

text \<open>Other goroutines may open watches with new cancel functions and close any watch.\<close>

definition cache_evolves :: "rheap \<Rightarrow> 'c \<Rightarrow> rheap \<Rightarrow> 'c \<Rightarrow> bool" where
  "cache_evolves h c h' c' \<longleftrightarrow> h_next h \<le> h_next h' \<and> issued c \<le> issued c' \<and>
     (\<forall>k. serial k \<le> issued c \<longrightarrow> watching c' k = None \<or> watching c' k = watching c k)"

lemma stream_inv_evolves:
  assumes sinv: "stream_inv h c st" and evo: "cache_evolves h c h' c'"
  shows "stream_inv h' c' st"
proof -
  have w: "watching c' k = None \<or> watching c' k = watching c k" if "get_cancel t (st_values st) = Some k" for t k
  proof -
    have "serial k \<le> issued c" using sinv that by (auto simp: stream_inv_def holds_def)
    then show ?thesis using evo by (simp add: cache_evolves_def)
  qed
  show ?thesis
    unfolding stream_inv_def
  proof (intro conjI allI impI)
    fix k assume "holds st k"
    then have "serial k \<le> issued c" using sinv by (simp add: stream_inv_def)
    then show "serial k \<le> issued c'" using evo by (simp add: cache_evolves_def)
  next
    fix t ch assume "get_chan t (st_values st) = Some ch"
    then have "ch < h_next h" using sinv by (simp add: stream_inv_def)
    then show "ch < h_next h'" using evo by (simp add: cache_evolves_def)
  next
    fix t k ch assume k: "get_cancel t (st_values st) = Some k" and "watching c' k = Some ch"
    then have "watching c k = Some ch" using w [OF k] by simp
    then show "get_chan t (st_values st) = Some ch"
      using sinv k by (simp add: stream_inv_def)
  next
    fix t req k assume "st_pending st = Some (t, req)" "get_cancel t (st_values st) = Some k"
    then show "watching c' k = None"
      using sinv w [of t k] by (auto simp: stream_inv_def)
  qed (use sinv in \<open>auto simp: stream_inv_def\<close>)
qed

text \<open>A step that opens no watch.\<close>

definition cache_shrinks :: "rheap \<Rightarrow> 'c \<Rightarrow> rheap \<Rightarrow> 'c \<Rightarrow> bool" where
  "cache_shrinks h c h' c' \<longleftrightarrow> h_next h = h_next h' \<and> issued c = issued c' \<and>
     (\<forall>k. watching c' k = None \<or> watching c' k = watching c k)"

lemma shrinks_evolves: "cache_shrinks h c h' c' \<Longrightarrow> cache_evolves h c h' c'"
  by (simp add: cache_shrinks_def cache_evolves_def)

lemma shrinks_cancel: "cache_shrinks h c h (call_cancel cancel ko c)"
  by (simp add: cache_shrinks_def call_cancel_issued call_cancel_watching)

lemma shrinks_finish: "cache_shrinks h c h (fst (finish cbs cancel res (c, st)))"
  by (simp add: cache_shrinks_def finish_issued finish_releases)

lemma evolves_create:
  assumes "inv h c" "issued c < limit" "legal e" "createWatch e req (h, c) = Inr ((h', c'), ch, ko)"
  shows "cache_evolves h c h' c'"
proof (cases ko)
  case None
  then show ?thesis
    using create_answered [OF assms(1-3)] create_chan [OF assms] assms(4) by (simp add: cache_evolves_def)
next
  case (Some k)
  then show ?thesis
    using create_open [OF assms(1-3)] create_chan [OF assms] assms(4) by (auto simp: cache_evolves_def)
qed

lemma evolves_refl [simp]: "cache_evolves h c h c"
  by (simp add: cache_evolves_def)

lemma shrinks_refl [simp]: "cache_shrinks h c h c"
  by (simp add: cache_shrinks_def)

lemma shrinks_recv: "recv ch h = (r, h') \<Longrightarrow> cache_shrinks h c h' c"
  by (simp add: cache_shrinks_def recv_h_next)

lemma shrinks_trans:
  "cache_shrinks h c h1 c1 \<Longrightarrow> cache_shrinks h1 c1 h2 c2 \<Longrightarrow> cache_shrinks h c h2 c2"
  by (simp add: cache_shrinks_def) metis

text \<open>
  A turn of the loop keeps the invariants, closes no watch but the stream's own, and when
  it ends the stream it leaves none of them open.
\<close>

definition turn_ok :: "rheap \<Rightarrow> 'c \<Rightarrow> 'k stream \<Rightarrow> rheap \<Rightarrow> 'c \<Rightarrow> 'k stream \<Rightarrow> bool" where
  "turn_ok h c st h' c' st' \<longleftrightarrow> inv h' c' \<and> stream_inv h' c' st' \<and> cache_shrinks h c h' c' \<and>
     (\<forall>k. holds st' k \<longleftrightarrow> holds st k) \<and>
     (\<forall>k. watching c k \<noteq> None \<longrightarrow> watching c' k = None \<longrightarrow> holds st k) \<and>
     (\<not> running st' \<longrightarrow> running st \<longrightarrow> (\<forall>k. holds st k \<longrightarrow> watching c' k = None))"

text \<open>A turn that ends the stream closes exactly its watches.\<close>

lemma turn_releases:
  assumes "turn_ok h c st h' c' st'" and "running st" and "\<not> running st'"
  shows "watching c' k = (if holds st k then None else watching c k)"
  using assms unfolding turn_ok_def cache_shrinks_def by metis

lemma begin_request_inv:
  assumes "inv h c" and sinv: "stream_inv h c st" and "st_pending st = None"
    and step: "begin_request cbs cancel incoming (c, st) = (c', st')"
  shows "turn_ok h c st h c' st'"
  using step
proof (cases rule: begin_request_cases)
  case (finished res st1)
  have st1: "st_values st1 = st_values st" "st_pending st1 = st_pending st"
      "set (st_received st) \<subseteq> set (st_received st1)"
    using finished(2) by auto
  have *: "c' = fst (finish cbs cancel res (c, st1))" "st' = snd (finish cbs cancel res (c, st1))"
    using finished(1) by (metis fst_conv, metis snd_conv)
  have hold: "holds st' k \<longleftrightarrow> holds st k" "holds st1 k \<longleftrightarrow> holds st k" for k
    by (simp_all add: holds_def * st1)
  have "stream_inv h c st'"
    by (rule stream_inv_values [OF sinv]) (simp_all add: * st1)
  then have "stream_inv h c' st'"
    using shrinks_evolves [OF shrinks_finish [of h c cbs res st1]] unfolding * by (rule stream_inv_evolves)
  then show ?thesis
    using finish_inv [OF assms(1)] shrinks_finish hold by (simp add: * finish_releases turn_ok_def)
next
  case (ignored req)
  have "stream_inv h c st'"
    by (rule stream_inv_values [OF sinv]) (auto simp: ignored)
  then show ?thesis
    using assms(1) by (auto simp: ignored holds_def turn_ok_def)
next
  case (renew req t)
  have evo: "cache_shrinks h c h c'" by (simp add: renew shrinks_cancel)
  have "watching c' k = None" if "get_cancel t (st_values st) = Some k" for k
    using that by (simp add: renew call_cancel_watching)
  moreover have "req_TypeUrl (effective_request st req) = type_url t"
    using renew(2) by (simp add: select_watch_Some)
  ultimately have "stream_inv h c' st'"
    using stream_inv_evolves [OF sinv shrinks_evolves [OF evo]] by (simp add: stream_inv_def holds_def renew(4))
  moreover have "holds st k" if "watching c k \<noteq> None" "watching c' k = None" for k
    using that by (auto simp: renew(3) call_cancel_watching holds_def split: if_splits)
  ultimately show ?thesis
    using evo call_cancel_inv [OF assms(1)] by (simp add: renew(3,4) holds_def turn_ok_def) (metis option.distinct(1))
qed

lemma create_request_inv:
  assumes "inv h c" "issued c < limit" "legal e" and sinv: "stream_inv h c st"
    and step: "create_request createWatch e (h, c, st) = Inr (h', c', st')"
  shows "inv h' c' \<and> stream_inv h' c' st' \<and> cache_evolves h c h' c'"
  using step
proof (cases rule: create_request_cases)
  case idle
  then show ?thesis using assms by simp
next
  case (created t req ch ko)
  note cr = assms(1-3) created(2)
  have evo: "cache_evolves h c h' c'" by (rule evolves_create [OF cr])
  have old: "stream_inv h' c' st" by (rule stream_inv_evolves [OF sinv evo])
  have new: "ch < h_next h'" using create_chan [OF cr] by simp
  have fresh: "\<not> holds st k \<and> serial k \<le> issued c' \<and> (\<forall>d. watching c' k = Some d \<longrightarrow> d = ch)"
    if "ko = Some k" for k
    using create_open [of h c e req h' c' ch k] cr that sinv by (auto simp: stream_inv_def)
  have "stream_inv h' c' st'"
    using old new fresh unfolding stream_inv_def holds_def created(3) by (auto split: if_splits)
  then show ?thesis
    using create_inv [OF cr] evo by blast
qed

lemma on_response_inv:
  assumes "inv h c" and sinv: "stream_inv h c st"
    and step: "on_response pb cbs cancel t res (h, c, st) = Some (h', c', st')"
  shows "turn_ok h c st h' c' st'"
proof -
  obtain ch r st1 where "get_chan t (st_values st) = Some ch" and r: "recv ch h = (r, h')"
    and st1: "\<And>u. get_chan u (st_values st1) = get_chan u (st_values st)"
      "\<And>u. get_cancel u (st_values st1) = get_cancel u (st_values st)" "st_pending st1 = st_pending st"
      "set (st_received st) \<subseteq> set (st_received st1)" "running st \<Longrightarrow> running st1"
    and res: "(c' = c \<and> st' = st1) \<or> (\<exists>e. finish cbs cancel e (c, st1) = (c', st'))"
    using step by (rule on_response_outcome) (rule that, assumption+)
  have inv': "inv h' c" by (rule recv_inv [OF assms(1) r])
  have evo: "cache_shrinks h c h' c" by (rule shrinks_recv [OF r])
  have s1: "stream_inv h' c st1"
    using stream_inv_evolves [OF sinv shrinks_evolves [OF evo]] st1(1-4) by (rule stream_inv_values)
  have hold: "holds st1 k \<longleftrightarrow> holds st k" for k
    by (simp add: holds_def st1(2))
  from res show ?thesis
  proof
    assume "c' = c \<and> st' = st1"
    then show ?thesis using inv' s1 evo hold st1(5) by (simp add: turn_ok_def) (metis option.distinct(1))
  next
    assume "\<exists>e. finish cbs cancel e (c, st1) = (c', st')"
    then obtain e where "finish cbs cancel e (c, st1) = (c', st')" ..
    then have *: "c' = fst (finish cbs cancel e (c, st1))" "st' = snd (finish cbs cancel e (c, st1))"
      by (metis fst_conv, metis snd_conv)
    have "stream_inv h' c st'"
      by (rule stream_inv_values [OF s1]) (simp_all add: *)
    then have "stream_inv h' c' st'"
      using shrinks_evolves [OF shrinks_finish [of h' c cbs e st1]] unfolding * by (rule stream_inv_evolves)
    moreover have "cache_shrinks h c h' c'"
      using evo shrinks_finish unfolding * by (rule shrinks_trans)
    ultimately show ?thesis
      using finish_inv [OF inv'] hold by (simp add: * finish_releases holds_def turn_ok_def)
  qed
qed

end

lemma process_start_fields:
  assumes "process_start cancel u (s, c) = (s', c', st)"
  shows "c' = c" "st_values st = zero_watches" "st_pending st = None" "st_sent st = []"
    "srv_callbacks s' = srv_callbacks s" "\<not> holds st k" "nonces_ok st"
  using assms nonces_ok_start [of cancel u "(s, c)"]
  by (auto simp: process_start_def Let_def finish_def Cancel_def call_cancel_def zero_watches_def holds_iff
      split: option.splits)

end
