(* ===== verification/System.thy ===== *)
theory System
  imports Streams
begin

text \<open>
  The control plane as \<open>cmd/bent/main.go\<close> puts it together: one snapshot cache, one
  server, any number of streams and the updater that sets snapshots, all running
  concurrently. A step is one critical section of one goroutine (a cache operation runs
  under the cache mutex) or one turn of a stream's loop; \<open>sys_published\<close> is a history
  variable with the snapshots that have been set.

  \<open>reach pb cbs b n s\<close>: the system can be in state \<open>s\<close> after \<open>n\<close> steps. The watch
  counter has 64 bits, so the theorems speak about runs of fewer than \<open>2 ^ 64 - 1\<close> steps.
\<close>

subsection \<open>Steps\<close>

record system =
  sys_heap :: rheap
  sys_cache :: snapshot_cache
  sys_server :: server
  sys_streams :: "cancel stream list"
  sys_published :: "(string \<times> snapshot) list"

abbreviation sys_callbacks :: "system \<Rightarrow> callbacks option" where
  "sys_callbacks s \<equiv> srv_callbacks (sys_server s)"

definition init_system :: "callbacks option \<Rightarrow> bool \<Rightarrow> system" where
  "init_system cbs b = \<lparr>sys_heap = empty_heap, sys_cache = NewSnapshotCache b,
     sys_server = NewServer cbs, sys_streams = [], sys_published = []\<rparr>"

definition put_stream :: "nat \<Rightarrow> rheap \<times> snapshot_cache \<times> cancel stream \<Rightarrow> system \<Rightarrow> system" where
  "put_stream i = (\<lambda>(h, c, st) s.
     s\<lparr>sys_heap := h, sys_cache := c, sys_streams := (sys_streams s)[i := st]\<rparr>)"

inductive sys_step :: "protobuf \<Rightarrow> system \<Rightarrow> system \<Rightarrow> bool" for pb where
  open_stream:
    "process_start cancelWatch (stream_type m) (sys_server s, sys_cache s) = (srv, c, st) \<Longrightarrow>
     sys_step pb s (s\<lparr>sys_server := srv, sys_cache := c, sys_streams := sys_streams s @ [st]\<rparr>)"
| response:
    "i < length (sys_streams s) \<Longrightarrow> running (sys_streams s ! i) \<Longrightarrow>
     st_pending (sys_streams s ! i) = None \<Longrightarrow>
     on_response pb (sys_callbacks s) cancelWatch t res (sys_heap s, sys_cache s, sys_streams s ! i) = Some r \<Longrightarrow>
     sys_step pb s (put_stream i r s)"
| request:
    "i < length (sys_streams s) \<Longrightarrow> running (sys_streams s ! i) \<Longrightarrow>
     st_pending (sys_streams s ! i) = None \<Longrightarrow>
     begin_request (sys_callbacks s) cancelWatch incoming (sys_cache s, sys_streams s ! i) = r \<Longrightarrow>
     sys_step pb s (put_stream i (sys_heap s, r) s)"
| create:
    "i < length (sys_streams s) \<Longrightarrow> running (sys_streams s ! i) \<Longrightarrow>
     st_pending (sys_streams s ! i) = Some p \<Longrightarrow> legal_orders e \<Longrightarrow>
     create_request (\<lambda>e. CreateWatch (fst e) (snd e)) e (sys_heap s, sys_cache s, sys_streams s ! i) = Inr r \<Longrightarrow>
     sys_step pb s (put_stream i r s)"
| publish:
    "snapshot_wf snap \<Longrightarrow> is_order word \<Longrightarrow> \<forall>i j. is_order (ords i j) \<Longrightarrow>
     SetSnapshot word ords n snap (sys_heap s, sys_cache s) = Inr (h, c) \<Longrightarrow>
     sys_step pb s (s\<lparr>sys_heap := h, sys_cache := c, sys_published := (n, snap) # sys_published s\<rparr>)"
| clear:
    "sys_step pb s (s\<lparr>sys_cache := ClearSnapshot n (sys_cache s)\<rparr>)"

inductive reach :: "protobuf \<Rightarrow> callbacks option \<Rightarrow> bool \<Rightarrow> nat \<Rightarrow> system \<Rightarrow> bool"
  for pb cbs b where
  reach_init: "reach pb cbs b 0 (init_system cbs b)"
| reach_step: "reach pb cbs b n s \<Longrightarrow> sys_step pb s t \<Longrightarrow> reach pb cbs b (Suc n) t"

lemma put_stream_fields [simp]:
  "sys_heap (put_stream i (h, c, st) s) = h" "sys_cache (put_stream i (h, c, st) s) = c"
  "sys_server (put_stream i (h, c, st) s) = sys_server s"
  "sys_streams (put_stream i (h, c, st) s) = (sys_streams s)[i := st]"
  "sys_published (put_stream i (h, c, st) s) = sys_published s"
  by (simp_all add: put_stream_def)

subsection \<open>Cache operations seen from the streams\<close>

lemma shrinks_SetSnapshot:
  assumes "set_snapshot_post ords n snap h c h' c'"
  shows "sc.cache_shrinks h c h' c'"
proof -
  have "watching_chan c' k = None \<or> watching_chan c' k = watching_chan c k" for k
    using assms by (cases k) (auto simp: set_snapshot_post_def split: option.splits)
  then show ?thesis
    using assms by (simp add: sc.cache_shrinks_def set_snapshot_post_def ids_issued_def)
qed

lemma shrinks_ClearSnapshot: "sc.cache_shrinks h c h (ClearSnapshot n c)"
proof -
  have "watching_chan (ClearSnapshot n c) k = None \<or> watching_chan (ClearSnapshot n c) k = watching_chan c k" for k
    by (cases k) (simp add: open_watch_clear)
  then show ?thesis
    by (simp add: sc.cache_shrinks_def ids_issued_def ClearSnapshot_def)
qed

subsection \<open>No operation blocks\<close>

text \<open>
  \<open>safe n s\<close>: the invariants of cache and heap, each stream's own invariant, and who owns
  the open watches: exactly one running stream each.
\<close>

definition safe :: "nat \<Rightarrow> system \<Rightarrow> bool" where
  "safe n s \<longleftrightarrow> cache_inv (sys_heap s) (sys_cache s) \<and> ids_issued (sys_cache s) \<le> n \<and>
     (\<forall>st \<in> set (sys_streams s). sc.stream_inv (sys_heap s) (sys_cache s) st) \<and>
     (\<forall>i j k. i < length (sys_streams s) \<longrightarrow> j < length (sys_streams s) \<longrightarrow>
        holds (sys_streams s ! i) k \<longrightarrow> holds (sys_streams s ! j) k \<longrightarrow> i = j) \<and>
     (\<forall>k. watching_chan (sys_cache s) k \<noteq> None \<longrightarrow>
        (\<exists>st \<in> set (sys_streams s). running st \<and> holds st k))"

lemma safe_stream: "safe n s \<Longrightarrow> st \<in> set (sys_streams s) \<Longrightarrow> sc.stream_inv (sys_heap s) (sys_cache s) st"
  by (simp add: safe_def)

lemma safe_owner:
  "safe n s \<Longrightarrow> i < length (sys_streams s) \<Longrightarrow> j < length (sys_streams s) \<Longrightarrow>
   holds (sys_streams s ! i) k \<Longrightarrow> holds (sys_streams s ! j) k \<Longrightarrow> i = j"
  unfolding safe_def by blast

lemma safe_held:
  "safe n s \<Longrightarrow> watching_chan (sys_cache s) k \<noteq> None \<Longrightarrow> \<exists>st \<in> set (sys_streams s). running st \<and> holds st k"
  unfolding safe_def by blast

lemma safe_issued: "safe n s \<Longrightarrow> ids_issued (sys_cache s) \<le> n"
  by (simp add: safe_def)

lemma safe_cache_inv: "safe n s \<Longrightarrow> cache_inv (sys_heap s) (sys_cache s)"
  by (simp add: safe_def)

lemma safeI:
  assumes "cache_inv (sys_heap s) (sys_cache s)" and "ids_issued (sys_cache s) \<le> n"
    and "\<And>st. st \<in> set (sys_streams s) \<Longrightarrow> sc.stream_inv (sys_heap s) (sys_cache s) st"
    and "\<And>i j k. i < length (sys_streams s) \<Longrightarrow> j < length (sys_streams s) \<Longrightarrow>
      holds (sys_streams s ! i) k \<Longrightarrow> holds (sys_streams s ! j) k \<Longrightarrow> i = j"
    and "\<And>k. watching_chan (sys_cache s) k \<noteq> None \<Longrightarrow> \<exists>st \<in> set (sys_streams s). running st \<and> holds st k"
  shows "safe n s"
  unfolding safe_def
  by (intro conjI ballI allI impI) (rule assms; assumption)+

text \<open>A step of the updater or of another caller: watches are closed, the streams stay.\<close>

lemma safe_shrinks:
  assumes "safe n s" and "cache_inv h c" and "sc.cache_shrinks (sys_heap s) (sys_cache s) h c"
    and "sys_heap t = h" "sys_cache t = c" "sys_streams t = sys_streams s"
  shows "safe (Suc n) t"
proof (rule safeI, unfold assms(4-6))
  show "cache_inv h c" by (rule assms(2))
  show "ids_issued c \<le> Suc n"
    using safe_issued [OF assms(1)] assms(3) by (simp add: sc.cache_shrinks_def)
  show "sc.stream_inv h c st" if "st \<in> set (sys_streams s)" for st
    by (rule sc.stream_inv_evolves [OF safe_stream [OF assms(1) that] sc.shrinks_evolves [OF assms(3)]])
  show "\<exists>st \<in> set (sys_streams s). running st \<and> holds st k" if "watching_chan c k \<noteq> None" for k
  proof (rule safe_held [OF assms(1)])
    show "watching_chan (sys_cache s) k \<noteq> None"
      using assms(3) that unfolding sc.cache_shrinks_def by metis
  qed
qed (rule safe_owner [OF assms(1)])

text \<open>
  A step of one stream: what it holds afterwards it held before or nobody held, and an open
  watch is held by it or was open and is not lost by it.
\<close>

lemma safe_update:
  assumes s: "safe n s" and i: "i < length (sys_streams s)"
    and inv: "cache_inv h c" "ids_issued c \<le> Suc n" "sc.stream_inv h c st"
    and evo: "sc.cache_evolves (sys_heap s) (sys_cache s) h c"
    and owner: "\<And>k. holds st k \<Longrightarrow> holds (sys_streams s ! i) k \<or> (\<forall>x \<in> set (sys_streams s). \<not> holds x k)"
    and held: "\<And>k. watching_chan c k \<noteq> None \<Longrightarrow> (running st \<and> holds st k) \<or>
      (watching_chan (sys_cache s) k \<noteq> None \<and> (holds (sys_streams s ! i) k \<longrightarrow> running st \<and> holds st k))"
  shows "safe (Suc n) (put_stream i (h, c, st) s)"
proof (rule safeI, unfold put_stream_fields)
  show "cache_inv h c" "ids_issued c \<le> Suc n" by (rule inv)+
  show "sc.stream_inv h c x" if "x \<in> set ((sys_streams s)[i := st])" for x
  proof (cases "x = st")
    case False
    then have "x \<in> set (sys_streams s)" using that set_update_subset_insert by fastforce
    then show ?thesis by (rule sc.stream_inv_evolves [OF safe_stream [OF s] evo])
  qed (simp add: inv)
  show "j = m" if "j < length ((sys_streams s)[i := st])" "m < length ((sys_streams s)[i := st])"
    "holds ((sys_streams s)[i := st] ! j) k" "holds ((sys_streams s)[i := st] ! m) k" for j m k
    by (rule update_unique [where P = "\<lambda>x. holds x k", OF safe_owner [OF s] owner that])
  show "\<exists>x \<in> set ((sys_streams s)[i := st]). running x \<and> holds x k" if "watching_chan c k \<noteq> None" for k
  proof (cases "running st \<and> holds st k")
    case True
    then show ?thesis using set_update_memI [OF i] by blast
  next
    case False
    then have "watching_chan (sys_cache s) k \<noteq> None" "\<not> holds (sys_streams s ! i) k"
      using held [OF that] by blast+
    then show ?thesis using safe_held [OF s] by (intro update_ex) auto
  qed
qed

lemma safe_turn:
  assumes s: "safe n s" and i: "i < length (sys_streams s)" "running (sys_streams s ! i)"
    and turn: "sc.turn_ok (sys_heap s) (sys_cache s) (sys_streams s ! i) h c st"
  shows "safe (Suc n) (put_stream i (h, c, st) s)"
proof -
  have shr: "sc.cache_shrinks (sys_heap s) (sys_cache s) h c" and inv: "cache_inv h c" "sc.stream_inv h c st"
    and hold: "\<And>k. holds st k \<longleftrightarrow> holds (sys_streams s ! i) k"
    and ends: "\<And>k. \<not> running st \<Longrightarrow> holds (sys_streams s ! i) k \<Longrightarrow> watching_chan c k = None"
    using turn i(2) by (auto simp: sc.turn_ok_def)
  have "ids_issued c \<le> Suc n" using safe_issued [OF s] shr by (simp add: sc.cache_shrinks_def)
  moreover have "watching_chan (sys_cache s) k \<noteq> None" if "watching_chan c k \<noteq> None" for k
    using shr that unfolding sc.cache_shrinks_def by metis
  moreover note hold ends
  ultimately show ?thesis
    by (intro safe_update [OF s i(1) inv(1) _ inv(2) sc.shrinks_evolves [OF shr]]) metis+
qed

text \<open>A new stream.\<close>

lemma safe_open_stream:
  assumes s: "safe n s" and start: "process_start cancelWatch u (sys_server s, sys_cache s) = (srv, c, st)"
  shows "safe (Suc n) (s\<lparr>sys_server := srv, sys_cache := c, sys_streams := sys_streams s @ [st]\<rparr>)" (is "safe _ ?t")
proof -
  note st = process_start_fields [OF start]
  have new: "sc.stream_inv h c' st" for h c'
    using st(2,3,6) by (simp add: sc.stream_inv_def)
  have nth: "holds (sys_streams ?t ! j) k \<Longrightarrow> j < length (sys_streams ?t) \<Longrightarrow>
      j < length (sys_streams s) \<and> holds (sys_streams s ! j) k" for j k
    using st(6) by (auto simp: nth_append less_Suc_eq)
  show ?thesis
  proof (rule safeI)
    show "ids_issued (sys_cache ?t) \<le> Suc n" "cache_inv (sys_heap ?t) (sys_cache ?t)"
      using safe_issued [OF s] safe_cache_inv [OF s] by (simp_all add: st(1))
    show "sc.stream_inv (sys_heap ?t) (sys_cache ?t) x" if "x \<in> set (sys_streams ?t)" for x
      using that safe_stream [OF s] new by (auto simp: st(1))
    show "i = j" if "i < length (sys_streams ?t)" "j < length (sys_streams ?t)"
      "holds (sys_streams ?t ! i) k" "holds (sys_streams ?t ! j) k" for i j k
      using nth [OF that(3,1)] nth [OF that(4,2)] safe_owner [OF s] by blast
    show "\<exists>x \<in> set (sys_streams ?t). running x \<and> holds x k" if "watching_chan (sys_cache ?t) k \<noteq> None" for k
      using safe_held [OF s, of k] that by (auto simp: st(1))
  qed
qed

text \<open>The second half of a request: the only step that opens a watch.\<close>

lemma safe_create:
  assumes s: "safe n s" and lim: "n < id_limit" and i: "i < length (sys_streams s)" "running (sys_streams s ! i)"
    and e: "legal_orders e"
    and step: "create_request (\<lambda>e. CreateWatch (fst e) (snd e)) e (sys_heap s, sys_cache s, sys_streams s ! i)
      = Inr (h, c, st)"
  shows "safe (Suc n) (put_stream i (h, c, st) s)"
  using step
proof (cases rule: create_request_cases)
  case idle
  have "sc.turn_ok (sys_heap s) (sys_cache s) (sys_streams s ! i) h c st"
    using idle safe_cache_inv [OF s] safe_stream [OF s nth_mem [OF i(1)]] i(2)
    by (auto simp: sc.turn_ok_def)
  then show ?thesis by (rule safe_turn [OF s i])
next
  case (created t req ch ko)
  let ?old = "sys_streams s ! i"
  have ci: "ids_issued (sys_cache s) < id_limit" using safe_issued [OF s] lim by simp
  note cr = safe_cache_inv [OF s] ci e created(2)
  have old: "sc.stream_inv (sys_heap s) (sys_cache s) ?old" by (rule safe_stream [OF s nth_mem [OF i(1)]])
  have evo: "sc.cache_evolves (sys_heap s) (sys_cache s) h c" and inv: "cache_inv h c"
    and st: "sc.stream_inv h c st"
    using sc.create_request_inv [OF cr(1-3) old step] by auto
  have hold: "holds st k \<longleftrightarrow> ko = Some k \<or> (\<exists>u. u \<noteq> t \<and> get_cancel u (st_values ?old) = Some k)" for k
    by (auto simp: holds_def created(3))
  have run: "running st" using i(2) by (simp add: created(3))
  have fresh: "\<not> holds x k" if "ko = Some k" "x \<in> set (sys_streams s)" for x k
  proof -
    have "cancel_serial k = Suc (ids_issued (sys_cache s))"
      using sc.create_open [OF cr(1-3)] cr(4) that(1) by blast
    then show ?thesis using safe_stream [OF s that(2)] by (auto simp: sc.stream_inv_def)
  qed
  have issued: "ids_issued c \<le> Suc n" using safe_issued [OF s] sc.create_issued [OF cr] by simp
  show ?thesis
  proof (rule safe_update [OF s i(1) inv issued st evo])
    show "holds ?old k \<or> (\<forall>x \<in> set (sys_streams s). \<not> holds x k)" if "holds st k" for k
      using that fresh unfolding hold by (auto simp: holds_def)
    show "running st \<and> holds st k \<or>
        watching_chan (sys_cache s) k \<noteq> None \<and> (holds ?old k \<longrightarrow> running st \<and> holds st k)"
      if open_k: "watching_chan c k \<noteq> None" for k
    proof (cases "ko = Some k")
      case False
      then have "watching_chan c k = watching_chan (sys_cache s) k"
        using sc.create_open [OF cr(1-3)] sc.create_answered [OF cr(1-3)] cr(4) by (cases ko) auto
      with open_k have was: "watching_chan (sys_cache s) k \<noteq> None" by simp
      moreover have "holds st k" if "holds ?old k"
        using that was old created(1) unfolding hold by (auto simp: sc.stream_inv_def holds_def)
      ultimately show ?thesis using run by blast
    qed (simp add: run hold)
  qed
qed

lemma watching_new: "watching_chan (NewSnapshotCache b) k = None"
  by (cases k) (simp add: NewSnapshotCache_def open_watch_def)

lemma safe_init: "safe 0 (init_system cbs b)"
  by (simp add: safe_def init_system_def NewSnapshotCache_inv ids_issued_def watching_new)
    (simp add: NewSnapshotCache_def)

lemma safe_step:
  assumes "safe n s" and "n < id_limit" and "sys_step pb s t"
  shows "safe (Suc n) t"
  using assms(3)
proof cases
  case (open_stream m srv c st)
  then show ?thesis using safe_open_stream [OF assms(1)] by simp
next
  case (response i ty res r)
  obtain h c st where r: "r = (h, c, st)" by (cases r)
  have "sc.turn_ok (sys_heap s) (sys_cache s) (sys_streams s ! i) h c st"
    using sc.on_response_inv [OF safe_cache_inv safe_stream, OF assms(1) assms(1) nth_mem] response r by blast
  then show ?thesis
    using safe_turn [OF assms(1)] response r by blast
next
  case (request i incoming r)
  obtain c st where r: "r = (c, st)" by (cases r)
  have "sc.turn_ok (sys_heap s) (sys_cache s) (sys_streams s ! i) (sys_heap s) c st"
    using sc.begin_request_inv [OF safe_cache_inv safe_stream, OF assms(1) assms(1) nth_mem] request by (simp add: r)
  then show ?thesis
    using safe_turn [OF assms(1)] request by (simp add: r)
next
  case (create i p e r)
  obtain h c st where r: "r = (h, c, st)" by (cases r)
  then show ?thesis
    using safe_create [OF assms(1,2)] create by blast
next
  case (publish snap word ords m h c)
  have "cache_inv h c" "set_snapshot_post ords m snap (sys_heap s) (sys_cache s) h c"
    using SetSnapshot_inv [OF safe_cache_inv [OF assms(1)] publish(2,3), of ords m] publish(4,5) by auto
  then show ?thesis
    using safe_shrinks [OF assms(1) _ shrinks_SetSnapshot] publish(1) by simp
next
  case (clear m)
  then show ?thesis
    using safe_shrinks [OF assms(1) ClearSnapshot_inv [OF safe_cache_inv [OF assms(1)]] shrinks_ClearSnapshot] by simp
qed

lemma reach_safe: "reach pb cbs b n s \<Longrightarrow> n \<le> id_limit \<Longrightarrow> safe n s"
proof (induction rule: reach.induct)
  case reach_init
  show ?case by (rule safe_init)
next
  case (reach_step n s t)
  then show ?case using safe_step by simp
qed

lemma reach_inv: "reach pb cbs b n s \<Longrightarrow> n \<le> id_limit \<Longrightarrow> cache_inv (sys_heap s) (sys_cache s)"
  by (rule safe_cache_inv [OF reach_safe])

lemma reach_ids: "reach pb cbs b n s \<Longrightarrow> n < id_limit \<Longrightarrow> ids_issued (sys_cache s) < id_limit"
  using safe_issued [OF reach_safe] by force

subsection \<open>A run of the system\<close>

text \<open>
  A concrete run that the theorems are applied to: a client opens a stream for routes, its
  first request leaves a watch open, and a snapshot for its node is published.
\<close>

definition sample_request :: discovery_request where
  "sample_request = \<lparr>req_VersionInfo = [], req_Node = Some \<lparr>cn_Id = ''web'', cn_Cluster = ''web''\<rparr>,
     req_ResourceNames = [], req_TypeUrl = RouteType, req_ResponseNonce = []\<rparr>"

definition sample_route :: resource where
  "sample_route = RouteConfiguration \<lparr>rc_Name = ''ingress_route'', rc_VirtualHosts = []\<rparr>"

definition sample_snapshot :: snapshot where
  "sample_snapshot = NewSnapshot ''v1'' [] [] [sample_route] []"

definition sample_watches :: "cancel watches" where
  "sample_watches = zero_watches\<lparr>routes := Some 0, routeCancel := Some (CancelWatch ''web'' 1)\<rparr>"

definition sample_stream ::
    "cancel watches \<Rightarrow> (xtype \<times> discovery_request) option \<Rightarrow> discovery_request list \<Rightarrow> cancel stream" where
  "sample_stream v p rs = \<lparr>st_id = 1, st_type = RouteType, st_nonce = 0, st_values = v,
     st_pending = p, st_received = rs, st_sent = [], st_log = [], st_result = None\<rparr>"

definition sample_opened :: system where
  "sample_opened = (init_system None False)\<lparr>sys_server := \<lparr>srv_callbacks = None, srv_streamCount = 1\<rparr>,
     sys_streams := [sample_stream zero_watches None []]\<rparr>"

definition sample_asked :: system where
  "sample_asked = sample_opened\<lparr>sys_streams := [sample_stream zero_watches (Some (TRoute, sample_request)) [sample_request]]\<rparr>"

definition sample_status :: "(int64, response_watch) gomap \<Rightarrow> (string, status_info) gomap" where
  "sample_status ws = [(''web'', \<lparr>si_node = req_Node sample_request, si_watches = ws, si_lastWatchRequestTime = 0\<rparr>)]"

definition sample_watching :: system where
  "sample_watching = sample_opened\<lparr>
     sys_heap := \<lparr>h_next = 1, h_chan = [0 \<mapsto> empty_chan]\<rparr>,
     sys_cache := \<lparr>ads = False, snapshots = [],
       status = sample_status [(1, \<lparr>w_Request = sample_request, w_Response = 0\<rparr>)], watchCount = 1\<rparr>,
     sys_streams := [sample_stream sample_watches None [sample_request]]\<rparr>"

definition sample_published :: system where
  "sample_published = sample_watching\<lparr>
     sys_heap := \<lparr>h_next = 1, h_chan = [0 \<mapsto> full_chan (reply (\<lambda>_. id) sample_snapshot sample_request)]\<rparr>,
     sys_cache := \<lparr>ads = False, snapshots = [(''web'', sample_snapshot)], status = sample_status [], watchCount = 1\<rparr>,
     sys_published := [(''web'', sample_snapshot)]\<rparr>"

lemmas sample_defs =
  sample_opened_def sample_asked_def sample_watching_def sample_stream_def sample_watches_def sample_status_def
  init_system_def NewSnapshotCache_def

lemma sample_open: "sys_step pb (init_system None False) sample_opened"
proof -
  have "process_start cancelWatch (stream_type StreamRoutes)
      (sys_server (init_system None False), sys_cache (init_system None False)) =
      (\<lparr>srv_callbacks = None, srv_streamCount = 1\<rparr>, sys_cache (init_system None False), sample_stream zero_watches None [])"
    by (simp add: process_start_def init_system_def NewServer_def sample_stream_def)
  from sys_step.open_stream [OF this] show ?thesis
    by (simp add: sample_opened_def init_system_def)
qed

lemma sample_ask: "sys_step pb sample_opened sample_asked"
proof -
  have "begin_request (sys_callbacks sample_opened) cancelWatch (Some (Some sample_request))
      (sys_cache sample_opened, sys_streams sample_opened ! 0) =
      (sys_cache sample_opened, sample_stream zero_watches (Some (TRoute, sample_request)) [sample_request])"
    by (simp add: begin_request_def sample_defs sample_request_def log_call_def note_request_def
        call_cancel_def select_watch_def xtypes_def zero_watches_def Let_def)
  from sys_step.request [OF _ _ _ this] show ?thesis
    by (simp add: sample_asked_def sample_opened_def sample_stream_def put_stream_def init_system_def)
qed

lemma sample_watch: "sys_step pb sample_asked sample_watching"
proof -
  have "create_request (\<lambda>e. CreateWatch (fst e) (snd e)) (0, \<lambda>_. id)
      (sys_heap sample_asked, sys_cache sample_asked, sys_streams sample_asked ! 0) =
      Inr (sys_heap sample_watching, sys_cache sample_watching, sys_streams sample_watching ! 0)"
    by (simp add: create_request_def CreateWatch_def sample_defs sample_request_def nodeID_def newStatusInfo_def
        nextWatchID_def make_chan_def empty_heap_def set_chan_def mput_def Let_def)
  from sys_step.create [OF _ _ _ _ this] show ?thesis
    by (simp add: sample_asked_def sample_opened_def sample_watching_def sample_stream_def put_stream_def
        init_system_def legal_orders_def)
qed

lemma sample_snapshot_facts:
  "snapshot_wf sample_snapshot" "GetVersion (Some sample_snapshot) RouteType = ''v1''"
  "GetResources (Some sample_snapshot) RouteType = [(''ingress_route'', sample_route)]"
  by (simp_all add: sample_snapshot_def snapshot_wf_def NewSnapshot_def NewResources_def zero_resources_def
      GetVersion_def GetResources_def IndexResourcesByName_def mput_def sample_route_def map_wf_def)

lemma sample_SetSnapshot:
  "SetSnapshot id (\<lambda>_ _. id) ''web'' sample_snapshot (sys_heap sample_watching, sys_cache sample_watching) =
      Inr (sys_heap sample_published, sys_cache sample_published)"
  by (simp add: SetSnapshot_def sample_watching_def sample_published_def sample_status_def mput_def mdel_def
        mrange_def Let_def respond_def send_def empty_chan_def full_chan_def set_chan_def reply_def
        sample_request_def sample_snapshot_facts)

lemma sample_publish: "sys_step pb sample_watching sample_published"
  using sys_step.publish [OF sample_snapshot_facts(1) _ _ sample_SetSnapshot]
  by (simp add: sample_published_def sample_watching_def sample_opened_def init_system_def)

lemma sample_reach:
  "reach pb None False 3 sample_watching" "reach pb None False 4 sample_published"
proof -
  have "reach pb None False (Suc (Suc (Suc 0))) sample_watching"
    by (intro reach_step [OF _ sample_watch] reach_step [OF _ sample_ask] reach_step [OF _ sample_open] reach_init)
  then show "reach pb None False 3 sample_watching" by (simp add: numeral_3_eq_3)
  then have "reach pb None False (Suc 3) sample_published" by (rule reach_step [OF _ sample_publish])
  then show "reach pb None False 4 sample_published" by simp
qed

text \<open>The stream then sends the published route.\<close>

definition sample_out :: discovery_response where
  "sample_out = \<lparr>dr_VersionInfo = ''v1'', dr_Resources = [\<lparr>any_TypeUrl = RouteType, any_Value = []\<rparr>],
     dr_TypeUrl = RouteType, dr_Nonce = ''1''\<rparr>"

definition sample_sent :: system where
  "sample_sent = sample_published\<lparr>sys_heap := \<lparr>h_next = 1, h_chan = [0 \<mapsto> empty_chan]\<rparr>,
     sys_streams := [(sample_stream (sample_watches\<lparr>routeNonce := ''1''\<rparr>) None [sample_request])
       \<lparr>st_nonce := 1, st_sent := [sample_out]\<rparr>]\<rparr>"

lemma sample_sent_stream:
  "set (sys_streams sample_sent) = {sys_streams sample_sent ! 0}"
  "length (sys_streams sample_sent) = 1" "running (sys_streams sample_sent ! 0)"
  "st_pending (sys_streams sample_sent ! 0) = None" "st_nonce (sys_streams sample_sent ! 0) = 1"
  "st_sent (sys_streams sample_sent ! 0) = [sample_out]"
  "st_received (sys_streams sample_sent ! 0) = [sample_request]"
  by (simp_all add: sample_sent_def sample_stream_def)

lemma FormatInt_1: "FormatInt 1 = ''1''"
  by code_simp

lemma sample_respond: "sys_step protobuf_sample sample_published sample_sent"
proof -
  have "on_response protobuf_sample (sys_callbacks sample_published) cancelWatch TRoute None
      (sys_heap sample_published, sys_cache sample_published, sys_streams sample_published ! 0) =
      Some (sys_heap sample_sent, sys_cache sample_published, sys_streams sample_sent ! 0)"
    by (simp add: on_response_def sample_published_def sample_sent_def sample_watching_def sample_opened_def
        sample_stream_def sample_watches_def init_system_def recv_def full_chan_def empty_chan_def set_chan_def
        send_response_def server_createResponse_def reply_def createResponse_def sample_request_def
        sample_snapshot_facts mrange_def protobuf_sample_def log_call_def sample_out_def FormatInt_1)
  from sys_step.response [OF _ _ _ this] show ?thesis
    by (simp add: sample_published_def sample_watching_def sample_opened_def init_system_def sample_stream_def
        sample_sent_def put_stream_def)
qed

lemma sample_sent_reach: "reach protobuf_sample None False 5 sample_sent"
  using reach_step [OF sample_reach(2) sample_respond] by simp

end
