(* ===== verification/Delivery.thy ===== *)
theory Delivery
  imports System
begin

text \<open>
  What the clients receive. A response of the cache is \<open>genuine\<close> when it is the reply to
  its own request out of a snapshot that was published for the node of that request. The
  invariant \<open>honest\<close> says that the buffered responses are genuine, that the channels a
  stream listens to only carry responses of their resource type, that no channel is ever
  closed, and that every response sent encodes a genuine one under the type URL of its
  request. It holds in every reachable state.
\<close>

subsection \<open>Definitions\<close>

definition genuine :: "(string \<times> snapshot) list \<Rightarrow> cache_response \<Rightarrow> bool" where
  "genuine pub v \<longleftrightarrow> (\<exists>snap ords. (nodeID (rsp_Request v), snap) \<in> set pub \<and> (\<forall>j. is_order (ords j)) \<and>
     outdated snap (rsp_Request v) \<and> v = reply ords snap (rsp_Request v))"

definition delivered ::
    "protobuf \<Rightarrow> (string \<times> snapshot) list \<Rightarrow> discovery_request list \<Rightarrow> discovery_response \<Rightarrow> bool" where
  "delivered pb pub reqs out \<longleftrightarrow> (\<exists>v. genuine pub v \<and> rsp_Request v \<in> set reqs \<and>
     encodes pb (req_TypeUrl (rsp_Request v)) v out)"

definition chan_holds :: "rheap \<Rightarrow> chan_id \<Rightarrow> cache_response \<Rightarrow> bool" where
  "chan_holds h ch v \<longleftrightarrow> (\<exists>x. h_chan h ch = Some x \<and> v \<in> set (ch_buf x))"

definition chan_serves :: "rheap \<Rightarrow> snapshot_cache \<Rightarrow> chan_id \<Rightarrow> (discovery_request \<Rightarrow> bool) \<Rightarrow> bool" where
  "chan_serves h c ch P \<longleftrightarrow> (\<forall>v. chan_holds h ch v \<longrightarrow> P (rsp_Request v)) \<and>
     (\<forall>n i w. open_watch c n i = Some w \<longrightarrow> w_Response w = ch \<longrightarrow> P (w_Request w))"

text \<open>The requests a stream may get answers to on its channel for type \<open>t\<close>.\<close>

definition asked :: "cancel stream \<Rightarrow> xtype \<Rightarrow> discovery_request \<Rightarrow> bool" where
  "asked st t req \<longleftrightarrow> req_TypeUrl req = type_url t \<and> req \<in> set (st_received st)"

definition honest_cache :: "(string \<times> snapshot) list \<Rightarrow> rheap \<Rightarrow> snapshot_cache \<Rightarrow> bool" where
  "honest_cache pub h c \<longleftrightarrow> heap_open h \<and> (\<forall>ch v. chan_holds h ch v \<longrightarrow> genuine pub v) \<and>
     (\<forall>n s. map_of (snapshots c) n = Some s \<longrightarrow> (n, s) \<in> set pub)"

definition honest_stream ::
    "protobuf \<Rightarrow> (string \<times> snapshot) list \<Rightarrow> rheap \<Rightarrow> snapshot_cache \<Rightarrow> cancel stream \<Rightarrow> bool" where
  "honest_stream pb pub h c st \<longleftrightarrow> nonces_ok st \<and>
     (\<forall>t ch. get_chan t (st_values st) = Some ch \<longrightarrow> chan_serves h c ch (asked st t)) \<and>
     (\<forall>out \<in> set (st_sent st). delivered pb pub (st_received st) out)"

definition honest :: "protobuf \<Rightarrow> system \<Rightarrow> bool" where
  "honest pb s \<longleftrightarrow> honest_cache (sys_published s) (sys_heap s) (sys_cache s) \<and>
     (\<forall>st \<in> set (sys_streams s). honest_stream pb (sys_published s) (sys_heap s) (sys_cache s) st)"

subsection \<open>Steps of the cache\<close>

lemma genuine_mono: "genuine pub v \<Longrightarrow> set pub \<subseteq> set pub' \<Longrightarrow> genuine pub' v"
  unfolding genuine_def by blast

lemma delivered_mono:
  "delivered pb pub reqs out \<Longrightarrow> set pub \<subseteq> set pub' \<Longrightarrow> set reqs \<subseteq> set reqs' \<Longrightarrow> delivered pb pub' reqs' out"
  unfolding delivered_def using genuine_mono by blast

lemma genuine_reply:
  "(nodeID req, snap) \<in> set pub \<Longrightarrow> \<forall>j. is_order (ords j) \<Longrightarrow> outdated snap req \<Longrightarrow> genuine pub (reply ords snap req)"
  unfolding genuine_def by auto

text \<open>
  A step adds to a channel only answers to watches that were open on it, and opens no other
  watch on it.
\<close>

definition answers_only :: "chan_id \<Rightarrow> rheap \<Rightarrow> snapshot_cache \<Rightarrow> rheap \<Rightarrow> snapshot_cache \<Rightarrow> bool" where
  "answers_only ch h c h' c' \<longleftrightarrow>
     (\<forall>v. chan_holds h' ch v \<longrightarrow> chan_holds h ch v \<or>
        (\<exists>n i w. open_watch c n i = Some w \<and> w_Response w = ch \<and> rsp_Request v = w_Request w)) \<and>
     (\<forall>n i w. open_watch c' n i = Some w \<longrightarrow> w_Response w = ch \<longrightarrow> open_watch c n i = Some w)"

lemma chan_serves_step:
  assumes "chan_serves h c ch P" and "answers_only ch h c h' c'" and "\<And>req. P req \<Longrightarrow> Q req"
  shows "chan_serves h' c' ch Q"
  using assms unfolding chan_serves_def answers_only_def by metis

lemma honest_stream_step:
  assumes "honest_stream pb pub h c st" and "set pub \<subseteq> set pub'"
    and "\<And>t ch. get_chan t (st_values st) = Some ch \<Longrightarrow> answers_only ch h c h' c'"
  shows "honest_stream pb pub' h' c' st"
  using assms(1) chan_serves_step [OF _ assms(3)] delivered_mono [OF _ assms(2)]
  unfolding honest_stream_def by blast

text \<open>A turn of the stream itself: it may receive a request and send a response.\<close>

lemma honest_stream_turn:
  assumes "honest_stream pb pub h c st" and "nonces_ok st'" and "set (st_received st) \<subseteq> set (st_received st')"
    and "\<And>ch. answers_only ch h c h' c'"
    and "\<And>t. get_chan t (st_values st') = get_chan t (st_values st)"
    and "\<And>out. out \<in> set (st_sent st') \<Longrightarrow> out \<in> set (st_sent st) \<or> delivered pb pub (st_received st') out"
  shows "honest_stream pb pub h' c' st'"
proof -
  have "chan_serves h' c' ch (asked st' t)" if "get_chan t (st_values st') = Some ch" for t ch
  proof (rule chan_serves_step [OF _ assms(4)])
    show "chan_serves h c ch (asked st t)" using assms(1,5) that by (simp add: honest_stream_def)
    show "asked st t req \<Longrightarrow> asked st' t req" for req using assms(3) by (auto simp: asked_def)
  qed
  moreover have "delivered pb pub (st_received st') out" if "out \<in> set (st_sent st')" for out
    using assms(1,3) assms(6) [OF that] delivered_mono [of pb pub _ out pub] by (auto simp: honest_stream_def)
  ultimately show ?thesis using assms(2) by (simp add: honest_stream_def)
qed

lemma set_snapshot_chan:
  assumes "set_snapshot_post ords n snap h c h' c'"
  shows "h_chan h' ch = h_chan h ch \<or> (\<exists>i w. open_watch c n i = Some w \<and> w_Response w = ch \<and>
    outdated snap (w_Request w) \<and> h_chan h' ch = Some (full_chan (reply (ords i) snap (w_Request w))))"
proof (cases "\<exists>i w. open_watch c n i = Some w \<and> answered c snap (w_Request w) \<and> w_Response w = ch")
  case True
  then obtain i w where "open_watch c n i = Some w" "answered c snap (w_Request w)" "w_Response w = ch" by blast
  moreover from this have "h_chan h' ch = Some (full_chan (reply (ords i) snap (w_Request w)))"
    using assms by (auto simp: set_snapshot_post_def)
  ultimately show ?thesis by (auto simp: answered_def)
next
  case False
  then show ?thesis using assms unfolding set_snapshot_post_def by blast
qed

lemma set_snapshot_content:
  assumes "set_snapshot_post ords n snap h c h' c'" and "chan_holds h' ch v"
  shows "chan_holds h ch v \<or> (\<exists>i w. open_watch c n i = Some w \<and> w_Response w = ch \<and>
    outdated snap (w_Request w) \<and> v = reply (ords i) snap (w_Request w))"
  using set_snapshot_chan [OF assms(1), of ch] assms(2) by (auto simp: chan_holds_def full_chan_def)

lemma set_snapshot_open:
  assumes "set_snapshot_post ords n snap h c h' c'" and "heap_open h"
  shows "heap_open h'"
  unfolding heap_open_def
proof (intro allI impI)
  fix ch x assume "h_chan h' ch = Some x"
  with set_snapshot_chan [OF assms(1), of ch] assms(2) show "\<not> ch_closed x \<and> length (ch_buf x) \<le> 1"
    by (auto simp: heap_open_def full_chan_def)
qed

lemma set_snapshot_answers:
  assumes "set_snapshot_post ords n snap h c h' c'"
  shows "answers_only ch h c h' c'"
proof -
  have "open_watch c m i = Some w" if "open_watch c' m i = Some w" for m i w
    using assms that by (auto simp: set_snapshot_post_def split: option.splits if_splits)
  then show ?thesis
    unfolding answers_only_def using set_snapshot_content [OF assms] by fastforce
qed

lemma honest_cache_publish:
  assumes "honest_cache pub h c" and inv: "cache_inv h c" and post: "set_snapshot_post ords n snap h c h' c'"
    and ords: "\<forall>i j. is_order (ords i j)"
  shows "honest_cache ((n, snap) # pub) h' c'"
proof -
  have "genuine ((n, snap) # pub) v" if v: "chan_holds h' ch v" for ch v
    using set_snapshot_content [OF post v]
  proof
    assume "chan_holds h ch v"
    then have "genuine pub v" using assms(1) by (auto simp: honest_cache_def)
    then show ?thesis by (rule genuine_mono) auto
  next
    assume "\<exists>i w. open_watch c n i = Some w \<and> w_Response w = ch \<and>
      outdated snap (w_Request w) \<and> v = reply (ords i) snap (w_Request w)"
    then show ?thesis using ords cache_inv_id [OF inv] by (auto intro!: genuine_reply)
  qed
  moreover have "heap_open h'"
    using set_snapshot_open [OF post] assms(1) by (simp add: honest_cache_def)
  moreover have "(m, s) \<in> set ((n, snap) # pub)" if "map_of (snapshots c') m = Some s" for m s
    using that post assms(1) by (auto simp: set_snapshot_post_def honest_cache_def split: if_splits)
  ultimately show ?thesis unfolding honest_cache_def by blast
qed

lemma create_watch_chan:
  assumes "create_watch_post ords req h c h' c' ch k"
  shows "h_chan h' ch = Some empty_chan \<or> (\<exists>s. map_of (snapshots c) (nodeID req) = Some s \<and> outdated s req \<and>
    h_chan h' ch = Some (full_chan (reply ords s req)))"
  using assms by (cases k) (auto simp: create_watch_post_def split: option.splits if_splits)

lemma create_watch_other:
  assumes inv: "cache_inv h c" and post: "create_watch_post ords req h c h' c' ch k" and "d < h_next h"
  shows "answers_only d h c h' c'"
proof -
  have "d \<noteq> ch" and "h_chan h' d = h_chan h d"
    using post assms(3) by (auto simp: create_watch_post_def)
  moreover have "open_watch c n i = Some w" if "open_watch c' n i = Some w" "w_Response w = d" for n i w
    using post that \<open>d \<noteq> ch\<close> by (cases k) (auto simp: create_watch_post_def split: option.splits if_splits)
  ultimately show ?thesis by (simp add: answers_only_def chan_holds_def)
qed

lemma create_watch_serves:
  assumes inv: "cache_inv h c" and post: "create_watch_post ords req h c h' c' ch k"
    and "P req"
  shows "chan_serves h' c' ch P"
proof -
  have "ch = h_next h" using post by (simp add: create_watch_post_def)
  then have old: "w_Response w \<noteq> ch" if "open_watch c n i = Some w" for n i w
    using chan_ready_allocated [OF _ cache_inv_ready [OF inv that]] inv by (simp add: cache_inv_def)
  have "w_Request w = req" if "open_watch c' n i = Some w" "w_Response w = ch" for n i w
    using post that old by (cases k) (auto simp: create_watch_post_def split: option.splits if_splits)
  then show ?thesis
    using create_watch_chan [OF post] assms(3)
    by (auto simp: chan_serves_def chan_holds_def full_chan_def empty_chan_def)
qed

lemma honest_cache_create:
  assumes "honest_cache pub h c" and post: "create_watch_post ords req h c h' c' ch k"
    and ords: "\<forall>j. is_order (ords j)"
  shows "honest_cache pub h' c'"
proof -
  have other: "h_chan h' d = h_chan h d" if "d \<noteq> ch" for d
    using post that by (simp add: create_watch_post_def)
  have "genuine pub v" if "chan_holds h' d v" for d v
  proof (cases "d = ch")
    case True
    with create_watch_chan [OF post] that obtain s
      where "map_of (snapshots c) (nodeID req) = Some s" "outdated s req" "v = reply ords s req"
      by (auto simp: chan_holds_def empty_chan_def full_chan_def)
    then show ?thesis using assms(1) ords by (auto simp: honest_cache_def intro!: genuine_reply)
  next
    case False
    then show ?thesis using assms(1) that other [OF False] by (auto simp: honest_cache_def chan_holds_def)
  qed
  moreover have "heap_open h'"
    unfolding heap_open_def
  proof (intro allI impI)
    fix d x assume "h_chan h' d = Some x"
    then show "\<not> ch_closed x \<and> length (ch_buf x) \<le> 1"
      using assms(1) create_watch_chan [OF post] other [of d]
      by (cases "d = ch") (auto simp: honest_cache_def heap_open_def empty_chan_def full_chan_def)
  qed
  moreover have "snapshots c' = snapshots c" using post by (simp add: create_watch_post_def)
  ultimately show ?thesis using assms(1) by (simp add: honest_cache_def)
qed

subsection \<open>Turns of a stream\<close>

definition fewer_watches :: "snapshot_cache \<Rightarrow> snapshot_cache \<Rightarrow> bool" where
  "fewer_watches c c' \<longleftrightarrow> snapshots c' = snapshots c \<and>
     (\<forall>n i w. open_watch c' n i = Some w \<longrightarrow> open_watch c n i = Some w)"

lemma fewer_refl [simp]: "fewer_watches c c"
  by (simp add: fewer_watches_def)

lemma fewer_cancel: "fewer_watches c d \<Longrightarrow> fewer_watches c (call_cancel cancelWatch ko d)"
proof (cases ko)
  case (Some k)
  then show "fewer_watches c d \<Longrightarrow> fewer_watches c (call_cancel cancelWatch ko d)"
    by (cases k) (auto simp: fewer_watches_def call_cancel_def open_watch_cancel split: if_splits)
qed (simp add: call_cancel_def)

lemma fewer_finish: "fewer_watches c (fst (finish cbs cancelWatch res (c, st)))"
  by (simp add: fst_finish Cancel_def fewer_cancel)

lemma fewer_answers:
  "fewer_watches c c' \<Longrightarrow> (\<And>v. chan_holds h' ch v \<Longrightarrow> chan_holds h ch v) \<Longrightarrow> answers_only ch h c h' c'"
  by (auto simp: fewer_watches_def answers_only_def)

lemma recv_chan_holds: "recv ch h = (r, h') \<Longrightarrow> chan_holds h' d v \<Longrightarrow> chan_holds h d v"
  by (auto simp: recv_def chan_holds_def split: option.splits list.splits if_splits)

lemma begin_request_content:
  assumes "begin_request cbs cancelWatch incoming (c, st) = (c', st')"
  shows "fewer_watches c c' \<and> st_sent st' = st_sent st \<and> set (st_received st) \<subseteq> set (st_received st') \<and>
    (\<forall>t. get_chan t (st_values st') = get_chan t (st_values st))"
  using assms
proof (cases rule: begin_request_cases)
  case (finished res st1)
  then have "c' = fst (finish cbs cancelWatch res (c, st1))" "st' = snd (finish cbs cancelWatch res (c, st1))"
    by (metis fst_conv, metis snd_conv)
  with finished(2) show ?thesis using fewer_finish by auto
qed (auto simp: fewer_cancel)

lemma on_response_content:
  assumes "on_response pb cbs cancelWatch t res (h, c, st) = Some (h', c', st')"
  obtains ch r where "get_chan t (st_values st) = Some ch" "recv ch h = (r, h')" "fewer_watches c c'"
    "\<And>u. get_chan u (st_values st') = get_chan u (st_values st)" "st_received st' = st_received st"
    "st_sent st' = st_sent st \<or>
     (\<exists>v out. r = Received v \<and> encodes pb (type_url t) v out \<and> st_sent st' = st_sent st @ [out])"
proof -
  obtain ch r where ch: "get_chan t (st_values st) = Some ch" and r: "recv ch h = (r, h')"
    using assms by (auto simp: on_response_def split: option.splits prod.splits received.splits sum.splits)
  have fin: "fewer_watches c c' \<and> st_values st' = st_values x \<and> st_sent st' = st_sent x \<and>
      st_received st' = st_received x"
    if "finish cbs cancelWatch e (c, x) = (c', st')" for e x
    using fewer_finish [of c cbs e x] finish_fields(4,6,7) [of cbs cancelWatch e "(c, x)"] that by simp
  show thesis
  proof (cases r)
    case NotReady
    with assms ch r show thesis by (simp add: on_response_def)
  next
    case Closed
    with assms ch r show thesis using fin that [OF ch r] by (auto simp: on_response_def)
  next
    case (Received v)
    obtain q st1 where snd: "send_response pb cbs res v (type_url t) st = (q, st1)"
      by (cases "send_response pb cbs res v (type_url t) st")
    then have "st_values st1 = st_values st \<and> st_received st1 = st_received st \<and> (st_sent st1 = st_sent st \<or>
        (\<exists>out. encodes pb (type_url t) v out \<and> st_sent st1 = st_sent st @ [out]))"
      by (rule send_response_cases) auto
    with assms ch r Received snd fin show thesis
      by (intro that [OF ch r]; cases q) (fastforce simp: on_response_def)+
  qed
qed

lemma honest_cache_turn:
  assumes "honest_cache pub h c" and "fewer_watches c c'" and "heap_open h'"
    and "\<And>ch v. chan_holds h' ch v \<Longrightarrow> chan_holds h ch v"
  shows "honest_cache pub h' c'"
  using assms(1-3) assms(4) unfolding honest_cache_def fewer_watches_def by simp blast

lemma honest_turn:
  assumes hon: "honest pb s" and i: "i < length (sys_streams s)"
    and cache: "honest_cache (sys_published s) h c"
    and others: "\<And>st t ch. st \<in> set (sys_streams s) \<Longrightarrow> get_chan t (st_values st) = Some ch \<Longrightarrow>
      answers_only ch (sys_heap s) (sys_cache s) h c"
    and st: "honest_stream pb (sys_published s) h c st"
  shows "honest pb (put_stream i (h, c, st) s)"
proof -
  have "honest_stream pb (sys_published s) h c x" if "x \<in> set ((sys_streams s)[i := st])" for x
  proof (cases "x = st")
    case False
    then have "x \<in> set (sys_streams s)" using that set_update_subset_insert by fastforce
    then show ?thesis
      using hon by (intro honest_stream_step [OF _ _ others]) (auto simp: honest_def)
  qed (simp add: st)
  then show ?thesis using cache by (simp add: honest_def)
qed

lemma honestD:
  assumes "honest pb s"
  shows "honest_cache (sys_published s) (sys_heap s) (sys_cache s)"
    and "i < length (sys_streams s) \<Longrightarrow>
      honest_stream pb (sys_published s) (sys_heap s) (sys_cache s) (sys_streams s ! i)"
  using assms by (auto simp: honest_def)

lemma honest_response:
  assumes hon: "honest pb s" and i: "i < length (sys_streams s)" "running (sys_streams s ! i)"
    and step: "on_response pb (sys_callbacks s) cancelWatch t res (sys_heap s, sys_cache s, sys_streams s ! i)
      = Some (h, c, st)"
  shows "honest pb (put_stream i (h, c, st) s)"
  using step
proof (rule on_response_content)
  let ?old = "sys_streams s ! i"
  fix ch r
  assume ch: "get_chan t (st_values ?old) = Some ch" and r: "recv ch (sys_heap s) = (r, h)"
    and c: "fewer_watches (sys_cache s) c" and chans: "\<And>u. get_chan u (st_values st) = get_chan u (st_values ?old)"
    and recd: "st_received st = st_received ?old"
    and sent: "st_sent st = st_sent ?old \<or>
      (\<exists>v out. r = Received v \<and> encodes pb (type_url t) v out \<and> st_sent st = st_sent ?old @ [out])"
  note old = honestD(2) [OF hon i(1)]
  have ans: "answers_only d (sys_heap s) (sys_cache s) h c" for d
    using c recv_chan_holds [OF r] by (rule fewer_answers)
  have cache: "honest_cache (sys_published s) h c"
    using honestD(1) [OF hon] c _ recv_chan_holds [OF r]
    by (rule honest_cache_turn) (use recv_heap_open [OF r] honestD(1) [OF hon] in \<open>simp add: honest_cache_def\<close>)
  have "delivered pb (sys_published s) (st_received st) out" if "r = Received v" "encodes pb (type_url t) v out" for v out
  proof -
    have "chan_holds (sys_heap s) ch v"
      using recv_Received r that(1) by (auto simp: chan_holds_def)
    then have "genuine (sys_published s) v" "asked ?old t (rsp_Request v)"
      using honestD(1) [OF hon] old ch by (auto simp: honest_cache_def honest_stream_def chan_serves_def)
    then show ?thesis using that(2) recd by (auto simp: delivered_def asked_def)
  qed
  then have "out \<in> set (st_sent ?old) \<or> delivered pb (sys_published s) (st_received st) out"
    if "out \<in> set (st_sent st)" for out
    using sent that by auto
  moreover have "nonces_ok st"
    using on_response_nonces [OF _ i(2) step] old by (simp add: honest_stream_def)
  ultimately have "honest_stream pb (sys_published s) h c st"
    using recd chans by (intro honest_stream_turn [OF old _ _ ans]) auto
  with hon i(1) cache ans show ?thesis by (intro honest_turn)
qed

lemma honest_request:
  assumes hon: "honest pb s" and i: "i < length (sys_streams s)" "running (sys_streams s ! i)"
    and step: "begin_request (sys_callbacks s) cancelWatch incoming (sys_cache s, sys_streams s ! i) = (c, st)"
  shows "honest pb (put_stream i (sys_heap s, c, st) s)"
proof -
  note c = begin_request_content [OF step]
  note old = honestD(2) [OF hon i(1)]
  have ans: "answers_only d (sys_heap s) (sys_cache s) (sys_heap s) c" for d
    using c by (intro fewer_answers) auto
  have cache: "honest_cache (sys_published s) (sys_heap s) c"
    using c honestD(1) [OF hon] by (intro honest_cache_turn [OF honestD(1) [OF hon]]) (auto simp: honest_cache_def)
  have "honest_stream pb (sys_published s) (sys_heap s) c st"
    using c old begin_request_nonces [OF _ i(2) step]
    by (intro honest_stream_turn [OF old _ _ ans]) (auto simp: honest_stream_def)
  with hon i(1) cache ans show ?thesis by (intro honest_turn)
qed

lemma honest_create:
  assumes hon: "honest pb s" and safe: "safe n s" "n < id_limit" and i: "i < length (sys_streams s)"
    and e: "legal_orders e"
    and step: "create_request (\<lambda>e. CreateWatch (fst e) (snd e)) e (sys_heap s, sys_cache s, sys_streams s ! i)
      = Inr (h, c, st)"
  shows "honest pb (put_stream i (h, c, st) s)"
  using step
proof (cases rule: create_request_cases)
  case idle
  then show ?thesis
    using hon i by (cases s) (simp add: put_stream_def)
next
  case (created t req ch k)
  let ?old = "sys_streams s ! i"
  note old = honestD(2) [OF hon i]
  note inv = safe_cache_inv [OF safe(1)]
  have left: "ids_issued (sys_cache s) < id_limit" using safe_issued [OF safe(1)] safe(2) by simp
  have post: "create_watch_post (snd e) req (sys_heap s) (sys_cache s) h c ch k"
    using CreateWatch_post [OF inv left e created(2)] by blast
  have ty: "asked st t req"
    using safe_stream [OF safe(1) nth_mem [OF i]] created(1) by (simp add: sc.stream_inv_def asked_def created(3))
  have ans: "answers_only d (sys_heap s) (sys_cache s) h c"
    if "x \<in> set (sys_streams s)" "get_chan u (st_values x) = Some d" for x u d
    using create_watch_other [OF inv post] safe_stream [OF safe(1) that(1)] that(2) by (simp add: sc.stream_inv_def)
  have "honest_stream pb (sys_published s) h c ?old"
    using honest_stream_step [OF old _ ans [OF nth_mem [OF i]]] by simp
  then have "honest_stream pb (sys_published s) h c st"
    using create_watch_serves [where P = "asked st t", OF inv post ty] nonces_ok_same [of ?old st]
    by (auto simp: honest_stream_def asked_def [abs_def] created(3))
  moreover have "honest_cache (sys_published s) h c"
    using honest_cache_create [OF honestD(1) [OF hon] post] e by (simp add: legal_orders_def)
  ultimately show ?thesis using hon i ans by (intro honest_turn)
qed

subsection \<open>Every reachable state is honest\<close>

lemma honest_other:
  assumes hon: "honest pb s" and "honest_cache (sys_published t) (sys_heap t) (sys_cache t)"
    and "sys_streams t = sys_streams s" and "set (sys_published s) \<subseteq> set (sys_published t)"
    and "\<And>ch. answers_only ch (sys_heap s) (sys_cache s) (sys_heap t) (sys_cache t)"
  shows "honest pb t"
  using assms honest_stream_step [OF _ assms(4,5)] by (simp add: honest_def)

lemma honest_step:
  assumes hon: "honest pb s" and safe: "safe n s" "n < id_limit" and "sys_step pb s t"
  shows "honest pb t"
  using assms(4)
proof cases
  case (open_stream m srv c st)
  have "honest_stream pb (sys_published s) (sys_heap s) c st"
    using process_start_fields [OF open_stream(2)] by (simp add: honest_stream_def)
  then show ?thesis
    using hon process_start_fields(1) [OF open_stream(2)] by (simp add: honest_def open_stream(1))
next
  case (response i ty res r)
  then show ?thesis using honest_response [OF hon] by (cases r) blast
next
  case (request i incoming r)
  then show ?thesis using honest_request [OF hon] by (cases r) simp
next
  case (create i p e r)
  then show ?thesis using honest_create [OF hon safe] by (cases r) blast
next
  case (publish snap word ords m h c)
  have post: "set_snapshot_post ords m snap (sys_heap s) (sys_cache s) h c"
    using SetSnapshot_inv [OF safe_cache_inv [OF safe(1)] publish(2,3), of ords m] publish(4,5) by auto
  show ?thesis
    by (rule honest_other [OF hon])
      (use publish(1,4) set_snapshot_answers [OF post]
        honest_cache_publish [OF honestD(1) [OF hon] safe_cache_inv [OF safe(1)] post] in auto)
next
  case (clear m)
  have "answers_only ch (sys_heap s) (sys_cache s) (sys_heap s) (ClearSnapshot m (sys_cache s))" for ch
    by (simp add: answers_only_def open_watch_clear)
  moreover have "honest_cache (sys_published s) (sys_heap s) (ClearSnapshot m (sys_cache s))"
    using honestD(1) [OF hon] by (auto simp: honest_cache_def ClearSnapshot_def split: if_splits)
  ultimately show ?thesis using clear by (intro honest_other [OF hon]) auto
qed

lemma honest_init: "honest pb (init_system cbs b)"
  by (simp add: honest_def honest_cache_def init_system_def NewSnapshotCache_def chan_holds_def empty_heap_def
      heap_open_def)

lemma reach_honest: "reach pb cbs b n s \<Longrightarrow> n \<le> id_limit \<Longrightarrow> honest pb s"
proof (induction rule: reach.induct)
  case reach_init
  show ?case by (rule honest_init)
next
  case (reach_step n s t)
  then show ?case using honest_step [OF _ reach_safe [OF reach_step.hyps(1)]] by simp
qed

text \<open>The resources in a genuine response: the published ones the request names, or all.\<close>

lemma genuine_resources:
  assumes "genuine pub v" and "\<And>n s. (n, s) \<in> set pub \<Longrightarrow> snapshot_wf s"
  shows "\<exists>snap. (nodeID (rsp_Request v), snap) \<in> set pub \<and>
    rsp_Version v = GetVersion (Some snap) (req_TypeUrl (rsp_Request v)) \<and>
    rsp_Version v \<noteq> req_VersionInfo (rsp_Request v) \<and>
    set (rsp_Resources v) = {r. \<exists>x. map_of (GetResources (Some snap) (req_TypeUrl (rsp_Request v))) x = Some r \<and>
      (req_ResourceNames (rsp_Request v) = [] \<or> x \<in> set (req_ResourceNames (rsp_Request v)))}"
proof -
  obtain snap ords where *: "(nodeID (rsp_Request v), snap) \<in> set pub" "\<forall>j. is_order (ords j)"
      "outdated snap (rsp_Request v)" "v = reply ords snap (rsp_Request v)"
    using assms(1) by (auto simp: genuine_def)
  have "snapshot_wf snap" using assms(2) *(1) by blast
  note reply_resources [where ords = ords, OF spec [OF *(2)] this, of "rsp_Request v"]
  with * show ?thesis
    by (intro exI [of _ snap]) (metis outdated_def reply_fields(2))
qed

lemma reach_published_wf: "reach pb cbs b n s \<Longrightarrow> \<forall>(m, snap) \<in> set (sys_published s). snapshot_wf snap"
proof (induction rule: reach.induct)
  case reach_init
  show ?case by (simp add: init_system_def)
next
  case (reach_step n s t)
  from reach_step.hyps(2) show ?case
    using reach_step.IH by cases (auto simp: put_stream_def case_prod_beta)
qed

subsection \<open>From a watch to the wire\<close>

text \<open>The stream that waits on an open watch, and what it sends when the channel is full.\<close>

lemma watch_stream:
  assumes "reach pb cbs b n s" and "n \<le> id_limit" and "open_watch (sys_cache s) node i = Some w"
  obtains j t where "j < length (sys_streams s)" "running (sys_streams s ! j)"
    "get_cancel t (st_values (sys_streams s ! j)) = Some (CancelWatch node i)"
    "get_chan t (st_values (sys_streams s ! j)) = Some (w_Response w)"
    "req_TypeUrl (w_Request w) = type_url t"
proof -
  note safe = reach_safe [OF assms(1,2)]
  obtain j t where j: "j < length (sys_streams s)" "running (sys_streams s ! j)"
      "get_cancel t (st_values (sys_streams s ! j)) = Some (CancelWatch node i)"
    using safe_held [OF safe, of "CancelWatch node i"] assms(3) by (auto simp: in_set_conv_nth holds_def)
  have chan: "get_chan t (st_values (sys_streams s ! j)) = Some (w_Response w)"
    using safe_stream [OF safe nth_mem [OF j(1)]] j(3) assms(3) by (auto simp: sc.stream_inv_def)
  have "req_TypeUrl (w_Request w) = type_url t"
    using honestD(2) [OF reach_honest [OF assms(1,2)] j(1)] chan assms(3)
    unfolding honest_stream_def chan_serves_def asked_def by blast
  with j chan show thesis by (rule that)
qed

lemma on_response_full:
  assumes "get_chan t (st_values st) = Some ch" and "h_chan h ch = Some (full_chan v)" and "running st"
    and "marshal_all pb (type_url t) (rsp_Resources v) = Inr data"
  shows "\<exists>h' st'. on_response pb cbs cancelWatch t None (h, c, st) = Some (h', c, st') \<and> running st' \<and>
    st_sent st' = st_sent st @ [\<lparr>dr_VersionInfo = rsp_Version v, dr_Resources = data, dr_TypeUrl = type_url t,
      dr_Nonce = FormatInt (sint (st_nonce st + 1))\<rparr>]"
  using assms recv_full [OF assms(2)]
  by (auto simp: on_response_def send_response_def server_createResponse_def Let_def)

lemma on_response_unmarshalled:
  assumes "get_chan t (st_values st) = Some ch" and "h_chan h ch = Some (full_chan v)"
    and "marshal_all pb (type_url t) (rsp_Resources v) = Inl err"
  shows "\<exists>h' c' st'. on_response pb cbs cancelWatch t None (h, c, st) = Some (h', c', st') \<and>
    st_result st' = Some (Some err) \<and> st_sent st' = st_sent st"
  using assms recv_full [OF assms(2)]
  by (auto simp: on_response_def send_response_def server_createResponse_def finish_def)

end
