(* ===== verification/Annotations.thy ===== *)
theory Annotations
  imports GoStrings Envoy
begin

text \<open>
  \<open>pkg/provider/provider.go\<close>, \<open>cluster.go\<close>, \<open>endpoint.go\<close> and \<open>util.go\<close>: the clusters and
  endpoints a service provider reports, and the configuration read from their annotations.
  Go's \<open>int\<close> and \<open>time.Duration\<close> are 64-bit words, so the conversions to \<open>uint32\<close> and
  the multiplication with \<open>time.Millisecond\<close> wrap as in the code.

  Main results: the endpoint weight is always between 1 and 128 (\<open>weight_range\<close>), the merged
  annotations of a cluster are those of its last endpoint that has the key, in whatever order
  the maps are visited (\<open>mergeAnnotations_lookup\<close>), what any value of a numeric
  annotation means (\<open>getUInt32_cases\<close>, \<open>getDuration_cases\<close>), and the status range is
  never read: a well-formed range is an index out of range
  (\<open>parseInt64RangeWithFallback_eq\<close>).
\<close>

subsection \<open>Names\<close>

definition AnnotationHealthCheckPath :: string where "AnnotationHealthCheckPath = ''healthcheck.path''"
definition AnnotationHealthInterval :: string where "AnnotationHealthInterval = ''healthcheck.interval''"
definition AnnotationHealthCacheDuration :: string where "AnnotationHealthCacheDuration = ''healthcheck.cache''"
definition AnnotationHealthTimeout :: string where "AnnotationHealthTimeout = ''healthcheck.timeout''"
definition AnnotationHealthPort :: string where "AnnotationHealthPort = ''healthcheck.port''"
definition AnnotationHealthExpectedStatus :: string where
  "AnnotationHealthExpectedStatus = ''healthcheck.expected-status''"
definition AnnotaionCBMaxConn :: string where "AnnotaionCBMaxConn = ''circuit-breaker.max-connections''"
definition AnnotaionCBMaxPending :: string where "AnnotaionCBMaxPending = ''circuit-breaker.max-pending''"
definition AnnotaionCBMaxRequests :: string where "AnnotaionCBMaxRequests = ''circuit-breaker.max-requests''"
definition AnnotaionCBMaxRetries :: string where "AnnotaionCBMaxRetries = ''circuit-breaker.max-retries''"
definition AnnotaionEndpointWeight :: string where "AnnotaionEndpointWeight = ''endpoint.weight''"
definition AnnotaionFaultInject :: string where "AnnotaionFaultInject = ''fault.inject''"
definition AnnotaionFaultDelayPercent :: string where "AnnotaionFaultDelayPercent = ''fault.delay.percent''"
definition AnnotaionFaultDelayDuration :: string where "AnnotaionFaultDelayDuration = ''fault.delay.duration''"
definition AnnotaionFaultAbortPercent :: string where "AnnotaionFaultAbortPercent = ''fault.abort.percent''"
definition AnnotaionFaultAbortCode :: string where "AnnotaionFaultAbortCode = ''fault.abort.code''"

lemmas annotation_names =
  AnnotationHealthCheckPath_def AnnotationHealthInterval_def AnnotationHealthCacheDuration_def
  AnnotationHealthTimeout_def AnnotationHealthPort_def AnnotationHealthExpectedStatus_def
  AnnotaionCBMaxConn_def AnnotaionCBMaxPending_def AnnotaionCBMaxRequests_def AnnotaionCBMaxRetries_def
  AnnotaionEndpointWeight_def AnnotaionFaultInject_def AnnotaionFaultDelayPercent_def
  AnnotaionFaultDelayDuration_def AnnotaionFaultAbortPercent_def AnnotaionFaultAbortCode_def

definition defaultHealthCheckPath :: string where "defaultHealthCheckPath = ''/healthz''"
definition defaultHealthTimeout :: int64 where "defaultHealthTimeout = 3000"
definition defaultHealthInterval :: int64 where "defaultHealthInterval = 10000"
definition defaultHealthCacheDuration :: int64 where "defaultHealthCacheDuration = 30000"

definition defaultEgressTrafficPort :: uint32 where "defaultEgressTrafficPort = 4000"
definition defaultIngressTrafficPort :: uint32 where "defaultIngressTrafficPort = 4100"

text \<open>\<open>time.Millisecond\<close>, in nanoseconds.\<close>

definition Millisecond :: int64 where "Millisecond = 1000000"

subsection \<open>Data\<close>

type_synonym annotations = "(string, string) gomap"

record endpoint =
  ep_Address :: string
  ep_Annotations :: annotations
  ep_Port :: uint32

record endpoint_config =
  Weight :: uint32

record cluster =
  clu_Name :: string
  clu_Endpoints :: "endpoint list"

type_synonym provider_clusters = "(string, cluster list) gomap"

record health_check_config =
  Path :: string
  Timeout :: int64
  Interval :: int64
  CacheDuration :: int64
  hc_Port :: uint32
  ExpectedStatusLower :: int64
  ExpectedStatusUpper :: int64

record circuit_breaker_config =
  MaxConnections :: uint32
  MaxPendingRequests :: uint32
  MaxRequests :: uint32
  MaxRetries :: uint32

record fault_config =
  Enabled :: bool
  DelayDuration :: int64
  DelayChance :: uint32
  AbortCode :: uint32
  AbortChance :: uint32

record cluster_config =
  cc_HealthCheck :: health_check_config
  cc_CircuitBreaker :: circuit_breaker_config
  cc_FaultConfig :: fault_config

subsection \<open>Parsing\<close>

definition parseIntWithFallback :: "string \<Rightarrow> int64 \<Rightarrow> int64" where
  "parseIntWithFallback val fallback = (case Atoi val of None \<Rightarrow> fallback | Some num \<Rightarrow> of_int num)"

text \<open>The code reads \<open>list[2]\<close> of a slice of length 2.\<close>

definition parseInt64RangeWithFallback :: "string \<Rightarrow> int64 \<Rightarrow> int64 \<Rightarrow> (int64 \<times> int64) go" where
  "parseInt64RangeWithFallback val fallback1 fallback2 =
     (let list = Split val ''-'' in
      if length list \<noteq> 2 then Inr (fallback1, fallback2)
      else go_bind (go_nth list 0) (\<lambda>s1.
        case ParseInt s1 of
          None \<Rightarrow> Inr (fallback1, fallback2)
        | Some num1 \<Rightarrow>
            go_bind (go_nth list 2) (\<lambda>s2.
              case ParseInt s2 of
                None \<Rightarrow> Inr (fallback1, fallback2)
              | Some num2 \<Rightarrow> Inr (of_int num1, of_int num2))))"

definition getUInt32 :: "annotations \<Rightarrow> string \<Rightarrow> uint32 \<Rightarrow> uint32" where
  "getUInt32 ann key fallback =
     (case map_of ann key of
        Some v \<Rightarrow> let num = parseIntWithFallback v (- 1) in if 0 < sint num then ucast num else fallback
      | None \<Rightarrow> fallback)"

definition getDurationMilliseconds :: "annotations \<Rightarrow> string \<Rightarrow> int64 \<Rightarrow> int64" where
  "getDurationMilliseconds ann key fallback =
     (case map_of ann key of
        Some v \<Rightarrow>
          let num = parseIntWithFallback v (- 1)
          in if 0 < sint num then Millisecond * num else Millisecond * fallback
      | None \<Rightarrow> Millisecond * fallback)"

definition getString :: "annotations \<Rightarrow> string \<Rightarrow> string \<Rightarrow> string" where
  "getString ann key fallback = (case map_of ann key of Some val \<Rightarrow> val | None \<Rightarrow> fallback)"

definition getBool :: "annotations \<Rightarrow> string \<Rightarrow> bool \<Rightarrow> bool" where
  "getBool ann key fallback = (if mhas ann key then True else fallback)"

subsection \<open>Configuration\<close>

definition parseEndpointAnnotations :: "endpoint \<Rightarrow> endpoint_config" where
  "parseEndpointAnnotations e =
     (let weight = getUInt32 (ep_Annotations e) AnnotaionEndpointWeight 64;
          weight = (if weight = 0 \<or> weight > 128 then 64 else weight)
      in \<lparr>Weight = weight\<rparr>)"

definition Endpoint_Config :: "endpoint \<Rightarrow> endpoint_config" where
  "Endpoint_Config e = parseEndpointAnnotations e"

text \<open>\<open>ords i\<close> is the order in which the annotations of the endpoint number \<open>i\<close> are visited.\<close>

fun merge_from :: "(nat \<Rightarrow> string order) \<Rightarrow> nat \<Rightarrow> endpoint list \<Rightarrow> annotations \<Rightarrow> annotations" where
  "merge_from ords i [] out = out"
| "merge_from ords i (ep # eps) out =
     merge_from ords (Suc i) eps (fold (\<lambda>(k, v). mput k v) (mrange (ords i) (ep_Annotations ep)) out)"

definition mergeAnnotations :: "(nat \<Rightarrow> string order) \<Rightarrow> cluster \<Rightarrow> annotations" where
  "mergeAnnotations ords cluster = merge_from ords 0 (clu_Endpoints cluster) []"

definition parseClusterAnnotations :: "annotations \<Rightarrow> cluster_config go" where
  "parseClusterAnnotations ann =
     go_bind
       (parseInt64RangeWithFallback
          (case map_of ann AnnotationHealthExpectedStatus of None \<Rightarrow> [] | Some v \<Rightarrow> v) 200 400)
       (\<lambda>(lower, upper). Inr
         \<lparr>cc_HealthCheck = \<lparr>
            Path = getString ann AnnotationHealthCheckPath defaultHealthCheckPath,
            Timeout = getDurationMilliseconds ann AnnotationHealthTimeout defaultHealthTimeout,
            Interval = getDurationMilliseconds ann AnnotationHealthInterval defaultHealthInterval,
            CacheDuration = getDurationMilliseconds ann AnnotationHealthCacheDuration defaultHealthCacheDuration,
            hc_Port = getUInt32 ann AnnotationHealthPort 0,
            ExpectedStatusLower = lower,
            ExpectedStatusUpper = upper\<rparr>,
          cc_CircuitBreaker = \<lparr>
            MaxConnections = getUInt32 ann AnnotaionCBMaxConn 1000,
            MaxPendingRequests = getUInt32 ann AnnotaionCBMaxPending 1000,
            MaxRequests = getUInt32 ann AnnotaionCBMaxRequests 1000,
            MaxRetries = getUInt32 ann AnnotaionCBMaxRetries 3\<rparr>,
          cc_FaultConfig = \<lparr>
            Enabled = getBool ann AnnotaionFaultInject False,
            DelayDuration = getDurationMilliseconds ann AnnotaionFaultDelayDuration 30,
            DelayChance = getUInt32 ann AnnotaionFaultDelayPercent 0,
            AbortCode = getUInt32 ann AnnotaionFaultAbortCode 503,
            AbortChance = getUInt32 ann AnnotaionFaultAbortPercent 0\<rparr>\<rparr>)"

text \<open>\<open>Cluster_Config_ordered_eq\<close> below shows that the orders do not matter, so the other components use \<open>Cluster_Config\<close>.\<close>

definition Cluster_Config_ordered :: "(nat \<Rightarrow> string order) \<Rightarrow> cluster \<Rightarrow> cluster_config go" where
  "Cluster_Config_ordered ords c = parseClusterAnnotations (mergeAnnotations ords c)"

definition Cluster_Config :: "cluster \<Rightarrow> cluster_config go" where
  "Cluster_Config c = Cluster_Config_ordered (\<lambda>_. id) c"

definition makeEgressEndpoints :: "endpoint list \<Rightarrow> endpoint list" where
  "makeEgressEndpoints eps =
     map (\<lambda>ep. \<lparr>ep_Address = ep_Address ep, ep_Annotations = ep_Annotations ep,
       ep_Port = defaultIngressTrafficPort\<rparr>) eps"

definition makeEgressClusters :: "cluster list \<Rightarrow> cluster list" where
  "makeEgressClusters cs =
     map (\<lambda>cluster. \<lparr>clu_Name = clu_Name cluster,
       clu_Endpoints = makeEgressEndpoints (clu_Endpoints cluster)\<rparr>) cs"

subsection \<open>Numbers\<close>

lemma parseIntWithFallback_decimal:
  "- (2 ^ 63) \<le> i \<Longrightarrow> i < 2 ^ 63 \<Longrightarrow> parseIntWithFallback (FormatInt i) fallback = of_int i"
  by (simp add: parseIntWithFallback_def ParseInt_FormatInt)

lemma sint_of_int64: "- (2 ^ 63) \<le> i \<Longrightarrow> i < 2 ^ 63 \<Longrightarrow> sint (of_int i :: int64) = i"
  by (simp add: signed_of_int signed_take_bit_int_eq_self)

text \<open>A parsed number keeps its value; the fallback \<open>-1\<close> of the callers is never positive.\<close>

lemma sint_parseInt:
  "sint (parseIntWithFallback v fallback) = (case Atoi v of None \<Rightarrow> sint fallback | Some i \<Rightarrow> i)"
  using ParseInt_range [of v] by (auto simp: parseIntWithFallback_def sint_of_int64 split: option.split)

lemma getUInt32_cases:
  "getUInt32 ann key fallback =
     (case map_of ann key of
        None \<Rightarrow> fallback
      | Some v \<Rightarrow> (case Atoi v of Some i \<Rightarrow> if 0 < i then of_int i else fallback | None \<Rightarrow> fallback))"
proof -
  have "ucast (of_int i :: int64) = (of_int i :: uint32)" for i
    by (rule bit_word_eqI) (simp add: bit_unsigned_iff bit_of_int_iff bit_simps)
  then show ?thesis
    unfolding getUInt32_def Let_def sint_parseInt by (simp add: parseIntWithFallback_def split: option.split)
qed

lemma getDuration_cases:
  "getDurationMilliseconds ann key fallback = Millisecond *
     (case map_of ann key of
        None \<Rightarrow> fallback
      | Some v \<Rightarrow> (case Atoi v of Some i \<Rightarrow> if 0 < i then of_int i else fallback | None \<Rightarrow> fallback))"
  unfolding getDurationMilliseconds_def Let_def sint_parseInt
  by (simp add: parseIntWithFallback_def split: option.split)

lemma getUInt32_decimal:
  assumes "map_of ann key = Some (FormatInt i)" and "0 < i" and "i < 2 ^ 32"
  shows "uint (getUInt32 ann key fallback) = i"
  using assms by (simp add: getUInt32_cases ParseInt_FormatInt take_bit_int_eq_self unsigned_of_int)

lemma getDuration_decimal:
  assumes "map_of ann key = Some (FormatInt i)" and "0 < i" and "i \<le> 9223372036854"
  shows "sint (getDurationMilliseconds ann key fallback) = 1000000 * i"
proof -
  have "getDurationMilliseconds ann key fallback = of_int (1000000 * i)"
    using assms by (simp add: getDuration_cases ParseInt_FormatInt Millisecond_def)
  moreover have "- (2 ^ 63) \<le> 1000000 * i" "1000000 * i < 2 ^ 63" using assms by auto
  ultimately show ?thesis using sint_of_int64 by presburger
qed

subsection \<open>The endpoint weight\<close>

lemma weight_range: "1 \<le> Weight (Endpoint_Config e) \<and> Weight (Endpoint_Config e) \<le> 128"
proof -
  have "w \<noteq> 0 \<Longrightarrow> 1 \<le> w" for w :: uint32
    by (simp add: word_le_nat_alt Suc_le_eq unat_gt_0)
  then show ?thesis
    by (auto simp: Endpoint_Config_def parseEndpointAnnotations_def Let_def)
qed

lemma weight_decimal:
  assumes "map_of (ep_Annotations e) AnnotaionEndpointWeight = Some (FormatInt i)" and "1 \<le> i" and "i \<le> 128"
  shows "uint (Weight (Endpoint_Config e)) = i"
proof -
  have w: "uint (getUInt32 (ep_Annotations e) AnnotaionEndpointWeight 64) = i"
    using assms by (intro getUInt32_decimal) auto
  then have "getUInt32 (ep_Annotations e) AnnotaionEndpointWeight 64 \<noteq> 0"
    "\<not> 128 < getUInt32 (ep_Annotations e) AnnotaionEndpointWeight 64"
    using assms by (auto simp: word_less_def)
  then show ?thesis using w by (simp add: Endpoint_Config_def parseEndpointAnnotations_def Let_def)
qed

subsection \<open>Merged annotations\<close>

text \<open>The annotation of the last endpoint that has the key.\<close>

fun last_annotation :: "endpoint list \<Rightarrow> string \<Rightarrow> string option" where
  "last_annotation [] k = None"
| "last_annotation (ep # eps) k =
     (case last_annotation eps k of Some v \<Rightarrow> Some v | None \<Rightarrow> map_of (ep_Annotations ep) k)"

abbreviation annotations_wf :: "endpoint list \<Rightarrow> bool" where
  "annotations_wf eps \<equiv> \<forall>ep \<in> set eps. map_wf (ep_Annotations ep)"

lemma fold_put_range:
  assumes "is_order ord" and "map_wf m"
  shows "map_of (fold (\<lambda>(k, v). mput k v) (mrange ord m) out) k =
    (case map_of m k of Some v \<Rightarrow> Some v | None \<Rightarrow> map_of out k)"
proof -
  have "map_of (rev (mrange ord m)) = map_of m"
    using map_wf_mrange [OF assms] map_of_mrange [OF assms] by (metis map_of_rev_wf)
  then show ?thesis
    using gm.get_fold_put [of fst snd "mrange ord m" out] by (simp add: case_prod_beta' map_add_def)
qed

lemma merge_from_lookup:
  assumes "\<And>i. is_order (ords i)" and "annotations_wf eps"
  shows "map_of (merge_from ords i eps out) k =
    (case last_annotation eps k of Some v \<Rightarrow> Some v | None \<Rightarrow> map_of out k)"
  using assms(2)
proof (induction eps arbitrary: i out)
  case (Cons ep eps)
  then show ?case
    using fold_put_range [OF assms(1), of "ep_Annotations ep"] by (auto split: option.splits)
qed simp

lemma mergeAnnotations_lookup:
  assumes "\<And>i. is_order (ords i)" and "annotations_wf (clu_Endpoints c)"
  shows "map_of (mergeAnnotations ords c) = last_annotation (clu_Endpoints c)"
  by (rule ext) (simp add: mergeAnnotations_def merge_from_lookup [OF assms] split: option.split)

text \<open>The configuration only depends on lookups.\<close>

lemma parseClusterAnnotations_cong:
  "map_of a = map_of b \<Longrightarrow> parseClusterAnnotations a = parseClusterAnnotations b"
  unfolding parseClusterAnnotations_def getString_def getUInt32_def getDurationMilliseconds_def getBool_def
  by (simp only:)

lemma Cluster_Config_ordered_eq:
  assumes "\<And>i. is_order (ords i)" and "annotations_wf (clu_Endpoints c)"
  shows "Cluster_Config_ordered ords c = Cluster_Config c"
  unfolding Cluster_Config_def Cluster_Config_ordered_def
  by (rule parseClusterAnnotations_cong) (simp add: mergeAnnotations_lookup assms)

subsection \<open>The status range\<close>

text \<open>The values on which the code indexes out of range: two parts, the first one a number.\<close>

definition range_stops :: "string \<Rightarrow> bool" where
  "range_stops val \<longleftrightarrow> length (Split val ''-'') = 2 \<and> ParseInt (hd (Split val ''-'')) \<noteq> None"

lemma parseInt64RangeWithFallback_eq:
  "parseInt64RangeWithFallback val fallback1 fallback2 =
     (if range_stops val then Inl IndexOutOfRange else Inr (fallback1, fallback2))"
  by (auto simp: parseInt64RangeWithFallback_def range_stops_def Let_def hd_conv_nth split: option.split)

lemma range_stops_decimal: "0 \<le> i \<Longrightarrow> i < 2 ^ 63 \<Longrightarrow> CHR ''-'' \<notin> set t \<Longrightarrow> range_stops (FormatInt i @ ''-'' @ t)"
proof -
  assume a: "0 \<le> i" "i < 2 ^ 63" "CHR ''-'' \<notin> set t"
  have "CHR ''-'' \<notin> set (FormatInt i)"
    using a(1) format_nat_digits [of "CHR ''-''" "nat i"] by (auto simp: FormatInt_def is_digit_def)
  then have "Split (FormatInt i @ ''-'' @ t) ''-'' = [FormatInt i, t]"
    using Split_cut [of "CHR ''-''" "FormatInt i" "[]" t] Split_clean [of "CHR ''-''" t "[]"] a(3) by simp
  then show ?thesis using ParseInt_FormatInt [of i] a by (simp add: range_stops_def)
qed

text \<open>The expected status that a cluster's configuration reads.\<close>

definition expected_status :: "cluster \<Rightarrow> string" where
  "expected_status c =
     (case last_annotation (clu_Endpoints c) AnnotationHealthExpectedStatus of None \<Rightarrow> [] | Some v \<Rightarrow> v)"

lemma Cluster_Config_returns:
  assumes "annotations_wf (clu_Endpoints c)"
  shows "(\<exists>cfg. Cluster_Config c = Inr cfg) \<longleftrightarrow> \<not> range_stops (expected_status c)"
    and "range_stops (expected_status c) \<Longrightarrow> Cluster_Config c = Inl IndexOutOfRange"
proof -
  have "map_of (mergeAnnotations (\<lambda>_. id) c) = last_annotation (clu_Endpoints c)"
    using assms by (intro mergeAnnotations_lookup) auto
  then show "(\<exists>cfg. Cluster_Config c = Inr cfg) \<longleftrightarrow> \<not> range_stops (expected_status c)"
    "range_stops (expected_status c) \<Longrightarrow> Cluster_Config c = Inl IndexOutOfRange"
    by (simp_all add: Cluster_Config_def Cluster_Config_ordered_def parseClusterAnnotations_def expected_status_def
        parseInt64RangeWithFallback_eq)
qed

lemma Cluster_Config_status:
  "Cluster_Config c = Inr cfg \<Longrightarrow> ExpectedStatusLower (cc_HealthCheck cfg) = 200 \<and> ExpectedStatusUpper (cc_HealthCheck cfg) = 400"
  by (auto simp: Cluster_Config_def Cluster_Config_ordered_def parseClusterAnnotations_def parseInt64RangeWithFallback_eq
      go_bind_eq_Inr split: if_splits)

text \<open>
  What a service provider returns: the clusters of each node. It is a Go map, and so are the
  annotations of its endpoints; \<open>readable\<close> excludes the status ranges that stop the code.
\<close>

definition provider_wf :: "provider_clusters \<Rightarrow> bool" where
  "provider_wf pc \<longleftrightarrow> map_wf pc \<and> (\<forall>(name, cs) \<in> set pc. \<forall>c \<in> set cs. annotations_wf (clu_Endpoints c))"

definition readable :: "provider_clusters \<Rightarrow> bool" where
  "readable pc \<longleftrightarrow> (\<forall>(name, cs) \<in> set pc. \<forall>c \<in> set cs. \<not> range_stops (expected_status c))"

lemma provider_wfD: "provider_wf pc \<Longrightarrow> (name, cs) \<in> set pc \<Longrightarrow> c \<in> set cs \<Longrightarrow> annotations_wf (clu_Endpoints c)"
  unfolding provider_wf_def by auto

text \<open>Egress clusters keep names, addresses and annotations, so their configuration is the same.\<close>

lemma egress_annotations: "last_annotation (makeEgressEndpoints eps) = last_annotation eps"
  by (induction eps) (simp_all add: makeEgressEndpoints_def fun_eq_iff split: option.split)

lemma egress_wf: "annotations_wf (makeEgressEndpoints eps) \<longleftrightarrow> annotations_wf eps"
  by (simp add: makeEgressEndpoints_def)

lemma Cluster_Config_egress:
  assumes "annotations_wf (clu_Endpoints c)" and "d \<in> set (makeEgressClusters [c])"
  shows "Cluster_Config d = Cluster_Config c"
  unfolding Cluster_Config_def Cluster_Config_ordered_def
  by (rule parseClusterAnnotations_cong)
    (use assms in \<open>simp add: mergeAnnotations_lookup makeEgressClusters_def egress_wf egress_annotations\<close>)

subsection \<open>Properties\<close>

lemma uint_of_int32: "uint (of_int i :: uint32) = i mod 2 ^ 32"
  by (simp add: unsigned_of_int take_bit_eq_mod)

text \<open>
  C32. The weight of an endpoint is between 1 and 128, the range that Envoy accepts, whatever
  the annotation is. A decimal annotation is taken modulo \<open>2 ^ 32\<close>: it is used when it is
  positive and the remainder is in the range, otherwise the weight is 64.
\<close>
theorem endpoint_weight_bounds:
  "1 \<le> Weight (Endpoint_Config e) \<and> Weight (Endpoint_Config e) \<le> 128 \<and>
   (map_of (ep_Annotations e) AnnotaionEndpointWeight = Some (FormatInt i) \<longrightarrow> - (2 ^ 63) \<le> i \<longrightarrow> i < 2 ^ 63 \<longrightarrow>
      uint (Weight (Endpoint_Config e)) = (if 0 < i \<and> i mod 2 ^ 32 \<in> {1..128} then i mod 2 ^ 32 else 64))"
proof -
  have "uint (Weight (Endpoint_Config e)) = (if 0 < i \<and> i mod 2 ^ 32 \<in> {1..128} then i mod 2 ^ 32 else 64)"
    if a: "map_of (ep_Annotations e) AnnotaionEndpointWeight = Some (FormatInt i)" and i: "- (2 ^ 63) \<le> i" "i < 2 ^ 63"
  proof -
    let ?w = "getUInt32 (ep_Annotations e) AnnotaionEndpointWeight 64"
    have w: "uint ?w = (if 0 < i then i mod 2 ^ 32 else 64)"
      using a ParseInt_FormatInt [OF i] by (simp add: getUInt32_cases uint_of_int32)
    have "?w = 0 \<longleftrightarrow> uint ?w = 0" "?w > 128 \<longleftrightarrow> uint ?w > 128"
      by (simp_all add: word_less_def uint_0_iff)
    moreover have "0 \<le> i mod 2 ^ 32" by simp
    ultimately show ?thesis
      using w by (auto simp: Endpoint_Config_def parseEndpointAnnotations_def Let_def)
  qed
  then show ?thesis using weight_range by blast
qed

theorem endpoint_weight_bounds_witness:
  "uint (Weight (Endpoint_Config \<lparr>ep_Address = [], ep_Annotations = [(AnnotaionEndpointWeight, FormatInt (2 ^ 32 + 5))],
     ep_Port = 0\<rparr>)) = 5"
  using endpoint_weight_bounds [of "\<lparr>ep_Address = [], ep_Annotations = [(AnnotaionEndpointWeight, FormatInt (2 ^ 32 + 5))],
     ep_Port = 0\<rparr>" "2 ^ 32 + 5"] by simp

lemma sint_of_int_wrap: "sint (of_int i :: int64) = (i + 2 ^ 63) mod 2 ^ 64 - 2 ^ 63"
  by (simp add: signed_of_int signed_take_bit_eq_take_bit_shift take_bit_eq_mod)

lemma parse_magnitude_not_digits:
  assumes "\<exists>c \<in> set s. \<not> is_digit c"
  shows "parse_magnitude neg s = None"
proof -
  have "parse_digits n t = None" if "\<exists>c \<in> set t. \<not> is_digit c" for t n
    using that by (induction t arbitrary: n) auto
  then show ?thesis using assms by (simp add: parse_magnitude_def split: option.split)
qed

lemma Atoi_refuses: "c \<in> set s \<Longrightarrow> \<not> is_digit c \<Longrightarrow> c \<noteq> CHR ''-'' \<Longrightarrow> c \<noteq> CHR ''+'' \<Longrightarrow> Atoi s = None"
  by (cases s) (auto intro!: parse_magnitude_not_digits)

text \<open>
  C33. Numbers in annotations, for every value of the annotation. Without the annotation, or when
  its value is not a decimal number of 64 bits, or the number is not positive, the fallback is
  used. A positive number is read modulo \<open>2 ^ 32\<close> for 32-bit fields; as a duration it is
  multiplied by a million nanoseconds and wraps around at 64 bits, so that it is exact up to
  9223372036854 milliseconds and the next one is negative.
\<close>
theorem number_annotations:
  "(case map_of ann key of
      None \<Rightarrow> getUInt32 ann key fallback32 = fallback32 \<and>
        getDurationMilliseconds ann key fallback = Millisecond * fallback
    | Some v \<Rightarrow>
        (case Atoi v of
           None \<Rightarrow> getUInt32 ann key fallback32 = fallback32 \<and>
             getDurationMilliseconds ann key fallback = Millisecond * fallback
         | Some i \<Rightarrow>
             if i \<le> 0
             then getUInt32 ann key fallback32 = fallback32 \<and>
               getDurationMilliseconds ann key fallback = Millisecond * fallback
             else uint (getUInt32 ann key fallback32) = i mod 2 ^ 32 \<and>
               sint (getDurationMilliseconds ann key fallback) = (1000000 * i + 2 ^ 63) mod 2 ^ 64 - 2 ^ 63 \<and>
               (i \<le> 9223372036854 \<longrightarrow> sint (getDurationMilliseconds ann key fallback) = 1000000 * i))) \<and>
   sint Millisecond = 1000000 \<and>
   (- (2 ^ 63) \<le> j \<and> j < 2 ^ 63 \<longrightarrow> Atoi (FormatInt j) = Some j) \<and>
   (Atoi [] = None) \<and> (c \<in> set s \<and> \<not> is_digit c \<and> c \<noteq> CHR ''-'' \<and> c \<noteq> CHR ''+'' \<longrightarrow> Atoi s = None)"
proof -
  have dur: "sint (Millisecond * of_int i) = (1000000 * i + 2 ^ 63) mod 2 ^ 64 - 2 ^ 63" for i
    using sint_of_int_wrap [of "1000000 * i"] by (simp add: Millisecond_def)
  have small: "(1000000 * i + 2 ^ 63) mod 2 ^ 64 - 2 ^ 63 = 1000000 * i" if "0 < i" "i \<le> 9223372036854" for i :: int
    using that by (simp add: mod_pos_pos_trivial)
  have "sint Millisecond = 1000000" by (simp add: Millisecond_def)
  moreover have "c \<in> set s \<and> \<not> is_digit c \<and> c \<noteq> CHR ''-'' \<and> c \<noteq> CHR ''+'' \<longrightarrow> Atoi s = None"
    using Atoi_refuses by blast
  ultimately show ?thesis
    using dur small
    by (simp add: getUInt32_cases getDuration_cases ParseInt_FormatInt uint_of_int32 split: option.split)
qed

theorem number_annotations_witness:
  "uint (getUInt32 [(AnnotaionCBMaxConn, FormatInt (2 ^ 32))] AnnotaionCBMaxConn 1000) = 0 \<and>
   sint (getDurationMilliseconds [(AnnotationHealthTimeout, FormatInt 9223372036855)] AnnotationHealthTimeout 3000) < 0 \<and>
   getUInt32 [(AnnotaionCBMaxConn, ''many'')] AnnotaionCBMaxConn 1000 = 1000"
proof -
  have "Atoi (FormatInt (2 ^ 32)) = Some (2 ^ 32)" "Atoi (FormatInt 9223372036855) = Some 9223372036855"
    by (rule ParseInt_FormatInt; simp)+
  moreover have "Atoi ''many'' = None" by code_simp
  ultimately show ?thesis
    using number_annotations [of "[(AnnotaionCBMaxConn, FormatInt (2 ^ 32))]" AnnotaionCBMaxConn 1000 0 0 _ "[]"]
      number_annotations [of "[(AnnotationHealthTimeout, FormatInt 9223372036855)]" AnnotationHealthTimeout 0 3000 0 _ "[]"]
      number_annotations [of "[(AnnotaionCBMaxConn, ''many'')]" AnnotaionCBMaxConn 1000 0 0 _ "[]"]
    by simp
qed

text \<open>
  C34. The configuration of a cluster does not depend on the order in which Go visits the
  annotation maps of its endpoints, and neither on which endpoints carry them: moving to the
  egress port keeps it. It only depends on the annotations of the last endpoint with each key.
\<close>
theorem config_order_independent:
  assumes "\<And>i. is_order (ords i)" and "annotations_wf (clu_Endpoints c)" and "annotations_wf (clu_Endpoints d)"
    and "last_annotation (clu_Endpoints d) = last_annotation (clu_Endpoints c)"
  shows "Cluster_Config_ordered ords c = Cluster_Config d \<and>
    map_of (mergeAnnotations ords c) = last_annotation (clu_Endpoints c) \<and>
    Cluster_Config (hd (makeEgressClusters [c])) = Cluster_Config c"
proof -
  have "Cluster_Config c = Cluster_Config d"
    unfolding Cluster_Config_def Cluster_Config_ordered_def
    by (rule parseClusterAnnotations_cong) (simp add: mergeAnnotations_lookup assms)
  moreover have "Cluster_Config (hd (makeEgressClusters [c])) = Cluster_Config c"
    by (rule Cluster_Config_egress [OF assms(2)]) (simp add: makeEgressClusters_def)
  ultimately show ?thesis
    using Cluster_Config_ordered_eq [OF assms(1,2)] mergeAnnotations_lookup [OF assms(1,2)] by simp
qed

theorem config_order_independent_witness:
  "Cluster_Config_ordered (\<lambda>_. rev)
      \<lparr>clu_Name = ''c'', clu_Endpoints = [\<lparr>ep_Address = [], ep_Annotations = [(''a'', ''1''), (''b'', ''2'')], ep_Port = 0\<rparr>]\<rparr> =
    Cluster_Config
      \<lparr>clu_Name = ''c'', clu_Endpoints = [\<lparr>ep_Address = [], ep_Annotations = [(''b'', ''2''), (''a'', ''1'')], ep_Port = 0\<rparr>]\<rparr>"
proof -
  have l: "last_annotation [\<lparr>ep_Address = [], ep_Annotations = [(''b'', ''2''), (''a'', ''1'')], ep_Port = 0\<rparr>] =
      last_annotation [\<lparr>ep_Address = [], ep_Annotations = [(''a'', ''1''), (''b'', ''2'')], ep_Port = 0\<rparr>]"
    by (auto simp: fun_eq_iff)
  show ?thesis
    using config_order_independent [of "\<lambda>_. rev"
      "\<lparr>clu_Name = ''c'', clu_Endpoints = [\<lparr>ep_Address = [], ep_Annotations = [(''a'', ''1''), (''b'', ''2'')], ep_Port = 0\<rparr>]\<rparr>"
      "\<lparr>clu_Name = ''c'', clu_Endpoints = [\<lparr>ep_Address = [], ep_Annotations = [(''b'', ''2''), (''a'', ''1'')], ep_Port = 0\<rparr>]\<rparr>"] l
    by (simp add: map_wf_def)
qed

end
