(* ===== verification/ListenerBuilder.thy ===== *)
theory ListenerBuilder
  imports Annotations Resource
begin

text \<open>
  \<open>pkg/provider/listener.go\<close>: the builder of Envoy listeners. A builder holds the listener
  message and its HTTP connection manager; the inject operations prepend HTTP filters, and
  \<open>Listener_Resource\<close> packs the connection manager into the only filter of the listener.

  Main results: whatever is injected, the router stays the last and only router filter
  (\<open>builder_wf\<close>), each injection puts its filter in front (\<open>filter_names_*\<close>), the listener refers
  to exactly the route it was made for (\<open>Listener_Resource_refs\<close>), and what is read back from it
  are the filters of the builder (\<open>http_filters_built\<close>).
\<close>

subsection \<open>Data\<close>

record listener_config =
  lc_Name :: string
  lc_TracingOperation :: operation_name
  lc_TargetRoute :: string
  lc_Address :: string
  lc_Port :: uint32

record authz_config =
  az_Cluster :: string

record listener_builder =
  envoyListener :: v2_listener
  bl_hcm :: http_connection_manager

definition jsonLog :: pb_struct where
  "jsonLog = [
     (''start_time'', StringValue ''%START_TIME%''),
     (''method'', StringValue ''%REQ(:METHOD)%''),
     (''path'', StringValue ''%REQ(X-ENVOY-ORIGINAL-PATH?:PATH)%''),
     (''protocol'', StringValue ''%PROTOCOL%''),
     (''response_code'', StringValue ''%RESPONSE_CODE%''),
     (''response_flags'', StringValue ''%RESPONSE_FLAGS%''),
     (''bytes_received'', StringValue ''%BYTES_RECEIVED%''),
     (''bytes_sent'', StringValue ''%BYTES_SENT%''),
     (''duration'', StringValue ''%DURATION%''),
     (''upstream_service_time'', StringValue ''%RESP(X-ENVOY-UPSTREAM-SERVICE-TIME)%''),
     (''x_forwarded_for'', StringValue ''%REQ(X-FORWARDED-FOR)%''),
     (''user_agent'', StringValue ''%REQ(USER-AGENT)%''),
     (''request_id'', StringValue ''%REQ(X-REQUEST-ID)%''),
     (''authority'', StringValue ''%REQ(:AUTHORITY)%''),
     (''upstream_host'', StringValue ''%UPSTREAM_HOST%''),
     (''upstream_cluster'', StringValue ''%UPSTREAM_CLUSTER%''),
     (''upstream_local_address'', StringValue ''%UPSTREAM_LOCAL_ADDRESS%''),
     (''downstream_local_address'', StringValue ''%DOWNSTREAM_LOCAL_ADDRESS%''),
     (''downstream_remote_address'', StringValue ''%DOWNSTREAM_REMOTE_ADDRESS%''),
     (''requested_server_name'', StringValue ''%REQUESTED_SERVER_NAME%'')]"

subsection \<open>Operations\<close>

definition createConnectionManager :: "protobuf \<Rightarrow> listener_config \<Rightarrow> http_connection_manager" where
  "createConnectionManager pb cfg =
     \<lparr>hcm_CodecType = AUTO,
      hcm_StatPrefix = lc_TargetRoute cfg @ ''_http'',
      hcm_AllowAbsoluteUrl = Some True,
      hcm_AccessLog = [\<lparr>al_Name = FileAccessLog,
        al_TypedConfig = MessageToAny pb
          (MFileAccessLog \<lparr>fal_Path = ''/tmp/access.log'', fal_JsonFormat = jsonLog\<rparr>)\<rparr>],
      hcm_Tracing = Some (lc_TracingOperation cfg),
      hcm_RouteSpecifier = RdsSpecifier (Some
        \<lparr>rds_RouteConfigName = lc_TargetRoute cfg,
         rds_ConfigSource = ApiConfigSource API_GRPC [''xds''] [] None\<rparr>),
      hcm_HttpFilters = [\<lparr>hf_Name = Router, hf_ConfigType = NoConfig\<rparr>]\<rparr>"

definition NewListener :: "protobuf \<Rightarrow> listener_config \<Rightarrow> listener_builder" where
  "NewListener pb cfg =
     \<lparr>envoyListener = \<lparr>
        li_Name = lc_Name cfg,
        li_Address = \<lparr>sa_Protocol = TCP, sa_Address = lc_Address cfg, sa_PortValue = lc_Port cfg\<rparr>,
        li_FilterChains = [\<lparr>fc_Filters = []\<rparr>]\<rparr>,
      bl_hcm = createConnectionManager pb cfg\<rparr>"

text \<open>\<open>append([]*hcm.HttpFilter{f}, l.hcm.HttpFilters...)\<close>.\<close>

definition prepend_filter :: "http_filter \<Rightarrow> listener_builder \<Rightarrow> listener_builder" where
  "prepend_filter f l =
     l\<lparr>bl_hcm := (bl_hcm l)\<lparr>hcm_HttpFilters := f # hcm_HttpFilters (bl_hcm l)\<rparr>\<rparr>"

definition http_fault_of :: "fault_config \<Rightarrow> http_fault" where
  "http_fault_of cfg =
     \<lparr>hfault_Abort =
        (if AbortChance cfg > 0 \<and> AbortCode cfg > 0
         then Some \<lparr>fa_HttpStatus = AbortCode cfg,
                    fa_Percentage = \<lparr>fp_Numerator = AbortChance cfg, fp_Denominator = HUNDRED\<rparr>\<rparr>
         else None),
      hfault_Delay =
        (if DelayChance cfg > 0 \<and> sint (DelayDuration cfg) > 0
         then Some \<lparr>fd_FixedDelay = DelayDuration cfg,
                    fd_Percentage = \<lparr>fp_Numerator = DelayChance cfg, fp_Denominator = HUNDRED\<rparr>\<rparr>
         else None)\<rparr>"

definition InjectFault :: "protobuf \<Rightarrow> fault_config \<Rightarrow> listener_builder \<Rightarrow> listener_builder" where
  "InjectFault pb cfg l =
     (if \<not> Enabled cfg then l
      else prepend_filter \<lparr>hf_Name = Fault,
             hf_ConfigType = TypedConfig (MessageToAny pb (MFault (http_fault_of cfg)))\<rparr> l)"

definition InjectAuthz :: "protobuf \<Rightarrow> authz_config \<Rightarrow> listener_builder \<Rightarrow> listener_builder" where
  "InjectAuthz pb cfg l =
     (let timeout = Millisecond * 125 in
      prepend_filter \<lparr>hf_Name = HTTPExternalAuthorization,
        hf_ConfigType = TypedConfig (MessageToAny pb (MAuthz
          \<lparr>ea_FailureModeAllow = False, ea_Uri = ''http://authfoo:3000/authenticate'',
           ea_Timeout = timeout, ea_Cluster = az_Cluster cfg\<rparr>))\<rparr> l)"

definition InjectHealthCheckCache ::
    "protobuf \<Rightarrow> cluster \<Rightarrow> listener_builder \<Rightarrow> listener_builder go" where
  "InjectHealthCheckCache pb cluster l =
     go_bind (Cluster_Config cluster) (\<lambda>cfg. Inr
       (prepend_filter \<lparr>hf_Name = HealthCheck,
          hf_ConfigType = TypedConfig (MessageToAny pb (MHealthCheck
            \<lparr>hcf_PassThroughMode = Some True, hcf_CacheTime = CacheDuration (cc_HealthCheck cfg),
             hcf_Headers = [('':path'', Path (cc_HealthCheck cfg))]\<rparr>))\<rparr> l))"

definition Listener_Resource :: "protobuf \<Rightarrow> listener_builder \<Rightarrow> v2_listener go" where
  "Listener_Resource pb l =
     (case li_FilterChains (envoyListener l) of
        [] \<Rightarrow> Inl IndexOutOfRange
      | chain # rest \<Rightarrow>
          let filters = [] @ [\<lparr>fi_Name = HTTPConnectionManager,
                fi_ConfigType = TypedConfig (MessageToAny pb (MHcm (bl_hcm l)))\<rparr>]
          in Inr ((envoyListener l)\<lparr>li_FilterChains := chain\<lparr>fc_Filters := filters\<rparr> # rest\<rparr>))"

subsection \<open>The HTTP filters of a builder\<close>

definition filter_names_of :: "listener_builder \<Rightarrow> string list" where
  "filter_names_of l = map hf_Name (hcm_HttpFilters (bl_hcm l))"

text \<open>A builder for a route: the router filter comes last and only once, the route is set.\<close>

definition builder_wf :: "string \<Rightarrow> listener_builder \<Rightarrow> bool" where
  "builder_wf target l \<longleftrightarrow>
     (\<exists>fs. filter_names_of l = fs @ [Router] \<and> Router \<notin> set fs) \<and>
     (\<exists>src. hcm_RouteSpecifier (bl_hcm l) =
        RdsSpecifier (Some \<lparr>rds_RouteConfigName = target, rds_ConfigSource = src\<rparr>)) \<and>
     (\<exists>fs. li_FilterChains (envoyListener l) = [\<lparr>fc_Filters = fs\<rparr>])"

lemma prepend_filter_fields [simp]:
  "envoyListener (prepend_filter f l) = envoyListener l"
  "filter_names_of (prepend_filter f l) = hf_Name f # filter_names_of l"
  "hcm_RouteSpecifier (bl_hcm (prepend_filter f l)) = hcm_RouteSpecifier (bl_hcm l)"
  by (simp_all add: prepend_filter_def filter_names_of_def)

lemma builder_wf_prepend: "builder_wf t l \<Longrightarrow> hf_Name f \<noteq> Router \<Longrightarrow> builder_wf t (prepend_filter f l)"
  unfolding builder_wf_def by (force intro: exI [of _ "hf_Name f # _"])

lemma filter_names_New [simp]: "filter_names_of (NewListener pb cfg) = [Router]"
  by (simp add: filter_names_of_def NewListener_def createConnectionManager_def)

lemma builder_wf_New: "builder_wf (lc_TargetRoute cfg) (NewListener pb cfg)"
  unfolding builder_wf_def filter_names_New by (simp add: NewListener_def createConnectionManager_def)

lemma filter_names_InjectFault:
  "filter_names_of (InjectFault pb cfg l) = (if Enabled cfg then Fault # filter_names_of l else filter_names_of l)"
  by (simp add: InjectFault_def)

lemma filter_names_InjectAuthz: "filter_names_of (InjectAuthz pb cfg l) = HTTPExternalAuthorization # filter_names_of l"
  by (simp add: InjectAuthz_def Let_def)

lemma filter_names_InjectHealthCheckCache:
  "InjectHealthCheckCache pb c l = Inr l' \<Longrightarrow> filter_names_of l' = HealthCheck # filter_names_of l"
  by (auto simp: InjectHealthCheckCache_def go_bind_eq_Inr)

lemma builder_wf_InjectFault: "builder_wf t l \<Longrightarrow> builder_wf t (InjectFault pb cfg l)"
  by (simp add: InjectFault_def builder_wf_prepend filter_names)

lemma builder_wf_InjectAuthz: "builder_wf t l \<Longrightarrow> builder_wf t (InjectAuthz pb cfg l)"
  by (simp add: InjectAuthz_def Let_def builder_wf_prepend filter_names)

lemma builder_wf_InjectHealthCheckCache:
  "builder_wf t l \<Longrightarrow> InjectHealthCheckCache pb c l = Inr l' \<Longrightarrow> builder_wf t l'"
  by (auto simp: InjectHealthCheckCache_def go_bind_eq_Inr builder_wf_prepend filter_names)

lemma inject_listener [simp]:
  "envoyListener (InjectFault pb cfg l) = envoyListener l"
  "envoyListener (InjectAuthz pb az l) = envoyListener l"
  "InjectHealthCheckCache pb c l = Inr l' \<Longrightarrow> envoyListener l' = envoyListener l"
  by (auto simp: InjectFault_def InjectAuthz_def InjectHealthCheckCache_def Let_def go_bind_eq_Inr)

subsection \<open>The listener that is built\<close>

lemma Listener_Resource_wf:
  assumes "builder_wf t l"
  shows "Listener_Resource pb l = Inr ((envoyListener l)\<lparr>li_FilterChains := [\<lparr>fc_Filters =
    [\<lparr>fi_Name = HTTPConnectionManager, fi_ConfigType = TypedConfig (MessageToAny pb (MHcm (bl_hcm l)))\<rparr>]\<rparr>]\<rparr>)"
  using assms by (auto simp: builder_wf_def Listener_Resource_def Let_def)

lemma Listener_Resource_refs:
  assumes "hcm_roundtrip pb" and "builder_wf t l" and "Listener_Resource pb l = Inr v"
  shows "ref_set pb (Listener v) = {t}"
proof -
  obtain a where a: "pb_MarshalAny pb (MHcm (bl_hcm l)) = Inr a" "pb_UnmarshalAny pb a = bl_hcm l"
    using hcm_roundtripD [OF assms(1)] by blast
  have "li_FilterChains v = [\<lparr>fc_Filters =
      [\<lparr>fi_Name = HTTPConnectionManager, fi_ConfigType = TypedConfig (Some a)\<rparr>]\<rparr>]"
    using assms(3) Listener_Resource_wf [OF assms(2)] a(1) by (auto simp: MessageToAny_def)
  moreover obtain src where "hcm_RouteSpecifier (bl_hcm l) =
      RdsSpecifier (Some \<lparr>rds_RouteConfigName = t, rds_ConfigSource = src\<rparr>)"
    using assms(2) by (auto simp: builder_wf_def)
  ultimately show ?thesis
    using a(2) by (simp add: filter_ref_set_def filter_hcm_def)
qed

lemma Listener_Resource_name: "Listener_Resource pb l = Inr v \<Longrightarrow> li_Name v = li_Name (envoyListener l)"
  by (auto simp: Listener_Resource_def Let_def split: list.splits)

text \<open>What a listener says to Envoy: where it listens and the manager packed into its only filter.\<close>

definition built_from :: "protobuf \<Rightarrow> listener_builder \<Rightarrow> v2_listener \<Rightarrow> bool" where
  "built_from pb l v \<longleftrightarrow> li_Name v = li_Name (envoyListener l) \<and> li_Address v = li_Address (envoyListener l) \<and>
     li_FilterChains v = [\<lparr>fc_Filters = [\<lparr>fi_Name = HTTPConnectionManager,
       fi_ConfigType = TypedConfig (MessageToAny pb (MHcm (bl_hcm l)))\<rparr>]\<rparr>]"

lemma Listener_Resource_built: "builder_wf t l \<Longrightarrow> Listener_Resource pb l = Inr v \<Longrightarrow> built_from pb l v"
  using Listener_Resource_wf [of t l pb] by (auto simp: built_from_def)

text \<open>The names of the HTTP filters that are read back from a listener, in their order.\<close>

definition http_filters :: "protobuf \<Rightarrow> v2_listener \<Rightarrow> string list" where
  "http_filters pb v = concat (map (\<lambda>chain. concat (map (\<lambda>f.
     if fi_Name f = HTTPConnectionManager then map hf_Name (hcm_HttpFilters (filter_hcm pb f)) else [])
       (fc_Filters chain))) (li_FilterChains v))"

lemma http_filters_built:
  assumes "hcm_roundtrip pb" and "built_from pb l v"
  shows "http_filters pb v = filter_names_of l"
proof -
  obtain a where "pb_MarshalAny pb (MHcm (bl_hcm l)) = Inr a" "pb_UnmarshalAny pb a = bl_hcm l"
    using hcm_roundtripD [OF assms(1)] by blast
  then show ?thesis
    using assms(2) by (simp add: built_from_def http_filters_def filter_hcm_def filter_names_of_def MessageToAny_def)
qed

end
