(* ===== verification/NodeBuilder.thy ===== *)
theory NodeBuilder
  imports ListenerBuilder
begin

text \<open>
  \<open>pkg/provider/node.go\<close>: the Envoy configuration of one node, collected in maps by name. The
  pointers stored in the maps are never nil, so \<open>n.clusters[name] == nil\<close> is a missing key.

  \<open>node_wf\<close> is the invariant: entries are stored under their own names, clusters get their
  endpoints by EDS under the same name, and the virtual hosts of a route have distinct
  names, recorded in \<open>vhostExists\<close>. Every operation keeps it. The abstraction of the three
  maps is given by \<open>lb_endpoints\<close> and \<open>vhosts_of\<close> (\<open>AddCluster_endpoints\<close>,
  \<open>AddCluster_config\<close>, \<open>AddRoute_vhosts\<close>).
\<close>

subsection \<open>Data\<close>

record node =
  n_Name :: string
  n_clusters :: "(string, v2_cluster) gomap"
  n_endpoints :: "(string, cluster_load_assignment) gomap"
  n_routes :: "(string, route_configuration) gomap"
  n_vhostExists :: "(string, (string, unit) gomap) gomap"
  n_listeners :: "v2_listener list"

record vhost_config =
  vc_Hostname :: string
  vc_Cluster :: string

subsection \<open>Operations\<close>

definition NewNode :: "string \<Rightarrow> node" where
  "NewNode name = \<lparr>n_Name = name, n_clusters = [], n_endpoints = [], n_routes = [],
     n_vhostExists = [], n_listeners = []\<rparr>"

definition createEnvoyEndpoint :: "endpoint list \<Rightarrow> lb_endpoint list" where
  "createEnvoyEndpoint endpoints =
     map (\<lambda>ep. \<lparr>lb_LoadBalancingWeight = Some (Weight (Endpoint_Config ep)),
                lb_Metadata = Some (),
                lb_Address = \<lparr>sa_Protocol = TCP, sa_Address = ep_Address ep, sa_PortValue = ep_Port ep\<rparr>\<rparr>)
       endpoints"

definition AddEndpoints :: "string \<Rightarrow> endpoint list \<Rightarrow> node \<Rightarrow> node go" where
  "AddEndpoints cluster eps n =
     (let n1 = (if \<not> mhas (n_endpoints n) cluster
                then n\<lparr>n_endpoints := mput cluster
                  \<lparr>cla_ClusterName = cluster, cla_Endpoints = [\<lparr>loc_LbEndpoints = []\<rparr>]\<rparr> (n_endpoints n)\<rparr>
                else n)
      in case map_of (n_endpoints n1) cluster of
           None \<Rightarrow> Inl NilDereference
         | Some cla \<Rightarrow>
             (case cla_Endpoints cla of
                [] \<Rightarrow> Inl IndexOutOfRange
              | loc # locs \<Rightarrow>
                  Inr (n1\<lparr>n_endpoints := mput cluster
                    (cla\<lparr>cla_Endpoints :=
                       loc\<lparr>loc_LbEndpoints := loc_LbEndpoints loc @ createEnvoyEndpoint eps\<rparr> # locs\<rparr>)
                    (n_endpoints n1)\<rparr>)))"

definition createXDSConfigSource :: config_source where
  "createXDSConfigSource = ApiConfigSource API_GRPC [''xds''] [] None"

definition createEnvoyCluster :: "cluster \<Rightarrow> v2_cluster go" where
  "createEnvoyCluster c =
     go_bind (Cluster_Config c) (\<lambda>clusterCfg.
       let healthCheckPort = (if hc_Port (cc_HealthCheck clusterCfg) \<noteq> 0
                              then Some (hc_Port (cc_HealthCheck clusterCfg)) else None);
           cb = \<lparr>th_Priority = PRIORITY_DEFAULT,
                 th_MaxConnections = Some (MaxConnections (cc_CircuitBreaker clusterCfg)),
                 th_MaxPendingRequests = Some (MaxPendingRequests (cc_CircuitBreaker clusterCfg)),
                 th_MaxRequests = Some (MaxRequests (cc_CircuitBreaker clusterCfg)),
                 th_MaxRetries = Some (MaxRetries (cc_CircuitBreaker clusterCfg))\<rparr>
       in Inr \<lparr>cl_Name = clu_Name c,
               cl_ConnectTimeout = 1000 * Millisecond,
               cl_Type = EDS,
               cl_DnsLookupFamily = V4_ONLY,
               cl_LbPolicy = ROUND_ROBIN,
               cl_CircuitBreakers = [cb],
               cl_HealthChecks = [\<lparr>
                 hc_Timeout = Some (Timeout (cc_HealthCheck clusterCfg)),
                 hc_Interval = Some (Interval (cc_HealthCheck clusterCfg)),
                 hc_UnhealthyThreshold = Some 3,
                 hc_HealthyThreshold = Some 3,
                 hc_AltPort = healthCheckPort,
                 hc_Path = Path (cc_HealthCheck clusterCfg),
                 hc_ExpectedStatuses = [(ExpectedStatusLower (cc_HealthCheck clusterCfg),
                                         ExpectedStatusUpper (cc_HealthCheck clusterCfg))]\<rparr>],
               cl_EdsClusterConfig = Some \<lparr>eds_EdsConfig = Some createXDSConfigSource, eds_ServiceName = []\<rparr>\<rparr>)"

text \<open>One turn of the loop of \<open>AddCluster\<close>.\<close>

definition add_cluster :: "cluster \<Rightarrow> node \<Rightarrow> node go" where
  "add_cluster c n =
     go_bind
       (if \<not> mhas (n_clusters n) (clu_Name c)
        then go_bind (createEnvoyCluster c) (\<lambda>ec. Inr (n\<lparr>n_clusters := mput (clu_Name c) ec (n_clusters n)\<rparr>))
        else Inr n)
       (AddEndpoints (clu_Name c) (clu_Endpoints c))"

definition AddCluster :: "cluster list \<Rightarrow> node \<Rightarrow> node go" where
  "AddCluster cs n = go_fold add_cluster cs n"

definition AddListener :: "v2_listener list \<Rightarrow> node \<Rightarrow> node" where
  "AddListener lis n = n\<lparr>n_listeners := n_listeners n @ lis\<rparr>"

text \<open>One turn of the loop of \<open>AddRoute\<close>; the route exists.\<close>

definition add_vhost :: "string \<Rightarrow> virtual_host \<Rightarrow> node \<Rightarrow> node" where
  "add_vhost routeName vhost n =
     (let exists = (case map_of (n_vhostExists n) routeName of None \<Rightarrow> [] | Some m \<Rightarrow> m);
          n1 = (if \<not> mhas (n_vhostExists n) routeName
                then n\<lparr>n_vhostExists := mput routeName [] (n_vhostExists n)\<rparr> else n)
      in if \<not> mhas exists (vh_Name vhost)
         then n1\<lparr>n_vhostExists := mput routeName (mput (vh_Name vhost) () exists) (n_vhostExists n1),
                n_routes := (case map_of (n_routes n1) routeName of
                  None \<Rightarrow> n_routes n1
                | Some r \<Rightarrow> mput routeName (r\<lparr>rc_VirtualHosts := rc_VirtualHosts r @ [vhost]\<rparr>) (n_routes n1))\<rparr>
         else n1)"

definition AddRoute :: "string \<Rightarrow> virtual_host list \<Rightarrow> node \<Rightarrow> node" where
  "AddRoute routeName vhosts n =
     fold (add_vhost routeName) vhosts
       (if \<not> mhas (n_routes n) routeName
        then n\<lparr>n_routes := mput routeName \<lparr>rc_Name = routeName, rc_VirtualHosts = []\<rparr> (n_routes n)\<rparr>
        else n)"

definition createEnvoyVHost :: "vhost_config \<Rightarrow> virtual_host" where
  "createEnvoyVHost cfg =
     \<lparr>vh_Name = ''vhost_'' @ vc_Hostname cfg,
      vh_Domains = [vc_Hostname cfg,
        vc_Hostname cfg @ '':'' @ FormatInt (uint defaultIngressTrafficPort)],
      vh_Routes = [\<lparr>rt_Prefix = ''/'', rt_Cluster = vc_Cluster cfg\<rparr>]\<rparr>"

definition Node_Endpoints :: "string order \<Rightarrow> node \<Rightarrow> resource list" where
  "Node_Endpoints ord n = map (\<lambda>(_, ep). ClusterLoadAssignment ep) (mrange ord (n_endpoints n))"

definition Node_Clusters :: "string order \<Rightarrow> node \<Rightarrow> resource list" where
  "Node_Clusters ord n = map (\<lambda>(_, c). Cluster c) (mrange ord (n_clusters n))"

definition Node_Routes :: "string order \<Rightarrow> node \<Rightarrow> resource list" where
  "Node_Routes ord n = map (\<lambda>(_, r). RouteConfiguration r) (mrange ord (n_routes n))"

definition Node_Listeners :: "node \<Rightarrow> resource list" where
  "Node_Listeners n = map Listener (n_listeners n)"

subsection \<open>The invariant\<close>

definition clusters_wf :: "node \<Rightarrow> bool" where
  "clusters_wf n \<longleftrightarrow> map_wf (n_clusters n) \<and>
     (\<forall>k c. map_of (n_clusters n) k = Some c \<longrightarrow> cl_Name c = k \<and> cl_Type c = EDS \<and>
        cl_EdsClusterConfig c = Some \<lparr>eds_EdsConfig = Some createXDSConfigSource, eds_ServiceName = []\<rparr>)"

definition endpoints_wf :: "node \<Rightarrow> bool" where
  "endpoints_wf n \<longleftrightarrow> map_wf (n_endpoints n) \<and>
     (\<forall>k e. map_of (n_endpoints n) k = Some e \<longrightarrow> cla_ClusterName e = k \<and> length (cla_Endpoints e) = 1)"

definition vhosts_of :: "node \<Rightarrow> string \<Rightarrow> virtual_host list" where
  "vhosts_of n r = (case map_of (n_routes n) r of None \<Rightarrow> [] | Some rc \<Rightarrow> rc_VirtualHosts rc)"

definition routes_wf :: "node \<Rightarrow> bool" where
  "routes_wf n \<longleftrightarrow> map_wf (n_routes n) \<and>
     (\<forall>k r. map_of (n_routes n) k = Some r \<longrightarrow> rc_Name r = k) \<and>
     (\<forall>k. distinct (map vh_Name (vhosts_of n k)) \<and>
        (\<forall>v. v \<in> vh_Name ` set (vhosts_of n k) \<longleftrightarrow>
           (\<exists>m. map_of (n_vhostExists n) k = Some m \<and> mhas m v)))"

definition node_wf :: "node \<Rightarrow> bool" where
  "node_wf n \<longleftrightarrow> clusters_wf n \<and> endpoints_wf n \<and> routes_wf n \<and>
     dom (map_of (n_clusters n)) = dom (map_of (n_endpoints n))"

lemma node_wf_New [simp]: "node_wf (NewNode name)"
  by (simp add: node_wf_def clusters_wf_def endpoints_wf_def routes_wf_def vhosts_of_def NewNode_def)

subsection \<open>Endpoints and clusters\<close>

definition lb_endpoints :: "node \<Rightarrow> string \<Rightarrow> lb_endpoint list" where
  "lb_endpoints n k =
     (case map_of (n_endpoints n) k of
        None \<Rightarrow> []
      | Some e \<Rightarrow> concat (map loc_LbEndpoints (cla_Endpoints e)))"

lemma AddEndpoints_post:
  assumes "endpoints_wf n"
  obtains es where "AddEndpoints k eps n = Inr (n\<lparr>n_endpoints := es\<rparr>)" "endpoints_wf (n\<lparr>n_endpoints := es\<rparr>)"
    "dom (map_of es) = insert k (dom (map_of (n_endpoints n)))"
    "\<And>j. lb_endpoints (n\<lparr>n_endpoints := es\<rparr>) j =
       lb_endpoints n j @ (if j = k then createEnvoyEndpoint eps else [])"
proof (cases "map_of (n_endpoints n) k")
  case None
  show thesis
    by (rule that [of "mput k \<lparr>cla_ClusterName = k, cla_Endpoints = [\<lparr>loc_LbEndpoints = createEnvoyEndpoint eps\<rparr>]\<rparr>
          (mput k \<lparr>cla_ClusterName = k, cla_Endpoints = [\<lparr>loc_LbEndpoints = []\<rparr>]\<rparr> (n_endpoints n))"])
      (use None assms in \<open>auto simp: AddEndpoints_def Let_def endpoints_wf_def lb_endpoints_def\<close>)
next
  case (Some e)
  then obtain loc where loc: "cla_Endpoints e = [loc]" "cla_ClusterName e = k"
    using assms by (auto simp: endpoints_wf_def length_Suc_conv)
  show thesis
    by (rule that [of "mput k (e\<lparr>cla_Endpoints :=
          [loc\<lparr>loc_LbEndpoints := loc_LbEndpoints loc @ createEnvoyEndpoint eps\<rparr>]\<rparr>) (n_endpoints n)"])
      (use Some loc assms in \<open>auto simp: AddEndpoints_def Let_def endpoints_wf_def lb_endpoints_def\<close>)
qed

text \<open>The Envoy cluster of a cluster whose configuration can be read.\<close>

lemma createEnvoyCluster_wf:
  "createEnvoyCluster c = Inr ec \<Longrightarrow> cl_Name ec = clu_Name c \<and> cl_Type ec = EDS \<and>
     cl_EdsClusterConfig ec = Some \<lparr>eds_EdsConfig = Some createXDSConfigSource, eds_ServiceName = []\<rparr>"
  by (auto simp: createEnvoyCluster_def go_bind_eq_Inr)

lemma createEnvoyCluster_returns: "(\<exists>ec. createEnvoyCluster c = Inr ec) \<longleftrightarrow> (\<exists>cfg. Cluster_Config c = Inr cfg)"
  by (auto simp: createEnvoyCluster_def go_bind_eq_Inr Let_def)

lemma createEnvoyCluster_stops: "createEnvoyCluster c = Inl e \<longleftrightarrow> Cluster_Config c = Inl e"
  by (auto simp: createEnvoyCluster_def go_bind_eq_Inl Let_def)

text \<open>What a turn of the loop does when it returns.\<close>

lemma add_cluster_post:
  assumes "node_wf n" and "add_cluster c n = Inr n'"
  shows "node_wf n' \<and> n_Name n' = n_Name n \<and> n_routes n' = n_routes n \<and> n_vhostExists n' = n_vhostExists n \<and>
    n_listeners n' = n_listeners n \<and>
    (\<forall>j. lb_endpoints n' j = lb_endpoints n j @ (if j = clu_Name c then createEnvoyEndpoint (clu_Endpoints c) else [])) \<and>
    dom (map_of (n_clusters n')) = insert (clu_Name c) (dom (map_of (n_clusters n))) \<and>
    (if mhas (n_clusters n) (clu_Name c) then n_clusters n' = n_clusters n
     else \<exists>ec. createEnvoyCluster c = Inr ec \<and> n_clusters n' = mput (clu_Name c) ec (n_clusters n))"
proof -
  obtain n1 where n1: "(if \<not> mhas (n_clusters n) (clu_Name c)
        then go_bind (createEnvoyCluster c) (\<lambda>ec. Inr (n\<lparr>n_clusters := mput (clu_Name c) ec (n_clusters n)\<rparr>))
        else Inr n) = Inr n1" and ep: "AddEndpoints (clu_Name c) (clu_Endpoints c) n1 = Inr n'"
    using assms(2) unfolding add_cluster_def go_bind_eq_Inr by blast
  obtain cs where cs: "n1 = n\<lparr>n_clusters := cs\<rparr>" "clusters_wf n1"
      "dom (map_of cs) = insert (clu_Name c) (dom (map_of (n_clusters n)))"
      "if mhas (n_clusters n) (clu_Name c) then cs = n_clusters n
       else \<exists>ec. createEnvoyCluster c = Inr ec \<and> cs = mput (clu_Name c) ec (n_clusters n)"
  proof (cases "mhas (n_clusters n) (clu_Name c)")
    case True
    with n1 assms(1) show thesis by (intro that [of "n_clusters n"]) (auto simp: node_wf_def)
  next
    case False
    with n1 obtain ec where ec: "createEnvoyCluster c = Inr ec"
        "n1 = n\<lparr>n_clusters := mput (clu_Name c) ec (n_clusters n)\<rparr>"
      by (auto simp: go_bind_eq_Inr)
    with False assms(1) createEnvoyCluster_wf [OF ec(1)] show thesis
      by (intro that [of "mput (clu_Name c) ec (n_clusters n)"]) (auto simp: node_wf_def clusters_wf_def)
  qed
  have "endpoints_wf n1" using assms(1) by (simp add: cs(1) node_wf_def endpoints_wf_def)
  then obtain es where es: "n' = n1\<lparr>n_endpoints := es\<rparr>" "endpoints_wf n'"
      "dom (map_of es) = insert (clu_Name c) (dom (map_of (n_endpoints n1)))"
      "\<And>j. lb_endpoints n' j =
         lb_endpoints n1 j @ (if j = clu_Name c then createEnvoyEndpoint (clu_Endpoints c) else [])"
    by (rule AddEndpoints_post [of n1 "clu_Name c" "clu_Endpoints c"]) (use ep in auto)
  have "node_wf n'"
    using assms(1) cs(1-3) es(1-3) by (simp add: node_wf_def clusters_wf_def routes_wf_def vhosts_of_def)
  then show ?thesis
    using cs es by (simp add: lb_endpoints_def)
qed

text \<open>The loop stops only where a configuration cannot be read.\<close>

lemma add_cluster_returns:
  assumes "node_wf n" and "\<exists>cfg. Cluster_Config c = Inr cfg"
  shows "\<exists>n'. add_cluster c n = Inr n' \<and> node_wf n'"
proof -
  obtain ec where ec: "createEnvoyCluster c = Inr ec"
    using assms(2) createEnvoyCluster_returns by blast
  have "endpoints_wf (n\<lparr>n_clusters := cs\<rparr>)" for cs
    using assms(1) by (simp add: node_wf_def endpoints_wf_def)
  then have "\<exists>n'. AddEndpoints (clu_Name c) (clu_Endpoints c) (n\<lparr>n_clusters := cs\<rparr>) = Inr n'" for cs
    by (rule AddEndpoints_post) auto
  from this [of "n_clusters n"] this [of "mput (clu_Name c) ec (n_clusters n)"]
  have "\<exists>n'. add_cluster c n = Inr n'"
    by (simp add: add_cluster_def ec)
  then show ?thesis using add_cluster_post [OF assms(1)] by blast
qed

text \<open>
  The specification of \<open>AddCluster\<close>: the endpoints of every cluster with a name are
  appended in order, and the first cluster with a new name gives the cluster's settings.
\<close>

definition endpoints_named :: "string \<Rightarrow> cluster list \<Rightarrow> endpoint list" where
  "endpoints_named k cs = concat (map clu_Endpoints (filter (\<lambda>c. clu_Name c = k) cs))"

lemma createEnvoyEndpoint_append:
  "createEnvoyEndpoint (xs @ ys) = createEnvoyEndpoint xs @ createEnvoyEndpoint ys"
  by (simp add: createEnvoyEndpoint_def)

lemma createEnvoyEndpoint_Nil [simp]: "createEnvoyEndpoint [] = []"
  by (simp add: createEnvoyEndpoint_def)

lemma AddCluster_post:
  assumes "node_wf n" and "AddCluster cs n = Inr n'"
  shows "node_wf n' \<and> n_Name n' = n_Name n \<and> n_routes n' = n_routes n \<and> n_vhostExists n' = n_vhostExists n \<and>
    n_listeners n' = n_listeners n \<and>
    (\<forall>k. lb_endpoints n' k = lb_endpoints n k @ createEnvoyEndpoint (endpoints_named k cs)) \<and>
    dom (map_of (n_clusters n')) = dom (map_of (n_clusters n)) \<union> clu_Name ` set cs"
  using assms
proof (induction cs arbitrary: n)
  case Nil
  then show ?case by (simp add: AddCluster_def endpoints_named_def)
next
  case (Cons c cs)
  then obtain n1 where n1: "add_cluster c n = Inr n1" "AddCluster cs n1 = Inr n'"
    by (auto simp: AddCluster_def go_bind_eq_Inr)
  note p = add_cluster_post [OF Cons.prems(1) n1(1)]
  from Cons.IH [OF _ n1(2)] p show ?case
    by (auto simp: endpoints_named_def createEnvoyEndpoint_append)
qed

lemma AddCluster_first:
  assumes "node_wf n" and "AddCluster cs n = Inr n'"
  shows "map_of (n_clusters n') k =
    (case map_of (n_clusters n) k of
       Some ec \<Rightarrow> Some ec
     | None \<Rightarrow> map_option (\<lambda>c. projr (createEnvoyCluster c)) (find (\<lambda>c. clu_Name c = k) cs))"
  using assms
proof (induction cs arbitrary: n)
  case Nil
  then show ?case by (simp add: AddCluster_def split: option.split)
next
  case (Cons c cs)
  then obtain n1 where n1: "add_cluster c n = Inr n1" "AddCluster cs n1 = Inr n'"
    by (auto simp: AddCluster_def go_bind_eq_Inr)
  note p = add_cluster_post [OF Cons.prems(1) n1(1)]
  from Cons.IH [OF _ n1(2)] p show ?case
    by (auto split: option.splits if_splits)
qed

lemma AddCluster_returns:
  assumes "node_wf n" and "\<And>c. c \<in> set cs \<Longrightarrow> \<exists>cfg. Cluster_Config c = Inr cfg"
  shows "\<exists>n'. AddCluster cs n = Inr n'"
  using go_fold_returns [where P = node_wf and f = add_cluster] add_cluster_returns assms
  unfolding AddCluster_def by metis

lemma add_cluster_stops:
  assumes "node_wf n" and "Cluster_Config c = Inl e" and "\<not> mhas (n_clusters n) (clu_Name c)"
  shows "add_cluster c n = Inl e"
  using assms by (simp add: add_cluster_def createEnvoyCluster_def)

lemma AddListener_wf [simp]: "node_wf (AddListener ls n) = node_wf n"
  by (simp add: AddListener_def node_wf_def clusters_wf_def endpoints_wf_def routes_wf_def vhosts_of_def)

subsection \<open>Routes\<close>

text \<open>A virtual host is added unless one with its name is there.\<close>

definition add_new :: "virtual_host \<Rightarrow> virtual_host list \<Rightarrow> virtual_host list" where
  "add_new v vs = (if vh_Name v \<in> vh_Name ` set vs then vs else vs @ [v])"

lemma add_vhost_post:
  assumes "node_wf n" and "mhas (n_routes n) r"
  shows "node_wf (add_vhost r v n) \<and> vhosts_of (add_vhost r v n) r = add_new v (vhosts_of n r) \<and>
    (\<forall>k. k \<noteq> r \<longrightarrow> vhosts_of (add_vhost r v n) k = vhosts_of n k) \<and>
    dom (map_of (n_routes (add_vhost r v n))) = dom (map_of (n_routes n)) \<and>
    n_clusters (add_vhost r v n) = n_clusters n \<and> n_endpoints (add_vhost r v n) = n_endpoints n \<and>
    n_listeners (add_vhost r v n) = n_listeners n \<and> n_Name (add_vhost r v n) = n_Name n"
proof -
  let ?n = "add_vhost r v n"
  obtain rc where rc: "map_of (n_routes n) r = Some rc" using assms(2) by auto
  have wf: "routes_wf n" using assms(1) by (simp add: node_wf_def)
  then have seen: "vh_Name v \<in> vh_Name ` set (vhosts_of n r) \<longleftrightarrow>
      (\<exists>m. map_of (n_vhostExists n) r = Some m \<and> mhas m (vh_Name v))"
    by (simp add: routes_wf_def)
  have other: "n_clusters ?n = n_clusters n" "n_endpoints ?n = n_endpoints n"
      "n_listeners ?n = n_listeners n" "n_Name ?n = n_Name n"
      "\<And>k. k \<noteq> r \<Longrightarrow> vhosts_of ?n k = vhosts_of n k"
      "\<And>k. k \<noteq> r \<Longrightarrow> map_of (n_vhostExists ?n) k = map_of (n_vhostExists n) k"
      "dom (map_of (n_routes ?n)) = dom (map_of (n_routes n))"
    using rc by (auto simp: add_vhost_def Let_def vhosts_of_def split: option.splits)
  have vs: "vhosts_of ?n r = add_new v (vhosts_of n r)"
    using rc seen by (auto simp: add_vhost_def Let_def vhosts_of_def add_new_def split: option.splits)
  have ex: "\<exists>m. map_of (n_vhostExists ?n) r = Some m \<and>
      (\<forall>x. mhas m x \<longleftrightarrow> x = vh_Name v \<or> (\<exists>m. map_of (n_vhostExists n) r = Some m \<and> mhas m x))"
    by (auto simp: add_vhost_def Let_def split: option.splits)
  have "distinct (map vh_Name (vhosts_of ?n k)) \<and> (\<forall>x. x \<in> vh_Name ` set (vhosts_of ?n k) \<longleftrightarrow>
      (\<exists>m. map_of (n_vhostExists ?n) k = Some m \<and> mhas m x))" for k
    using wf ex unfolding routes_wf_def by (cases "k = r") (auto simp: vs other add_new_def)
  moreover have "map_wf (n_routes ?n)" "\<And>k x. map_of (n_routes ?n) k = Some x \<Longrightarrow> rc_Name x = k"
    using wf rc by (auto simp: routes_wf_def add_vhost_def Let_def split: if_splits option.splits)
  ultimately have "routes_wf ?n" by (simp add: routes_wf_def)
  then show ?thesis
    using assms(1) other vs by (simp add: node_wf_def clusters_wf_def endpoints_wf_def)
qed

lemma fold_vhost_post:
  assumes "node_wf n" and "mhas (n_routes n) r"
  shows "node_wf (fold (add_vhost r) vs n) \<and> vhosts_of (fold (add_vhost r) vs n) r = fold add_new vs (vhosts_of n r) \<and>
    (\<forall>k. k \<noteq> r \<longrightarrow> vhosts_of (fold (add_vhost r) vs n) k = vhosts_of n k) \<and>
    dom (map_of (n_routes (fold (add_vhost r) vs n))) = dom (map_of (n_routes n)) \<and>
    n_clusters (fold (add_vhost r) vs n) = n_clusters n \<and> n_endpoints (fold (add_vhost r) vs n) = n_endpoints n \<and>
    n_listeners (fold (add_vhost r) vs n) = n_listeners n \<and> n_Name (fold (add_vhost r) vs n) = n_Name n"
  using assms
proof (induction vs arbitrary: n)
  case (Cons v vs)
  note p = add_vhost_post [OF Cons.prems, of v]
  moreover from p Cons.prems(2) have "mhas (n_routes (add_vhost r v n)) r" by (metis domIff)
  ultimately show ?case using Cons.IH [of "add_vhost r v n"] by simp
qed simp

lemma AddRoute_post:
  assumes "node_wf n"
  shows "node_wf (AddRoute r vs n) \<and> vhosts_of (AddRoute r vs n) r = fold add_new vs (vhosts_of n r) \<and>
    (\<forall>k. k \<noteq> r \<longrightarrow> vhosts_of (AddRoute r vs n) k = vhosts_of n k) \<and>
    dom (map_of (n_routes (AddRoute r vs n))) = insert r (dom (map_of (n_routes n))) \<and>
    n_clusters (AddRoute r vs n) = n_clusters n \<and> n_endpoints (AddRoute r vs n) = n_endpoints n \<and>
    n_listeners (AddRoute r vs n) = n_listeners n \<and> n_Name (AddRoute r vs n) = n_Name n"
proof -
  define n1 where "n1 = (if \<not> mhas (n_routes n) r
    then n\<lparr>n_routes := mput r \<lparr>rc_Name = r, rc_VirtualHosts = []\<rparr> (n_routes n)\<rparr> else n)"
  have same: "vhosts_of n1 k = vhosts_of n k" for k
    by (auto simp: n1_def vhosts_of_def)
  have "routes_wf n1"
    using assms unfolding routes_wf_def same by (auto simp: n1_def node_wf_def routes_wf_def)
  then have "node_wf n1"
    using assms by (simp add: node_wf_def clusters_wf_def endpoints_wf_def n1_def)
  moreover have "mhas (n_routes n1) r" by (simp add: n1_def)
  ultimately show ?thesis
    using fold_vhost_post [of n1 r vs] unfolding AddRoute_def n1_def [symmetric] same
    by (auto simp: n1_def)
qed

subsection \<open>Properties\<close>

text \<open>Looking a virtual host up by its name.\<close>

lemma find_add_new:
  "find (\<lambda>v. vh_Name v = k) (add_new v vs) =
     (case find (\<lambda>v. vh_Name v = k) vs of Some u \<Rightarrow> Some u | None \<Rightarrow> if vh_Name v = k then Some v else None)"
proof -
  have "find P (vs @ [v]) = (case find P vs of Some u \<Rightarrow> Some u | None \<Rightarrow> if P v then Some v else None)" for P
    by (induction vs) auto
  moreover have "find (\<lambda>u. vh_Name u = vh_Name v) vs \<noteq> None \<longleftrightarrow> vh_Name v \<in> vh_Name ` set vs"
    by (auto simp: find_None_iff image_iff) metis+
  ultimately show ?thesis by (auto simp: add_new_def split: option.split)
qed

lemma find_fold_add_new:
  "find (\<lambda>v. vh_Name v = k) (fold add_new vs us) =
     (case find (\<lambda>v. vh_Name v = k) us of Some u \<Rightarrow> Some u | None \<Rightarrow> find (\<lambda>v. vh_Name v = k) vs)"
  by (induction vs arbitrary: us) (auto simp: find_add_new split: option.split)

text \<open>
  C35. Adding clusters to a node: it succeeds when the configuration of each cluster can be
  read, it keeps the node well-formed, the endpoints of clusters with the same name are
  collected in order under the name, the Envoy cluster is the one of the first of them, and
  routes and listeners stay.
\<close>
theorem add_cluster_collects:
  assumes "node_wf n" and "\<And>c. c \<in> set cs \<Longrightarrow> \<exists>cfg. Cluster_Config c = Inr cfg"
  shows "\<exists>n'. AddCluster cs n = Inr n' \<and> node_wf n' \<and>
    (\<forall>k. lb_endpoints n' k = lb_endpoints n k @ createEnvoyEndpoint (endpoints_named k cs)) \<and>
    (\<forall>k. map_of (n_clusters n') k = (case map_of (n_clusters n) k of Some ec \<Rightarrow> Some ec
       | None \<Rightarrow> map_option (\<lambda>c. projr (createEnvoyCluster c)) (find (\<lambda>c. clu_Name c = k) cs))) \<and>
    n_routes n' = n_routes n \<and> n_listeners n' = n_listeners n"
proof -
  obtain n' where n': "AddCluster cs n = Inr n'" using AddCluster_returns [OF assms] by blast
  show ?thesis
    using AddCluster_post [OF assms(1) n'] AddCluster_first [OF assms(1) n'] n' by blast
qed

theorem add_cluster_collects_witness:
  "\<exists>n'. AddCluster [\<lparr>clu_Name = ''a'', clu_Endpoints = []\<rparr>] (NewNode ''n'') = Inr n' \<and> lb_endpoints n' ''a'' = []"
proof -
  have "\<exists>cfg. Cluster_Config \<lparr>clu_Name = ''a'', clu_Endpoints = []\<rparr> = Inr cfg"
    by (subst Cluster_Config_returns(1)) (simp_all add: expected_status_def range_stops_def)
  moreover have "createEnvoyEndpoint (endpoints_named ''a'' [\<lparr>clu_Name = ''a'', clu_Endpoints = []\<rparr>]) = []"
    by (simp add: endpoints_named_def)
  moreover have "lb_endpoints (NewNode ''n'') ''a'' = []" by (simp add: lb_endpoints_def NewNode_def)
  ultimately show ?thesis
    using add_cluster_collects [of "NewNode ''n''" "[\<lparr>clu_Name = ''a'', clu_Endpoints = []\<rparr>]"] by fastforce
qed

text \<open>
  C36. Adding virtual hosts to a route: the route exists afterwards, its virtual hosts have
  distinct names, the ones it had come first and stay, a name that is new gets the first
  virtual host that is given for it, and other routes, clusters and endpoints stay.
\<close>
theorem add_route_first_wins:
  assumes "node_wf n"
  shows "node_wf (AddRoute r vs n) \<and> mhas (n_routes (AddRoute r vs n)) r \<and>
    distinct (map vh_Name (vhosts_of (AddRoute r vs n) r)) \<and>
    (\<exists>new. vhosts_of (AddRoute r vs n) r = vhosts_of n r @ new) \<and>
    (\<forall>k. find (\<lambda>v. vh_Name v = k) (vhosts_of (AddRoute r vs n) r) =
       (case find (\<lambda>v. vh_Name v = k) (vhosts_of n r) of Some u \<Rightarrow> Some u | None \<Rightarrow> find (\<lambda>v. vh_Name v = k) vs)) \<and>
    (\<forall>k. k \<noteq> r \<longrightarrow> vhosts_of (AddRoute r vs n) k = vhosts_of n k) \<and>
    n_clusters (AddRoute r vs n) = n_clusters n \<and> n_endpoints (AddRoute r vs n) = n_endpoints n"
proof -
  note p = AddRoute_post [OF assms, of r vs]
  have "\<exists>new. fold add_new vs us = us @ new" for us
  proof (induction vs arbitrary: us)
    case (Cons v vs)
    obtain new where "fold add_new vs (add_new v us) = add_new v us @ new" using Cons by blast
    moreover have "\<exists>new. add_new v us = us @ new" by (auto simp: add_new_def)
    ultimately show ?case by (metis append.assoc fold_simps(2))
  qed simp
  moreover have "distinct (map vh_Name (vhosts_of (AddRoute r vs n) r))"
    using p unfolding node_wf_def routes_wf_def by blast
  moreover have "mhas (n_routes (AddRoute r vs n)) r" using p by blast
  ultimately show ?thesis
    using p find_fold_add_new by simp
qed

theorem add_route_first_wins_witness:
  "mhas (n_routes (AddRoute ''r'' [createEnvoyVHost \<lparr>vc_Hostname = ''h'', vc_Cluster = ''c''\<rparr>] (NewNode ''n''))) ''r''"
  using add_route_first_wins [of "NewNode ''n''"] by simp

end
