(* ===== verification/Md5.thy ===== *)
theory Md5
  imports Prelude "HOL-Library.Word"
begin

text \<open>
  The part of Go's \<open>crypto/md5\<close> that the updater uses: \<open>md5.New()\<close>, a sequence of
  \<open>Write\<close> calls and \<open>Sum(nil)\<close> give the MD5 digest (RFC 1321) of the bytes written.
  The digest is always 16 bytes.
\<close>

unbundle bit_operations_syntax

definition md5_table :: "uint32 list" where
  "md5_table = [
     0xD76AA478, 0xE8C7B756, 0x242070DB, 0xC1BDCEEE,
     0xF57C0FAF, 0x4787C62A, 0xA8304613, 0xFD469501,
     0x698098D8, 0x8B44F7AF, 0xFFFF5BB1, 0x895CD7BE,
     0x6B901122, 0xFD987193, 0xA679438E, 0x49B40821,
     0xF61E2562, 0xC040B340, 0x265E5A51, 0xE9B6C7AA,
     0xD62F105D, 0x02441453, 0xD8A1E681, 0xE7D3FBC8,
     0x21E1CDE6, 0xC33707D6, 0xF4D50D87, 0x455A14ED,
     0xA9E3E905, 0xFCEFA3F8, 0x676F02D9, 0x8D2A4C8A,
     0xFFFA3942, 0x8771F681, 0x6D9D6122, 0xFDE5380C,
     0xA4BEEA44, 0x4BDECFA9, 0xF6BB4B60, 0xBEBFBC70,
     0x289B7EC6, 0xEAA127FA, 0xD4EF3085, 0x04881D05,
     0xD9D4D039, 0xE6DB99E5, 0x1FA27CF8, 0xC4AC5665,
     0xF4292244, 0x432AFF97, 0xAB9423A7, 0xFC93A039,
     0x655B59C3, 0x8F0CCC92, 0xFFEFF47D, 0x85845DD1,
     0x6FA87E4F, 0xFE2CE6E0, 0xA3014314, 0x4E0811A1,
     0xF7537E82, 0xBD3AF235, 0x2AD7D2BB, 0xEB86D391]"

definition md5_shifts :: "nat list" where
  "md5_shifts = concat (map (\<lambda>r. concat (replicate 4 r)) [[7, 12, 17, 22], [5, 9, 14, 20], [4, 11, 16, 23], [6, 10, 15, 21]])"

definition rotl32 :: "nat \<Rightarrow> uint32 \<Rightarrow> uint32" where
  "rotl32 k w = push_bit k w OR drop_bit (32 - k) w"

text \<open>Little-endian bytes of a 32-bit word and back.\<close>

definition le_bytes :: "uint32 \<Rightarrow> bytes" where
  "le_bytes w = map (\<lambda>i. ucast (drop_bit (8 * i) w)) [0, 1, 2, 3]"

fun le_words :: "bytes \<Rightarrow> uint32 list" where
  "le_words (a # b # c # d # bs) =
     (ucast a OR push_bit 8 (ucast b) OR push_bit 16 (ucast c) OR push_bit 24 (ucast d)) # le_words bs"
| "le_words _ = []"

text \<open>The message, a 1 bit, zeros up to 56 modulo 64 bytes, and the length in bits as 64 bits.\<close>

definition md5_pad :: "bytes \<Rightarrow> bytes" where
  "md5_pad m =
     (let n = length m;
          zeros = (119 - n mod 64) mod 64;
          bits = of_nat (8 * n) :: int64
      in m @ [0x80] @ replicate zeros 0 @ map (\<lambda>i. ucast (drop_bit (8 * i) bits)) [0..<8])"

type_synonym md5_state = "uint32 \<times> uint32 \<times> uint32 \<times> uint32"

definition md5_init :: md5_state where
  "md5_init = (0x67452301, 0xEFCDAB89, 0x98BADCFE, 0x10325476)"

definition md5_mix :: "nat \<Rightarrow> uint32 \<Rightarrow> uint32 \<Rightarrow> uint32 \<Rightarrow> uint32 \<times> nat" where
  "md5_mix i b c d =
     (if i < 16 then ((b AND c) OR (NOT b AND d), i)
      else if i < 32 then ((d AND b) OR (NOT d AND c), (5 * i + 1) mod 16)
      else if i < 48 then (b XOR c XOR d, (3 * i + 5) mod 16)
      else (c XOR (b OR NOT d), (7 * i) mod 16))"

definition md5_round :: "uint32 list \<Rightarrow> nat \<times> uint32 \<times> nat \<Rightarrow> md5_state \<Rightarrow> md5_state" where
  "md5_round ws = (\<lambda>(i, k, s) (a, b, c, d).
     let (f, g) = md5_mix i b c d
     in (d, b + rotl32 s (a + f + k + ws ! g), b, c))"

definition md5_block :: "uint32 list \<Rightarrow> md5_state \<Rightarrow> md5_state" where
  "md5_block ws = (\<lambda>(a0, b0, c0, d0).
     let (a, b, c, d) = fold (md5_round ws) (zip [0..<64] (zip md5_table md5_shifts)) (a0, b0, c0, d0)
     in (a0 + a, b0 + b, c0 + c, d0 + d))"

function md5_blocks :: "uint32 list \<Rightarrow> md5_state \<Rightarrow> md5_state" where
  "md5_blocks ws st =
     (if length ws < 16 then st else md5_blocks (drop 16 ws) (md5_block (take 16 ws) st))"
  by pat_completeness auto
termination
  by (relation "measure (\<lambda>(ws, st). length ws)") auto

declare md5_blocks.simps [simp del]

definition md5 :: "bytes \<Rightarrow> bytes" where
  "md5 m = (case md5_blocks (le_words (md5_pad m)) md5_init of
     (a, b, c, d) \<Rightarrow> le_bytes a @ le_bytes b @ le_bytes c @ le_bytes d)"

lemma length_md5: "length (md5 m) = 16"
  by (simp add: md5_def le_bytes_def split: prod.split)

text \<open>Padding fills whole blocks of 64 bytes, so no byte of the message is left out.\<close>

lemma pad_mod: "((n :: nat) + 1 + z mod 64 + 8) mod 64 = (n mod 64 + z + 9) mod 64"
proof -
  have "n + 1 + z mod 64 + 8 = n + (z mod 64 + 9)" by simp
  moreover have "(n + (z mod 64 + 9)) mod 64 = (n mod 64 + (z mod 64 + 9)) mod 64"
    by (rule mod_add_left_eq [symmetric])
  moreover have "(n mod 64 + z mod 64 + 9) mod 64 = (n mod 64 + z + 9) mod 64"
    by (metis mod_add_left_eq mod_add_right_eq)
  ultimately show ?thesis by (simp only: add.assoc)
qed

lemma length_md5_pad: "length (md5_pad m) mod 64 = 0"
proof -
  let ?n = "length m"
  have "(?n + 1 + (119 - ?n mod 64) mod 64 + 8) mod 64 = (?n mod 64 + (119 - ?n mod 64) + 9) mod 64"
    by (rule pad_mod)
  also have "?n mod 64 + (119 - ?n mod 64) + 9 = 128"
    using mod_less_divisor [of 64 ?n] by arith
  finally show ?thesis by (simp add: md5_pad_def Let_def ac_simps)
qed

end
