(* ===== verification/Updater.thy ===== *)
theory Updater
  imports NodeBuilder Md5 Cache
begin

text \<open>
  \<open>pkg/provider/updater.go\<close>: the updater turns the clusters of the service provider into one
  Envoy configuration per node and puts it into the cache. \<open>Updater_poll\<close> is one turn of the
  endless loop of \<open>Run\<close> (without the wait), \<open>Run\<close> a number of turns.

  The updater sees the cache through the interface \<open>cache.SnapshotCache\<close>: the locale
  \<open>snapshot_sink\<close> states what it relies on, and the snapshot cache is an interpretation.
\<close>

subsection \<open>Names\<close>

definition localClusterPrefix :: string where "localClusterPrefix = ''local''"
definition egressRoute :: string where "egressRoute = ''egress_route''"
definition ingressRoute :: string where "ingressRoute = ''ingress_route''"

subsection \<open>Transformation\<close>

text \<open>The first loop over the clusters: both lists are collected in the same order.\<close>

definition global_clusters :: "string order \<Rightarrow> provider_clusters \<Rightarrow> cluster list" where
  "global_clusters ord pc = concat (map (\<lambda>(_, cs). makeEgressClusters cs) (mrange ord pc))"

definition global_vhosts :: "string order \<Rightarrow> provider_clusters \<Rightarrow> virtual_host list" where
  "global_vhosts ord pc = concat (map (\<lambda>(_, cs).
     map (\<lambda>c. createEnvoyVHost \<lparr>vc_Hostname = clu_Name c, vc_Cluster = clu_Name c\<rparr>) cs) (mrange ord pc))"

definition localClusterName :: "cluster \<Rightarrow> string" where
  "localClusterName cluster = localClusterPrefix @ ''_'' @ clu_Name cluster"

text \<open>The body of the loop over the clusters of a node.\<close>

definition add_local :: "protobuf \<Rightarrow> cluster \<Rightarrow> node \<times> listener_builder \<Rightarrow> (node \<times> listener_builder) go" where
  "add_local pb cluster = (\<lambda>(node, ingressListener).
     go_bind (AddCluster [\<lparr>clu_Name = localClusterName cluster, clu_Endpoints = clu_Endpoints cluster\<rparr>] node)
       (\<lambda>node1.
         let node2 = AddRoute ingressRoute
               [createEnvoyVHost \<lparr>vc_Hostname = clu_Name cluster, vc_Cluster = localClusterName cluster\<rparr>] node1
         in go_bind (InjectHealthCheckCache pb cluster ingressListener) (\<lambda>l1.
              go_bind (Cluster_Config cluster) (\<lambda>cfg.
                Inr (node2, InjectFault pb (cc_FaultConfig cfg) l1)))))"

definition ingress_config :: "string \<Rightarrow> listener_config" where
  "ingress_config name = \<lparr>lc_Name = name, lc_TracingOperation = INGRESS, lc_TargetRoute = ingressRoute,
     lc_Address = ''0.0.0.0'', lc_Port = defaultIngressTrafficPort\<rparr>"

definition egress_config :: listener_config where
  "egress_config = \<lparr>lc_Name = ''default-egress'', lc_TracingOperation = EGRESS, lc_TargetRoute = egressRoute,
     lc_Address = ''0.0.0.0'', lc_Port = defaultEgressTrafficPort\<rparr>"

text \<open>The body of the second loop: the configuration of one node.\<close>

definition build_node :: "protobuf \<Rightarrow> cluster list \<Rightarrow> virtual_host list \<Rightarrow> string \<times> cluster list \<Rightarrow> node go" where
  "build_node pb globalCluster globalVHosts = (\<lambda>(name, clusters).
     go_bind (AddCluster globalCluster (NewNode name)) (\<lambda>node.
       let node1 = AddRoute egressRoute globalVHosts node;
           ingressListener = NewListener pb (ingress_config ''default-ingress'');
           egressListener = NewListener pb egress_config
       in go_bind (go_fold (add_local pb) clusters (node1, ingressListener)) (\<lambda>(node2, ingressListener2).
            go_bind (Listener_Resource pb ingressListener2) (\<lambda>li.
              go_bind (Listener_Resource pb egressListener) (\<lambda>le.
                Inr (AddListener [li, le] node2))))))"

text \<open>The node \<open>ingress\<close>; its listener has no name.\<close>

definition ingress_node :: "protobuf \<Rightarrow> cluster list \<Rightarrow> virtual_host list \<Rightarrow> node go" where
  "ingress_node pb globalCluster globalVHosts =
     go_bind (AddCluster globalCluster (NewNode ''ingress'')) (\<lambda>node.
       let node1 = AddRoute ingressRoute globalVHosts node;
           ingressListener = InjectAuthz pb \<lparr>az_Cluster = ''authz''\<rparr> (NewListener pb (ingress_config []))
       in go_bind (Listener_Resource pb ingressListener) (\<lambda>li. Inr (AddListener [li] node1)))"

text \<open>The error that \<open>transform\<close> returns is always nil. The two loops have their own orders.\<close>

definition transform :: "protobuf \<Rightarrow> string order \<Rightarrow> string order \<Rightarrow> provider_clusters \<Rightarrow> node list go" where
  "transform pb ord1 ord2 pc =
     (let globalCluster = global_clusters ord1 pc;
          globalVHosts = global_vhosts ord1 pc
      in go_bind (go_map (build_node pb globalCluster globalVHosts) (mrange ord2 pc)) (\<lambda>nodes.
           go_bind (ingress_node pb globalCluster globalVHosts) (\<lambda>node. Inr (nodes @ [node]))))"

subsection \<open>Polling\<close>

text \<open>Resources that cannot be marshalled are left out of the hash.\<close>

definition computeVersion :: "protobuf \<Rightarrow> resource list \<Rightarrow> string" where
  "computeVersion pb rs =
     EncodeToString (md5 (concat (map (\<lambda>ep. case pb_Marshal pb ep of Inl _ \<Rightarrow> [] | Inr b \<Rightarrow> b) rs)))"

text \<open>The four loops over the maps of a node, numbered in the order of the calls.\<close>

definition node_snapshot :: "protobuf \<Rightarrow> (nat \<Rightarrow> string order) \<Rightarrow> node \<Rightarrow> snapshot" where
  "node_snapshot pb ords n =
     NewSnapshot (computeVersion pb (Node_Endpoints (ords 0) n))
       (Node_Endpoints (ords 1) n) (Node_Clusters (ords 2) n) (Node_Routes (ords 3) n) (Node_Listeners n)"

text \<open>
  The environment of a turn: the orders of the loops of \<open>transform\<close>, and for each node the
  orders of its loops and the choices of the cache, by position.
\<close>

record 'e poll_env =
  pe_first :: "string order"
  pe_second :: "string order"
  pe_node :: "nat \<Rightarrow> nat \<Rightarrow> string order"
  pe_set :: "nat \<Rightarrow> 'e"

definition publish_nodes ::
    "('e \<Rightarrow> string \<Rightarrow> snapshot \<Rightarrow> 's \<Rightarrow> 's go) \<Rightarrow> protobuf \<Rightarrow> 'e poll_env \<Rightarrow> node list \<Rightarrow> 's \<Rightarrow> 's go" where
  "publish_nodes setSnapshot pb env nodes =
     go_fold (\<lambda>(i, node). setSnapshot (pe_set env i) (n_Name node) (node_snapshot pb (pe_node env i) node))
       (List.enumerate 0 nodes)"

definition Updater_poll ::
    "('e \<Rightarrow> string \<Rightarrow> snapshot \<Rightarrow> 's \<Rightarrow> 's go) \<Rightarrow> protobuf \<Rightarrow> 'e poll_env
     \<Rightarrow> go_error + provider_clusters \<Rightarrow> 's \<Rightarrow> 's go" where
  "Updater_poll setSnapshot pb env result s =
     (case result of
        Inl err \<Rightarrow> Inr s
      | Inr providerEndpoints \<Rightarrow>
          go_bind (transform pb (pe_first env) (pe_second env) providerEndpoints) (\<lambda>nodes.
            publish_nodes setSnapshot pb env nodes s))"

definition Run ::
    "('e \<Rightarrow> string \<Rightarrow> snapshot \<Rightarrow> 's \<Rightarrow> 's go) \<Rightarrow> protobuf
     \<Rightarrow> ('e poll_env \<times> (go_error + provider_clusters)) list \<Rightarrow> 's \<Rightarrow> 's go" where
  "Run setSnapshot pb polls = go_fold (\<lambda>(env, result). Updater_poll setSnapshot pb env result) polls"

subsection \<open>What transform builds\<close>

definition local_of :: "cluster \<Rightarrow> cluster" where
  "local_of c = \<lparr>clu_Name = localClusterName c, clu_Endpoints = clu_Endpoints c\<rparr>"

definition local_vhost :: "cluster \<Rightarrow> virtual_host" where
  "local_vhost c = createEnvoyVHost \<lparr>vc_Hostname = clu_Name c, vc_Cluster = localClusterName c\<rparr>"

text \<open>The filters that one cluster of a node adds in front of the ingress listener's filters.\<close>

definition cluster_filters :: "cluster \<Rightarrow> string list" where
  "cluster_filters c =
     (case Cluster_Config c of
        Inr cfg \<Rightarrow> (if Enabled (cc_FaultConfig cfg) then [Fault, HealthCheck] else [HealthCheck])
      | Inl _ \<Rightarrow> [])"

lemma Cluster_Config_endpoints: "clu_Endpoints c = clu_Endpoints d \<Longrightarrow> Cluster_Config c = Cluster_Config d"
  by (simp add: Cluster_Config_def Cluster_Config_ordered_def mergeAnnotations_def)

lemma Cluster_Config_local [simp]: "Cluster_Config (local_of c) = Cluster_Config c"
  by (rule Cluster_Config_endpoints) (simp add: local_of_def)

lemma endpoints_named_append:
  "endpoints_named k (xs @ ys) = endpoints_named k xs @ endpoints_named k ys"
  by (simp add: endpoints_named_def)

text \<open>The parts of the state that the loop over a node's clusters leaves alone.\<close>

lemma add_local_post:
  assumes "node_wf n" and "builder_wf ingressRoute l" and "add_local pb c (n, l) = Inr (n', l')"
  shows "node_wf n'" "builder_wf ingressRoute l'" "n_Name n' = n_Name n" "n_listeners n' = n_listeners n"
    "envoyListener l' = envoyListener l"
    "lb_endpoints n' k = lb_endpoints n k @ createEnvoyEndpoint (endpoints_named k [local_of c])"
    "dom (map_of (n_clusters n')) = insert (localClusterName c) (dom (map_of (n_clusters n)))"
    "dom (map_of (n_routes n')) = insert ingressRoute (dom (map_of (n_routes n)))"
    "vhosts_of n' ingressRoute = add_new (local_vhost c) (vhosts_of n ingressRoute)"
    "r \<noteq> ingressRoute \<Longrightarrow> vhosts_of n' r = vhosts_of n r"
    "filter_names_of l' = cluster_filters c @ filter_names_of l"
proof -
  obtain n1 l1 cfg where n1: "AddCluster [local_of c] n = Inr n1"
    and l1: "InjectHealthCheckCache pb c l = Inr l1" and cfg: "Cluster_Config c = Inr cfg"
    and n': "n' = AddRoute ingressRoute [local_vhost c] n1" and l': "l' = InjectFault pb (cc_FaultConfig cfg) l1"
    using assms(3) by (auto simp: add_local_def Let_def go_bind_eq_Inr local_of_def local_vhost_def)
  note p = AddCluster_post [OF assms(1) n1]
  then have "node_wf n1" by blast
  note q = AddRoute_post [OF this, of ingressRoute "[local_vhost c]"]
  have lb: "lb_endpoints n' k = lb_endpoints n1 k" for k
    using q by (simp add: n' lb_endpoints_def)
  have vh: "vhosts_of n1 r = vhosts_of n r" for r
    using p by (simp add: vhosts_of_def)
  show "node_wf n'" "n_Name n' = n_Name n" "n_listeners n' = n_listeners n"
    "lb_endpoints n' k = lb_endpoints n k @ createEnvoyEndpoint (endpoints_named k [local_of c])"
    "dom (map_of (n_clusters n')) = insert (localClusterName c) (dom (map_of (n_clusters n)))"
    "dom (map_of (n_routes n')) = insert ingressRoute (dom (map_of (n_routes n)))"
    "vhosts_of n' ingressRoute = add_new (local_vhost c) (vhosts_of n ingressRoute)"
    "r \<noteq> ingressRoute \<Longrightarrow> vhosts_of n' r = vhosts_of n r"
    using p q unfolding lb by (simp_all add: n' vh local_of_def)
  show "builder_wf ingressRoute l'"
    unfolding l' by (rule builder_wf_InjectFault [OF builder_wf_InjectHealthCheckCache [OF assms(2) l1]])
  show "envoyListener l' = envoyListener l" using l1 by (simp add: l')
  show "filter_names_of l' = cluster_filters c @ filter_names_of l"
    using filter_names_InjectHealthCheckCache [OF l1] by (simp add: l' filter_names_InjectFault cluster_filters_def cfg)
qed

lemma add_local_fold:
  assumes "node_wf n" and "builder_wf ingressRoute l" and "go_fold (add_local pb) cs (n, l) = Inr (n', l')"
  shows "node_wf n' \<and> builder_wf ingressRoute l' \<and> n_Name n' = n_Name n \<and> n_listeners n' = n_listeners n \<and>
    envoyListener l' = envoyListener l \<and>
    (\<forall>k. lb_endpoints n' k = lb_endpoints n k @ createEnvoyEndpoint (endpoints_named k (map local_of cs))) \<and>
    dom (map_of (n_clusters n')) = dom (map_of (n_clusters n)) \<union> localClusterName ` set cs \<and>
    dom (map_of (n_routes n')) = dom (map_of (n_routes n)) \<union> (if cs = [] then {} else {ingressRoute}) \<and>
    vhosts_of n' ingressRoute = fold add_new (map local_vhost cs) (vhosts_of n ingressRoute) \<and>
    (\<forall>r. r \<noteq> ingressRoute \<longrightarrow> vhosts_of n' r = vhosts_of n r) \<and>
    filter_names_of l' = concat (map cluster_filters (rev cs)) @ filter_names_of l"
  using assms
proof (induction cs arbitrary: n l)
  case Nil
  then show ?case by (simp add: endpoints_named_def)
next
  case (Cons c cs)
  then obtain n1 l1 where 1: "add_local pb c (n, l) = Inr (n1, l1)"
    and 2: "go_fold (add_local pb) cs (n1, l1) = Inr (n', l')"
    by (auto simp: go_bind_eq_Inr)
  note p = add_local_post [OF Cons.prems(1,2) 1]
  have e: "createEnvoyEndpoint (endpoints_named k (map local_of (c # cs))) =
      createEnvoyEndpoint (endpoints_named k [local_of c]) @ createEnvoyEndpoint (endpoints_named k (map local_of cs))" for k
    using endpoints_named_append [of k "[local_of c]" "map local_of cs"] by (simp add: createEnvoyEndpoint_append)
  show ?case
    using Cons.IH [OF p(1,2) 2] p(3-) unfolding e by (auto simp: Un_commute)
qed

text \<open>The configuration of a node, as \<open>transform\<close> means it to be.\<close>

definition node_spec :: "protobuf \<Rightarrow> cluster list \<Rightarrow> virtual_host list \<Rightarrow> string \<Rightarrow> cluster list \<Rightarrow> node \<Rightarrow> bool" where
  "node_spec pb gc gv name cs n \<longleftrightarrow> node_wf n \<and> n_Name n = name \<and>
     (\<forall>k. lb_endpoints n k = createEnvoyEndpoint (endpoints_named k (gc @ map local_of cs))) \<and>
     dom (map_of (n_clusters n)) = clu_Name ` set gc \<union> localClusterName ` set cs \<and>
     vhosts_of n egressRoute = fold add_new gv [] \<and>
     vhosts_of n ingressRoute = fold add_new (map local_vhost cs) [] \<and>
     dom (map_of (n_routes n)) = {egressRoute} \<union> (if cs = [] then {} else {ingressRoute}) \<and>
     (\<exists>li le bi be. n_listeners n = [li, le] \<and>
        li_Name li = ''default-ingress'' \<and> li_Name le = ''default-egress'' \<and>
        builder_wf ingressRoute bi \<and> Listener_Resource pb bi = Inr li \<and>
        builder_wf egressRoute be \<and> Listener_Resource pb be = Inr le \<and>
        built_from pb bi li \<and> built_from pb be le \<and>
        li_Address li = \<lparr>sa_Protocol = TCP, sa_Address = ''0.0.0.0'', sa_PortValue = defaultIngressTrafficPort\<rparr> \<and>
        li_Address le = \<lparr>sa_Protocol = TCP, sa_Address = ''0.0.0.0'', sa_PortValue = defaultEgressTrafficPort\<rparr> \<and>
        filter_names_of bi = concat (map cluster_filters (rev cs)) @ [Router] \<and> filter_names_of be = [Router])"

lemma route_names [simp]: "egressRoute \<noteq> ingressRoute" "ingressRoute \<noteq> egressRoute"
  by (simp_all add: egressRoute_def ingressRoute_def)

lemma lb_endpoints_New [simp]: "lb_endpoints (NewNode name) k = []"
  by (simp add: lb_endpoints_def NewNode_def)

lemma vhosts_New [simp]: "vhosts_of (NewNode name) k = []"
  by (simp add: vhosts_of_def NewNode_def)

lemma NewNode_fields [simp]:
  "n_Name (NewNode name) = name" "n_listeners (NewNode name) = []" "n_clusters (NewNode name) = []"
  "n_routes (NewNode name) = []"
  by (simp_all add: NewNode_def)

lemma vhosts_same: "n_routes n' = n_routes n \<Longrightarrow> vhosts_of n' k = vhosts_of n k"
  by (simp add: vhosts_of_def)

lemma lb_endpoints_same: "n_endpoints n' = n_endpoints n \<Longrightarrow> lb_endpoints n' k = lb_endpoints n k"
  by (simp add: lb_endpoints_def)

lemma node_spec_listeners:
  "node_wf (AddListener ls n) = node_wf n" "n_Name (AddListener ls n) = n_Name n"
  "lb_endpoints (AddListener ls n) k = lb_endpoints n k" "n_clusters (AddListener ls n) = n_clusters n"
  "n_routes (AddListener ls n) = n_routes n" "vhosts_of (AddListener ls n) k = vhosts_of n k"
  "n_listeners (AddListener ls n) = n_listeners n @ ls"
  by simp (simp_all add: AddListener_def lb_endpoints_def vhosts_of_def)

lemma build_node_post:
  assumes "build_node pb gc gv (name, cs) = Inr n"
  shows "node_spec pb gc gv name cs n"
proof -
  let ?bi = "NewListener pb (ingress_config ''default-ingress'')" and ?be = "NewListener pb egress_config"
  obtain n0 n2 bi li le where n0: "AddCluster gc (NewNode name) = Inr n0"
    and fold: "go_fold (add_local pb) cs (AddRoute egressRoute gv n0, ?bi) = Inr (n2, bi)"
    and li: "Listener_Resource pb bi = Inr li" and le: "Listener_Resource pb ?be = Inr le"
    and n: "n = AddListener [li, le] n2"
    using assms by (auto simp: build_node_def Let_def go_bind_eq_Inr)
  note p0 = AddCluster_post [OF node_wf_New n0]
  then have "node_wf n0" by blast
  note p1 = AddRoute_post [OF this, of egressRoute gv]
  then have w1: "node_wf (AddRoute egressRoute gv n0)" by blast
  have wi: "builder_wf ingressRoute ?bi" and we: "builder_wf egressRoute ?be"
    using builder_wf_New [of "ingress_config ''default-ingress''" pb] builder_wf_New [of egress_config pb]
    by (simp_all add: ingress_config_def egress_config_def)
  note p2 = add_local_fold [OF w1 wi fold]
  have lb: "lb_endpoints n2 k = createEnvoyEndpoint (endpoints_named k (gc @ map local_of cs))" for k
    using p0 p1 p2 lb_endpoints_same [of "AddRoute egressRoute gv n0" n0 k]
    by (simp add: endpoints_named_append createEnvoyEndpoint_append)
  have v0: "vhosts_of n0 k = []" for k using p0 vhosts_same [of n0 "NewNode name" k] by simp
  have v: "vhosts_of n2 egressRoute = fold add_new gv []"
      "vhosts_of n2 ingressRoute = fold add_new (map local_vhost cs) []"
    using p1 p2 by (simp_all add: v0)
  have d: "dom (map_of (n_clusters n2)) = clu_Name ` set gc \<union> localClusterName ` set cs"
      "dom (map_of (n_routes n2)) = {egressRoute} \<union> (if cs = [] then {} else {ingressRoute})"
    using p0 p1 p2 by simp_all
  have names: "li_Name li = ''default-ingress''" "li_Name le = ''default-egress''"
    using Listener_Resource_name [OF li] Listener_Resource_name [OF le] p2
    by (simp_all add: NewListener_def ingress_config_def egress_config_def)
  have ls: "n_listeners n2 = []" "n_Name n2 = name" "node_wf n2" "builder_wf ingressRoute bi"
      "filter_names_of bi = concat (map cluster_filters (rev cs)) @ [Router]"
    using p0 p1 p2 by simp_all
  have built: "built_from pb bi li" "built_from pb ?be le"
    by (rule Listener_Resource_built [OF ls(4) li], rule Listener_Resource_built [OF we le])
  have addr: "li_Address li = \<lparr>sa_Protocol = TCP, sa_Address = ''0.0.0.0'', sa_PortValue = defaultIngressTrafficPort\<rparr>"
      "li_Address le = \<lparr>sa_Protocol = TCP, sa_Address = ''0.0.0.0'', sa_PortValue = defaultEgressTrafficPort\<rparr>"
    using built p2 by (simp_all add: built_from_def NewListener_def ingress_config_def egress_config_def)
  have nil: "n_listeners (AddListener [li, le] n2) = [li, le]" using ls(1) by (simp add: AddListener_def)
  show ?thesis
    unfolding node_spec_def n
  proof (intro conjI exI)
    show "n_listeners (AddListener [li, le] n2) = [li, le]" by (rule nil)
  qed (use lb v d names ls li le we built addr in \<open>auto simp: node_spec_listeners\<close>)
qed

lemma ingress_node_post:
  assumes "ingress_node pb gc gv = Inr n"
  shows "node_wf n \<and> n_Name n = ''ingress'' \<and>
    (\<forall>k. lb_endpoints n k = createEnvoyEndpoint (endpoints_named k gc)) \<and>
    dom (map_of (n_clusters n)) = clu_Name ` set gc \<and>
    vhosts_of n ingressRoute = fold add_new gv [] \<and> dom (map_of (n_routes n)) = {ingressRoute} \<and>
    (\<exists>li bi. n_listeners n = [li] \<and> builder_wf ingressRoute bi \<and> Listener_Resource pb bi = Inr li \<and>
       built_from pb bi li \<and> filter_names_of bi = [HTTPExternalAuthorization, Router] \<and>
       li_Address li = \<lparr>sa_Protocol = TCP, sa_Address = ''0.0.0.0'', sa_PortValue = defaultIngressTrafficPort\<rparr>)"
proof -
  let ?bi = "InjectAuthz pb \<lparr>az_Cluster = ''authz''\<rparr> (NewListener pb (ingress_config []))"
  obtain n0 li where n0: "AddCluster gc (NewNode ''ingress'') = Inr n0"
    and li: "Listener_Resource pb ?bi = Inr li" and n: "n = AddListener [li] (AddRoute ingressRoute gv n0)"
    using assms by (auto simp: ingress_node_def Let_def go_bind_eq_Inr)
  note p0 = AddCluster_post [OF node_wf_New n0]
  then have "node_wf n0" by blast
  note p1 = AddRoute_post [OF this, of ingressRoute gv]
  have "builder_wf ingressRoute (NewListener pb (ingress_config []))"
    using builder_wf_New [of "ingress_config []" pb] by (simp add: ingress_config_def)
  then have bi: "builder_wf ingressRoute ?bi" by (rule builder_wf_InjectAuthz)
  have "lb_endpoints (AddRoute ingressRoute gv n0) k = createEnvoyEndpoint (endpoints_named k gc)" for k
    using p0 p1 lb_endpoints_same [of "AddRoute ingressRoute gv n0" n0 k] by simp
  moreover have "vhosts_of n0 k = []" for k using p0 vhosts_same [of n0 "NewNode ''ingress''" k] by simp
  moreover have "filter_names_of ?bi = [HTTPExternalAuthorization, Router]"
    by (simp add: filter_names_InjectAuthz)
  moreover have "built_from pb ?bi li" by (rule Listener_Resource_built [OF bi li])
  moreover from this have
    "li_Address li = \<lparr>sa_Protocol = TCP, sa_Address = ''0.0.0.0'', sa_PortValue = defaultIngressTrafficPort\<rparr>"
    by (simp add: built_from_def NewListener_def ingress_config_def)
  ultimately show ?thesis
    unfolding n node_spec_listeners using p0 p1 li bi by auto
qed

subsection \<open>When transform returns\<close>

lemma readable_config:
  "provider_wf pc \<Longrightarrow> readable pc \<Longrightarrow> (name, cs) \<in> set pc \<Longrightarrow> c \<in> set cs \<Longrightarrow> \<exists>cfg. Cluster_Config c = Inr cfg"
  using Cluster_Config_returns(1) [OF provider_wfD] unfolding readable_def by fastforce

lemma global_cluster_origin:
  assumes "is_order ord" and "provider_wf pc" and "d \<in> set (global_clusters ord pc)"
  obtains name cs c where "(name, cs) \<in> set pc" "c \<in> set cs" "d \<in> set (makeEgressClusters [c])"
    "Cluster_Config d = Cluster_Config c"
proof -
  have "set (mrange ord pc) = set pc" using assms by (simp add: provider_wf_def)
  then obtain name cs c where "(name, cs) \<in> set pc" "c \<in> set cs" "d \<in> set (makeEgressClusters [c])"
    using assms(3) by (auto simp: global_clusters_def makeEgressClusters_def)
  then show thesis
    using that Cluster_Config_egress [OF provider_wfD [OF assms(2)]] by blast
qed

lemma build_node_returns:
  assumes "\<And>c. c \<in> set (gc @ cs) \<Longrightarrow> \<exists>cfg. Cluster_Config c = Inr cfg"
  shows "\<exists>n. build_node pb gc gv (name, cs) = Inr n"
proof -
  obtain n0 where n0: "AddCluster gc (NewNode name) = Inr n0"
    using AddCluster_returns [OF node_wf_New, of gc name] assms by auto
  have "node_wf (AddRoute egressRoute gv n0)"
    using AddCluster_post [OF node_wf_New n0] AddRoute_post by blast
  let ?P = "\<lambda>(n, l). node_wf n \<and> builder_wf ingressRoute l"
  have step: "\<exists>t. add_local pb c s = Inr t \<and> ?P t" if c: "c \<in> set cs" and s: "?P s" for c s
  proof -
    obtain n l where nl: "s = (n, l)" by (cases s)
    obtain cfg where cfg: "Cluster_Config c = Inr cfg" using assms c by fastforce
    then obtain n1 where "AddCluster [local_of c] n = Inr n1"
      using AddCluster_returns [of n "[local_of c]"] s nl by auto
    then have "\<exists>n' l'. add_local pb c (n, l) = Inr (n', l')"
      using cfg by (simp add: add_local_def InjectHealthCheckCache_def Let_def local_of_def)
    then obtain n' l' where r: "add_local pb c (n, l) = Inr (n', l')" by blast
    moreover have "node_wf n" "builder_wf ingressRoute l" using s by (simp_all add: nl)
    ultimately show ?thesis
      using add_local_post(1,2) [of n l pb c n' l'] by (simp add: nl)
  qed
  have "builder_wf ingressRoute (NewListener pb (ingress_config ''default-ingress''))"
    using builder_wf_New [of "ingress_config ''default-ingress''" pb] by (simp add: ingress_config_def)
  then have "?P (AddRoute egressRoute gv n0, NewListener pb (ingress_config ''default-ingress''))"
    using \<open>node_wf (AddRoute egressRoute gv n0)\<close> by simp
  then have "\<exists>t. go_fold (add_local pb) cs
      (AddRoute egressRoute gv n0, NewListener pb (ingress_config ''default-ingress'')) = Inr t \<and> ?P t"
    by (rule go_fold_returns [where P = ?P]) (rule step)
  then obtain n2 l2 where "go_fold (add_local pb) cs
      (AddRoute egressRoute gv n0, NewListener pb (ingress_config ''default-ingress'')) = Inr (n2, l2)"
      "builder_wf ingressRoute l2"
    by (metis (no_types, lifting) case_prodE)
  moreover have "builder_wf egressRoute (NewListener pb egress_config)"
    using builder_wf_New [of egress_config pb] by (simp add: egress_config_def)
  ultimately show ?thesis
    using n0 by (simp add: build_node_def Let_def Listener_Resource_wf)
qed

lemma ingress_node_returns:
  assumes "\<And>c. c \<in> set gc \<Longrightarrow> \<exists>cfg. Cluster_Config c = Inr cfg"
  shows "\<exists>n. ingress_node pb gc gv = Inr n"
proof -
  obtain n0 where n0: "AddCluster gc (NewNode ''ingress'') = Inr n0"
    using AddCluster_returns [OF node_wf_New, of gc "''ingress''"] assms by auto
  have "builder_wf ingressRoute (NewListener pb (ingress_config []))"
    using builder_wf_New [of "ingress_config []" pb] by (simp add: ingress_config_def)
  then show ?thesis
    using n0 Listener_Resource_wf [OF builder_wf_InjectAuthz]
    by (auto simp: ingress_node_def Let_def)
qed

lemma transform_returns:
  assumes "provider_wf pc" and "readable pc" and "is_order ord1" and "is_order ord2"
  shows "\<exists>nodes. transform pb ord1 ord2 pc = Inr nodes"
proof -
  have g: "\<exists>cfg. Cluster_Config c = Inr cfg" if "c \<in> set (global_clusters ord1 pc)" for c
    using global_cluster_origin [OF assms(3,1) that] readable_config [OF assms(1,2)] by metis
  have mem: "set (mrange ord2 pc) = set pc" using assms by (simp add: provider_wf_def)
  have "\<exists>n. build_node pb (global_clusters ord1 pc) (global_vhosts ord1 pc) x = Inr n" if "x \<in> set (mrange ord2 pc)" for x
  proof -
    obtain name cs where x: "x = (name, cs)" by (cases x)
    then have "(name, cs) \<in> set pc" using that mem by simp
    then show ?thesis
      unfolding x using g readable_config [OF assms(1,2)] by (intro build_node_returns) auto
  qed
  then obtain ns where "go_map (build_node pb (global_clusters ord1 pc) (global_vhosts ord1 pc)) (mrange ord2 pc) = Inr ns"
    using go_map_returns by blast
  moreover obtain n where "ingress_node pb (global_clusters ord1 pc) (global_vhosts ord1 pc) = Inr n"
    using ingress_node_returns g by blast
  ultimately show ?thesis by (simp add: transform_def Let_def)
qed

text \<open>The only way to stop is the index out of range in the status range.\<close>

lemma Cluster_Config_stop: "Cluster_Config c = Inl e \<Longrightarrow> e = IndexOutOfRange"
  by (auto simp: Cluster_Config_def Cluster_Config_ordered_def parseClusterAnnotations_def
      parseInt64RangeWithFallback_eq split: if_splits)

lemma add_cluster_stop:
  assumes "node_wf n" and "add_cluster c n = Inl e"
  shows "e = IndexOutOfRange"
proof -
  have "endpoints_wf (n\<lparr>n_clusters := cs\<rparr>)" for cs
    using assms(1) by (simp add: node_wf_def endpoints_wf_def)
  then have "\<exists>n'. AddEndpoints (clu_Name c) (clu_Endpoints c) (n\<lparr>n_clusters := cs\<rparr>) = Inr n'" for cs
    by (rule AddEndpoints_post) auto
  moreover have "n\<lparr>n_clusters := n_clusters n\<rparr> = n" by simp
  ultimately have eps: "AddEndpoints (clu_Name c) (clu_Endpoints c) (n\<lparr>n_clusters := cs\<rparr>) \<noteq> Inl e"
      "AddEndpoints (clu_Name c) (clu_Endpoints c) n \<noteq> Inl e" for cs
    by (metis sum.distinct(1))+
  have "createEnvoyCluster c = Inl e"
  proof (cases "mhas (n_clusters n) (clu_Name c)")
    case True
    then show ?thesis using assms(2) eps by (simp add: add_cluster_def)
  next
    case False
    then show ?thesis using assms(2) eps by (cases "createEnvoyCluster c") (simp_all add: add_cluster_def)
  qed
  then show ?thesis using Cluster_Config_stop createEnvoyCluster_stops by blast
qed

lemma AddCluster_stop: "node_wf n \<Longrightarrow> AddCluster cs n = Inl e \<Longrightarrow> e = IndexOutOfRange"
  unfolding AddCluster_def
  by (drule go_fold_Inl [where P = node_wf]) (auto dest: add_cluster_post add_cluster_stop)

lemma add_local_stop:
  assumes "node_wf n" and "add_local pb c (n, l) = Inl e"
  shows "e = IndexOutOfRange"
  using assms(2) AddCluster_stop [OF assms(1)] Cluster_Config_stop
  by (auto simp: add_local_def Let_def go_bind_eq_Inl InjectHealthCheckCache_def)

lemma build_node_stop:
  assumes "build_node pb gc gv (name, cs) = Inl e"
  shows "e = IndexOutOfRange"
proof (cases "AddCluster gc (NewNode name)")
  case (Inl r)
  then show ?thesis using assms AddCluster_stop [OF node_wf_New] by (simp add: build_node_def)
next
  case (Inr n0)
  let ?P = "\<lambda>(n, l). node_wf n \<and> builder_wf ingressRoute l"
  let ?s = "(AddRoute egressRoute gv n0, NewListener pb (ingress_config ''default-ingress''))"
  have "node_wf (AddRoute egressRoute gv n0)"
    using AddCluster_post [OF node_wf_New Inr] AddRoute_post by blast
  moreover have "builder_wf ingressRoute (NewListener pb (ingress_config ''default-ingress''))"
    using builder_wf_New [of "ingress_config ''default-ingress''" pb] by (simp add: ingress_config_def)
  ultimately have P: "?P ?s" by simp
  have keep: "?P t" if "?P s" "add_local pb c s = Inr t" for c s t
    using that add_local_post(1,2) [of "fst s" "snd s" pb c "fst t" "snd t"] by (auto simp: case_prod_beta)
  show ?thesis
  proof (cases "go_fold (add_local pb) cs ?s")
    case (Inl r)
    then have "e = r" using assms Inr by (simp add: build_node_def Let_def)
    with go_fold_Inl [where P = ?P, OF Inl P keep] show ?thesis using add_local_stop by fastforce
  next
    case fold: (Inr t)
    then have "builder_wf ingressRoute (snd t)"
      using go_fold_invariant [where P = ?P, OF fold P keep] by (cases t) auto
    moreover have "builder_wf egressRoute (NewListener pb egress_config)"
      using builder_wf_New [of egress_config pb] by (simp add: egress_config_def)
    ultimately show ?thesis
      using assms Inr fold by (simp add: build_node_def Let_def case_prod_beta Listener_Resource_wf)
  qed
qed

lemma transform_stops:
  assumes "provider_wf pc" and "\<not> readable pc" and "is_order ord1" and "is_order ord2"
  shows "transform pb ord1 ord2 pc = Inl IndexOutOfRange"
proof -
  obtain name cs c where c: "(name, cs) \<in> set pc" "c \<in> set cs" "range_stops (expected_status c)"
    using assms(2) by (auto simp: readable_def)
  then have cfg: "Cluster_Config c = Inl IndexOutOfRange"
    using Cluster_Config_returns(2) provider_wfD [OF assms(1)] by blast
  let ?b = "build_node pb (global_clusters ord1 pc) (global_vhosts ord1 pc)"
  have "\<nexists>n. ?b (name, cs) = Inr n"
  proof
    assume "\<exists>n. ?b (name, cs) = Inr n"
    then obtain s t where "go_fold (add_local pb) cs s = Inr t"
      by (auto simp: build_node_def Let_def go_bind_eq_Inr)
    then obtain u v where "add_local pb c u = Inr v" using go_fold_Inr_each c(2) by metis
    then show False using cfg by (cases u) (auto simp: add_local_def Let_def go_bind_eq_Inr)
  qed
  moreover have "(name, cs) \<in> set (mrange ord2 pc)" using c(1) assms by (simp add: provider_wf_def)
  ultimately obtain e where e: "go_map ?b (mrange ord2 pc) = Inl e"
    by (cases "go_map ?b (mrange ord2 pc)") (auto dest: go_map_Inr_each)
  then have "e = IndexOutOfRange"
    using go_map_Inl [OF e] build_node_stop by (metis prod.exhaust)
  with e show ?thesis by (simp add: transform_def Let_def)
qed

end
