(* ===== verification/Md5Vectors.thy ===== *)
theory Md5Vectors
  imports Md5
begin

text \<open>
  Two test vectors of \<open>Md5\<close>, evaluated in the kernel. They check the definition against the
  published function and show that the digest depends on the order of what is written.
\<close>

unbundle bit_operations_syntax

text \<open>The 64 rounds in groups of four: words are only reduced to 32 bits when they are compared.\<close>

definition md5_part :: "nat \<Rightarrow> (nat \<times> uint32 \<times> nat) list" where
  "md5_part j = take 4 (drop (4 * j) (zip [0..<64] (zip md5_table md5_shifts)))"

lemma md5_parts:
  "md5_part 0 = [(0, 3614090360, 7), (1, 3905402710, 12), (2, 606105819, 17), (3, 3250441966, 22)]"
  "md5_part (Suc 0) = [(4, 4118548399, 7), (5, 1200080426, 12), (6, 2821735955, 17), (7, 4249261313, 22)]"
  "md5_part 2 = [(8, 1770035416, 7), (9, 2336552879, 12), (10, 4294925233, 17), (11, 2304563134, 22)]"
  "md5_part 3 = [(12, 1804603682, 7), (13, 4254626195, 12), (14, 2792965006, 17), (15, 1236535329, 22)]"
  "md5_part 4 = [(16, 4129170786, 5), (17, 3225465664, 9), (18, 643717713, 14), (19, 3921069994, 20)]"
  "md5_part 5 = [(20, 3593408605, 5), (21, 38016083, 9), (22, 3634488961, 14), (23, 3889429448, 20)]"
  "md5_part 6 = [(24, 568446438, 5), (25, 3275163606, 9), (26, 4107603335, 14), (27, 1163531501, 20)]"
  "md5_part 7 = [(28, 2850285829, 5), (29, 4243563512, 9), (30, 1735328473, 14), (31, 2368359562, 20)]"
  "md5_part 8 = [(32, 4294588738, 4), (33, 2272392833, 11), (34, 1839030562, 16), (35, 4259657740, 23)]"
  "md5_part 9 = [(36, 2763975236, 4), (37, 1272893353, 11), (38, 4139469664, 16), (39, 3200236656, 23)]"
  "md5_part 10 = [(40, 681279174, 4), (41, 3936430074, 11), (42, 3572445317, 16), (43, 76029189, 23)]"
  "md5_part 11 = [(44, 3654602809, 4), (45, 3873151461, 11), (46, 530742520, 16), (47, 3299628645, 23)]"
  "md5_part 12 = [(48, 4096336452, 6), (49, 1126891415, 10), (50, 2878612391, 15), (51, 4237533241, 21)]"
  "md5_part 13 = [(52, 1700485571, 6), (53, 2399980690, 10), (54, 4293915773, 15), (55, 2240044497, 21)]"
  "md5_part 14 = [(56, 1873313359, 6), (57, 4264355552, 10), (58, 2734768916, 15), (59, 1309151649, 21)]"
  "md5_part 15 = [(60, 4149444226, 6), (61, 3174756917, 10), (62, 718787259, 15), (63, 3951481745, 21)]"
  by (simp_all only: md5_part_def) code_simp+

lemma md5_part_fold:
  "fold f (zip [0..<64] (zip md5_table md5_shifts)) s = fold (\<lambda>j. fold f (md5_part j)) [0, 1, 2, 3, 4, 5, 6, 7, 8, 9, 10, 11, 12, 13, 14, 15] s"
proof -
  have "zip [0..<64] (zip md5_table md5_shifts) = concat (map md5_part [0, 1, 2, 3, 4, 5, 6, 7, 8, 9, 10, 11, 12, 13, 14, 15])"
    by code_simp
  then show ?thesis by (simp only: list.map concat.simps fold_append append_Nil2 fold.simps comp_apply id_apply append_Nil)
qed

lemma md5_round_step:
  "md5_round ws (i, k, s) (a, b, c, d) = (let (f, g) = md5_mix i b c d in (d, b + rotl32 s (a + f + k + ws ! g), b, c))"
  by (simp add: md5_round_def)

lemmas md5_eval = md5_parts md5_round_step md5_mix_def rotl32_def

lemma md5_rounds_ab:
  "fold (md5_round [8413793, 0, 0, 0, 0, 0, 0, 0, 0, 0, 0, 0, 0, 0, 16, 0]) (md5_part 0)
    (1732584193, 4023233417, 2562383102, 271733878) = (3847297012, 3114865450, 1045158826, 1120307042)"
  "fold (md5_round [8413793, 0, 0, 0, 0, 0, 0, 0, 0, 0, 0, 0, 0, 0, 16, 0]) (md5_part (Suc 0))
    (3847297012, 3114865450, 1045158826, 1120307042) = (1208523220, 683165336, 1215989415, 3792963165)"
  "fold (md5_round [8413793, 0, 0, 0, 0, 0, 0, 0, 0, 0, 0, 0, 0, 0, 16, 0]) (md5_part 2)
    (1208523220, 683165336, 1215989415, 3792963165) = (190119765, 397467734, 3766063571, 1067510446)"
  "fold (md5_round [8413793, 0, 0, 0, 0, 0, 0, 0, 0, 0, 0, 0, 0, 0, 16, 0]) (md5_part 3)
    (190119765, 397467734, 3766063571, 1067510446) = (2726205733, 1030888640, 3720163042, 1347424539)"
  "fold (md5_round [8413793, 0, 0, 0, 0, 0, 0, 0, 0, 0, 0, 0, 0, 0, 16, 0]) (md5_part 4)
    (2726205733, 1030888640, 3720163042, 1347424539) = (280086950, 725944989, 3959556968, 409715753)"
  "fold (md5_round [8413793, 0, 0, 0, 0, 0, 0, 0, 0, 0, 0, 0, 0, 0, 16, 0]) (md5_part 5)
    (280086950, 725944989, 3959556968, 409715753) = (2407642167, 2204719343, 2740515860, 2033457034)"
  "fold (md5_round [8413793, 0, 0, 0, 0, 0, 0, 0, 0, 0, 0, 0, 0, 0, 16, 0]) (md5_part 6)
    (2407642167, 2204719343, 2740515860, 2033457034) = (485994581, 3351219625, 21421193, 3601370830)"
  "fold (md5_round [8413793, 0, 0, 0, 0, 0, 0, 0, 0, 0, 0, 0, 0, 0, 16, 0]) (md5_part 7)
    (485994581, 3351219625, 21421193, 3601370830) = (2702068250, 3531454531, 1503877503, 1342580560)"
  "fold (md5_round [8413793, 0, 0, 0, 0, 0, 0, 0, 0, 0, 0, 0, 0, 0, 16, 0]) (md5_part 8)
    (2702068250, 3531454531, 1503877503, 1342580560) = (2693944522, 652609633, 3795520000, 3341847776)"
  "fold (md5_round [8413793, 0, 0, 0, 0, 0, 0, 0, 0, 0, 0, 0, 0, 0, 16, 0]) (md5_part 9)
    (2693944522, 652609633, 3795520000, 3341847776) = (3134382421, 924659851, 790220727, 3033583069)"
  "fold (md5_round [8413793, 0, 0, 0, 0, 0, 0, 0, 0, 0, 0, 0, 0, 0, 16, 0]) (md5_part 10)
    (3134382421, 924659851, 790220727, 3033583069) = (994467924, 3723560996, 435313102, 3808650861)"
  "fold (md5_round [8413793, 0, 0, 0, 0, 0, 0, 0, 0, 0, 0, 0, 0, 0, 16, 0]) (md5_part 11)
    (994467924, 3723560996, 435313102, 3808650861) = (2678557031, 3006426600, 2567223391, 3194913427)"
  "fold (md5_round [8413793, 0, 0, 0, 0, 0, 0, 0, 0, 0, 0, 0, 0, 0, 16, 0]) (md5_part 12)
    (2678557031, 3006426600, 2567223391, 3194913427) = (1969708519, 3943490898, 3283844121, 272123136)"
  "fold (md5_round [8413793, 0, 0, 0, 0, 0, 0, 0, 0, 0, 0, 0, 0, 0, 16, 0]) (md5_part 13)
    (1969708519, 3943490898, 3283844121, 272123136) = (3101411667, 1111408361, 195419542, 433891631)"
  "fold (md5_round [8413793, 0, 0, 0, 0, 0, 0, 0, 0, 0, 0, 0, 0, 0, 16, 0]) (md5_part 14)
    (3101411667, 1111408361, 195419542, 433891631) = (3386475310, 21883609, 1094544363, 2224020109)"
  "fold (md5_round [8413793, 0, 0, 0, 0, 0, 0, 0, 0, 0, 0, 0, 0, 0, 16, 0]) (md5_part 15)
    (3386475310, 21883609, 1094544363, 2224020109) = (3702479639, 3707991768, 2468438833, 2428083228)"
  by (simp_all add: md5_eval)

lemma md5_block_ab: "md5_block [8413793, 0, 0, 0, 0, 0, 0, 0, 0, 0, 0, 0, 0, 0, 16, 0] md5_init = (1140096536, 3436257889, 735854639, 2699817106)"
  by (simp add: md5_block_def md5_part_fold md5_init_def md5_rounds_ab)

lemma md5_rounds_ba:
  "fold (md5_round [8413538, 0, 0, 0, 0, 0, 0, 0, 0, 0, 0, 0, 0, 0, 16, 0]) (md5_part 0)
    (1732584193, 4023233417, 2562383102, 271733878) = (3847264372, 3670299594, 526081099, 852887522)"
  "fold (md5_round [8413538, 0, 0, 0, 0, 0, 0, 0, 0, 0, 0, 0, 0, 0, 16, 0]) (md5_part (Suc 0))
    (3847264372, 3670299594, 526081099, 852887522) = (1782749780, 4030587117, 3318496142, 3699906543)"
  "fold (md5_round [8413538, 0, 0, 0, 0, 0, 0, 0, 0, 0, 0, 0, 0, 0, 16, 0]) (md5_part 2)
    (1782749780, 4030587117, 3318496142, 3699906543) = (401817149, 1686538045, 3397403584, 3137868221)"
  "fold (md5_round [8413538, 0, 0, 0, 0, 0, 0, 0, 0, 0, 0, 0, 0, 0, 16, 0]) (md5_part 3)
    (401817149, 1686538045, 3397403584, 3137868221) = (3929536236, 3405880111, 3631707808, 1524611198)"
  "fold (md5_round [8413538, 0, 0, 0, 0, 0, 0, 0, 0, 0, 0, 0, 0, 0, 16, 0]) (md5_part 4)
    (3929536236, 3405880111, 3631707808, 1524611198) = (436271812, 2423524208, 1300490981, 1557108016)"
  "fold (md5_round [8413538, 0, 0, 0, 0, 0, 0, 0, 0, 0, 0, 0, 0, 0, 16, 0]) (md5_part 5)
    (436271812, 2423524208, 1300490981, 1557108016) = (3204640304, 1495906014, 34475900, 3559675433)"
  "fold (md5_round [8413538, 0, 0, 0, 0, 0, 0, 0, 0, 0, 0, 0, 0, 0, 16, 0]) (md5_part 6)
    (3204640304, 1495906014, 34475900, 3559675433) = (3137676580, 2252420257, 3099036044, 3442249993)"
  "fold (md5_round [8413538, 0, 0, 0, 0, 0, 0, 0, 0, 0, 0, 0, 0, 0, 16, 0]) (md5_part 7)
    (3137676580, 2252420257, 3099036044, 3442249993) = (3049654884, 2350586285, 2774199376, 2057852773)"
  "fold (md5_round [8413538, 0, 0, 0, 0, 0, 0, 0, 0, 0, 0, 0, 0, 0, 16, 0]) (md5_part 8)
    (3049654884, 2350586285, 2774199376, 2057852773) = (649690509, 4081565713, 1427855587, 3177983517)"
  "fold (md5_round [8413538, 0, 0, 0, 0, 0, 0, 0, 0, 0, 0, 0, 0, 0, 16, 0]) (md5_part 9)
    (649690509, 4081565713, 1427855587, 3177983517) = (1574546463, 401320511, 2885550604, 3748611141)"
  "fold (md5_round [8413538, 0, 0, 0, 0, 0, 0, 0, 0, 0, 0, 0, 0, 0, 16, 0]) (md5_part 10)
    (1574546463, 401320511, 2885550604, 3748611141) = (3068993533, 1938648120, 1628750260, 51945129)"
  "fold (md5_round [8413538, 0, 0, 0, 0, 0, 0, 0, 0, 0, 0, 0, 0, 0, 16, 0]) (md5_part 11)
    (3068993533, 1938648120, 1628750260, 51945129) = (2545918450, 1914167993, 1899238396, 1776813418)"
  "fold (md5_round [8413538, 0, 0, 0, 0, 0, 0, 0, 0, 0, 0, 0, 0, 0, 16, 0]) (md5_part 12)
    (2545918450, 1914167993, 1899238396, 1776813418) = (1432066301, 164177712, 2173438245, 3521689192)"
  "fold (md5_round [8413538, 0, 0, 0, 0, 0, 0, 0, 0, 0, 0, 0, 0, 0, 16, 0]) (md5_part 13)
    (1432066301, 164177712, 2173438245, 3521689192) = (1281326026, 1095033630, 1320331706, 4258205484)"
  "fold (md5_round [8413538, 0, 0, 0, 0, 0, 0, 0, 0, 0, 0, 0, 0, 0, 16, 0]) (md5_part 14)
    (1281326026, 1095033630, 1320331706, 4258205484) = (3034186448, 1435459726, 3355599132, 327770770)"
  "fold (md5_round [8413538, 0, 0, 0, 0, 0, 0, 0, 0, 0, 0, 0, 0, 0, 16, 0]) (md5_part 15)
    (3034186448, 1435459726, 3355599132, 327770770) = (3763794438, 3192615013, 1963580497, 3022238674)"
  by (simp_all add: md5_eval)

lemma md5_block_ba: "md5_block [8413538, 0, 0, 0, 0, 0, 0, 0, 0, 0, 0, 0, 0, 0, 16, 0] md5_init = (1201411335, 2920881134, 230996303, 3293972552)"
  by (simp add: md5_block_def md5_part_fold md5_init_def md5_rounds_ba)

lemma md5_pad_two: "le_words (md5_pad [x, y]) =
    (ucast x OR push_bit 8 (ucast y) OR push_bit 16 0x80) # replicate 13 0 @ [16, 0]"
proof -
  have "[0..<8] = [0, 1, 2, 3, 4, 5, 6, 7 :: nat]" "replicate 53 (0 :: byte) = 0 # concat (replicate 13 [0, 0, 0, 0])" by code_simp+
  then have "md5_pad [x, y] = [x, y, 0x80, 0] @ concat (replicate 13 [0, 0, 0, 0]) @ [16, 0, 0, 0, 0, 0, 0, 0]"
    by (simp add: md5_pad_def Let_def)
  moreover have "le_words ([x, y, 0x80, 0] @ concat (replicate n [0, 0, 0, 0]) @ zs) =
      (ucast x OR push_bit 8 (ucast y) OR push_bit 16 0x80) # replicate n 0 @ le_words zs" for n zs
    by (induction n) simp_all
  ultimately show ?thesis by simp
qed

text \<open>The digests of \<open>ab\<close> and \<open>ba\<close>.\<close>

lemma md5_vectors:
  "md5 [97, 98] = [24, 126, 244, 67, 97, 34, 209, 204, 47, 64, 220, 43, 146, 240, 235, 160]"
  "md5 [98, 97] = [7, 21, 156, 71, 238, 27, 25, 174, 79, 185, 196, 13, 72, 8, 86, 196]"
proof -
  have zeros: "replicate 13 (0 :: uint32) = [0, 0, 0, 0, 0, 0, 0, 0, 0, 0, 0, 0, 0]" by code_simp
  have ab: "le_words (md5_pad [97, 98]) = [8413793, 0, 0, 0, 0, 0, 0, 0, 0, 0, 0, 0, 0, 0, 16, 0]"
    and ba: "le_words (md5_pad [98, 97]) = [8413538, 0, 0, 0, 0, 0, 0, 0, 0, 0, 0, 0, 0, 0, 16, 0]"
    unfolding md5_pad_two zeros by simp_all
  show "md5 [97, 98] = [24, 126, 244, 67, 97, 34, 209, 204, 47, 64, 220, 43, 146, 240, 235, 160]"
    "md5 [98, 97] = [7, 21, 156, 71, 238, 27, 25, 174, 79, 185, 196, 13, 72, 8, 86, 196]"
    unfolding md5_def ab ba
    by (simp_all add: md5_blocks.simps md5_block_ab md5_block_ba le_bytes_def)
qed

end
