(* ===== verification/Publish.thy ===== *)
theory Publish
  imports Updater Md5Vectors
begin

text \<open>
  From the nodes of \<open>transform\<close> to the snapshots in the cache: what a published snapshot
  contains (independent of the orders of the map loops), when it is consistent, and what
  one turn of the updater leaves in the cache. The updater relies on the cache only through
  the locale \<open>snapshot_sink\<close>.
\<close>

subsection \<open>The snapshot of a node\<close>

lemma index_mrange:
  assumes "is_order ord" and "map_wf m" and "\<And>k v. map_of m k = Some v \<Longrightarrow> GetResourceName (g v) = k"
  shows "map_of (IndexResourcesByName (map (\<lambda>(_, v). g v) (mrange ord m))) k = map_option g (map_of m k)"
proof -
  have mem: "(k, v) \<in> set (mrange ord m) \<longleftrightarrow> map_of m k = Some v" for k v
    using assms(1,2) by (simp add: map_wf_lookup)
  have names: "map (GetResourceName \<circ> (\<lambda>(_, v). g v)) (mrange ord m) = map fst (mrange ord m)"
    by (rule map_cong) (auto simp: mem assms(3))
  moreover have "distinct (map fst (mrange ord m))"
    using map_wf_mrange [OF assms(1,2)] by (simp add: map_wf_def)
  ultimately have d: "distinct (map GetResourceName (map (\<lambda>(_, v). g v) (mrange ord m)))"
    by (metis map_map)
  have "set (IndexResourcesByName (map (\<lambda>(_, v). g v) (mrange ord m))) = (\<lambda>(k, v). (k, g v)) ` set (mrange ord m)"
    unfolding IndexResourcesByName_distinct [OF d] set_map image_image
    by (rule image_cong) (auto simp: mem assms(3))
  then have "map_of (IndexResourcesByName (map (\<lambda>(_, v). g v) (mrange ord m))) k = Some r \<longleftrightarrow>
      (\<exists>v. map_of m k = Some v \<and> r = g v)" for r
    by (force simp flip: map_wf_lookup [OF wf_IndexResourcesByName] mem)
  then show ?thesis
    by (cases "map_of m k") (metis not_Some_eq option.simps(8), metis option.simps(9))
qed

lemma node_snapshot_items:
  assumes "node_wf n" and "\<And>i. is_order (ords i)"
  shows "map_of (res_Items (Endpoints (node_snapshot pb ords n))) k =
      map_option ClusterLoadAssignment (map_of (n_endpoints n) k)"
    and "map_of (res_Items (Clusters (node_snapshot pb ords n))) k = map_option Cluster (map_of (n_clusters n) k)"
    and "map_of (res_Items (Routes (node_snapshot pb ords n))) k =
      map_option RouteConfiguration (map_of (n_routes n) k)"
    and "res_Items (Listeners (node_snapshot pb ords n)) = IndexResourcesByName (map Listener (n_listeners n))"
  using assms
  by (simp_all add: node_snapshot_def NewSnapshot_def NewResources_def Node_Endpoints_def Node_Clusters_def
      Node_Routes_def Node_Listeners_def index_mrange node_wf_def endpoints_wf_def clusters_wf_def routes_wf_def)

text \<open>All groups carry the version computed from the endpoints.\<close>

lemma node_snapshot_version:
  "req_type \<in> set [EndpointType, ClusterType, RouteType, ListenerType] \<Longrightarrow>
   GetVersion (Some (node_snapshot pb ords n)) req_type = computeVersion pb (Node_Endpoints (ords 0) n)"
  by (auto simp: node_snapshot_def NewSnapshot_def NewResources_def GetVersion_def)

lemma hex_char_inj: "d < 16 \<Longrightarrow> e < 16 \<Longrightarrow> hex_char d = hex_char e \<Longrightarrow> d = e"
  by (auto simp: hex_char_def word_less_nat_alt char_of_eq_iff word_unat_eq_iff take_bit_eq_mod split: if_splits)

lemma EncodeToString_inj: "EncodeToString xs = EncodeToString ys \<longleftrightarrow> xs = ys"
proof
  show "EncodeToString xs = EncodeToString ys \<Longrightarrow> xs = ys"
  proof (induction xs arbitrary: ys)
    case (Cons b xs)
    then obtain c zs where ys: "ys = c # zs" by (cases ys) (auto simp: EncodeToString_def)
    have "(drop_bit 4 d :: byte) < 16" "(take_bit 4 d :: byte) < 16" for d :: byte
      unfolding word_less_nat_alt unat_drop_bit_eq unsigned_take_bit_eq
      using unsigned_less [of d, where ?'a = nat] by (simp_all add: drop_bit_eq_div take_bit_eq_mod)
    then have "drop_bit 4 b = drop_bit 4 c" "take_bit 4 b = take_bit 4 c"
      using Cons.prems hex_char_inj by (auto simp: ys EncodeToString_def)
    then have "b = c" by (metis bits_ident)
    then show ?case using Cons by (simp add: ys EncodeToString_def)
  qed (cases ys; simp add: EncodeToString_def)
qed simp

lemma length_EncodeToString: "length (EncodeToString bs) = 2 * length bs"
  by (induction bs) (simp_all add: EncodeToString_def)

lemma length_computeVersion: "length (computeVersion pb rs) = 32"
  by (simp add: computeVersion_def length_EncodeToString length_md5)

subsection \<open>Consistency\<close>

lemma refs_clusters:
  assumes "node_wf n" and "\<And>i. is_order (ords i)"
  shows "refs_of_group pb (res_Items (Clusters (node_snapshot pb ords n))) =
    dom (map_of (res_Items (Endpoints (node_snapshot pb ords n))))"
proof -
  let ?cs = "res_Items (Clusters (node_snapshot pb ords n))"
  have wf: "map_wf ?cs" by (simp add: node_snapshot_def NewSnapshot_def NewResources_def)
  have "refs_of_group pb ?cs = dom (map_of (n_clusters n))"
  proof -
    have items: "(k, r) \<in> set ?cs \<longleftrightarrow> (\<exists>c. map_of (n_clusters n) k = Some c \<and> r = Cluster c)" for k r
      unfolding map_wf_lookup [OF wf] node_snapshot_items(2) [OF assms] by auto
    have "ref_set pb (Cluster c) = {k}" if "map_of (n_clusters n) k = Some c" for k c
      using assms(1) that by (simp add: node_wf_def clusters_wf_def cluster_ref_def)
    then have "ref_set pb (snd x) = {fst x}" if "x \<in> set ?cs" for x
      using items [of "fst x" "snd x"] that by auto
    then have "refs_of_group pb ?cs = fst ` set ?cs" unfolding refs_of_group_def by auto
    also have "\<dots> = dom (map_of (n_clusters n))"
      unfolding dom_map_of_conv_image_fst [symmetric] dom_def node_snapshot_items(2) [OF assms] by simp
    finally show ?thesis .
  qed
  also have "\<dots> = dom (map_of (n_endpoints n))"
    using assms(1) by (auto simp: node_wf_def dom_def)
  finally show ?thesis
    using node_snapshot_items(1) [OF assms] by (auto simp: dom_def)
qed

lemma refs_listeners:
  assumes "distinct (map li_Name ls)"
  shows "refs_of_group pb (IndexResourcesByName (map Listener ls)) = (\<Union>l \<in> set ls. ref_set pb (Listener l))"
proof -
  have "distinct (map GetResourceName (map Listener ls))" using assms by (simp add: comp_def)
  from IndexResourcesByName_distinct [OF this] show ?thesis
    by (simp add: refs_of_group_def)
qed

lemma dom_routes:
  assumes "node_wf n" and "\<And>i. is_order (ords i)"
  shows "dom (map_of (res_Items (Routes (node_snapshot pb ords n)))) = dom (map_of (n_routes n))"
  using node_snapshot_items(3) [OF assms] by (auto simp: dom_def)

lemma wf_node_snapshot [simp]: "snapshot_wf (node_snapshot pb ords n)"
  by (simp add: node_snapshot_def)

text \<open>The consistency check comes down to the listeners and the routes.\<close>

lemma node_snapshot_consistent:
  assumes "node_wf n" and "\<And>i. is_order (ords i)" and "\<And>i. is_order (cords i)"
    and "distinct (map li_Name (n_listeners n))"
  shows "Consistent pb cords (Some (node_snapshot pb ords n)) = None \<longleftrightarrow>
    dom (map_of (n_routes n)) = (\<Union>l \<in> set (n_listeners n). ref_set pb (Listener l))"
  unfolding Consistent_iff [OF wf_node_snapshot assms(3)] refs_clusters [OF assms(1,2)] dom_routes [OF assms(1,2)]
    node_snapshot_items(4) [OF assms(1,2)] refs_listeners [OF assms(4)] by simp

lemma build_node_consistent:
  assumes "hcm_roundtrip pb" and "node_spec pb gc gv name cs n"
    and "\<And>i. is_order (ords i)" and "\<And>i. is_order (cords i)"
  shows "Consistent pb cords (Some (node_snapshot pb ords n)) = None \<longleftrightarrow> cs \<noteq> []"
proof -
  obtain li le bi be where l: "n_listeners n = [li, le]" "li_Name li = ''default-ingress''"
      "li_Name le = ''default-egress''" "builder_wf ingressRoute bi" "Listener_Resource pb bi = Inr li"
      "builder_wf egressRoute be" "Listener_Resource pb be = Inr le"
    and n: "node_wf n" "dom (map_of (n_routes n)) = {egressRoute} \<union> (if cs = [] then {} else {ingressRoute})"
    using assms(2) unfolding node_spec_def by auto
  have refs: "ref_set pb (Listener li) = {ingressRoute}" "ref_set pb (Listener le) = {egressRoute}"
    by (rule Listener_Resource_refs [OF assms(1) l(4,5)], rule Listener_Resource_refs [OF assms(1) l(6,7)])
  have names: "distinct (map li_Name (n_listeners n))" by (simp add: l(1-3))
  have "(\<Union>l \<in> set (n_listeners n). ref_set pb (Listener l)) = {ingressRoute, egressRoute}"
    unfolding l(1) by (simp del: ref_set.simps add: refs insert_commute)
  then show ?thesis
    unfolding node_snapshot_consistent [OF n(1) assms(3,4) names] n(2) by auto
qed

lemma ingress_node_consistent:
  assumes "hcm_roundtrip pb" and "ingress_node pb gc gv = Inr n"
    and "\<And>i. is_order (ords i)" and "\<And>i. is_order (cords i)"
  shows "Consistent pb cords (Some (node_snapshot pb ords n)) = None"
proof -
  obtain li bi where l: "n_listeners n = [li]" "builder_wf ingressRoute bi" "Listener_Resource pb bi = Inr li"
    and n: "node_wf n" "dom (map_of (n_routes n)) = {ingressRoute}"
    using ingress_node_post [OF assms(2)] by auto
  have refs: "ref_set pb (Listener li) = {ingressRoute}"
    by (rule Listener_Resource_refs [OF assms(1) l(2,3)])
  have names: "distinct (map li_Name (n_listeners n))" by (simp add: l(1))
  have "(\<Union>l \<in> set (n_listeners n). ref_set pb (Listener l)) = {ingressRoute}"
    unfolding l(1) by (simp del: ref_set.simps add: refs)
  then show ?thesis
    unfolding node_snapshot_consistent [OF n(1) assms(3,4) names] n(2) by simp
qed

subsection \<open>Publishing through the cache interface\<close>

text \<open>The snapshots that a list of nodes leaves behind: the last node with a name wins.\<close>

definition published :: "protobuf \<Rightarrow> 'e poll_env \<Rightarrow> nat \<Rightarrow> node list \<Rightarrow> (string \<times> snapshot) list" where
  "published pb env k nodes =
     map (\<lambda>(i, n). (n_Name n, node_snapshot pb (pe_node env i) n)) (List.enumerate k nodes)"

text \<open>
  What the updater relies on: setting a snapshot returns, keeps the invariant of the cache and
  changes the snapshot of that node only.
\<close>

locale snapshot_sink =
  fixes setSnapshot :: "'e \<Rightarrow> string \<Rightarrow> snapshot \<Rightarrow> 's \<Rightarrow> 's go"
    and snapshotOf :: "'s \<Rightarrow> string \<Rightarrow> snapshot option"
    and inv :: "'s \<Rightarrow> bool"
    and legal :: "'e \<Rightarrow> bool"
  assumes set_returns: "inv s \<Longrightarrow> legal e \<Longrightarrow> snapshot_wf snap \<Longrightarrow> \<exists>t. setSnapshot e node snap s = Inr t"
    and set_inv: "inv s \<Longrightarrow> legal e \<Longrightarrow> snapshot_wf snap \<Longrightarrow> setSnapshot e node snap s = Inr t \<Longrightarrow> inv t"
    and set_lookup: "inv s \<Longrightarrow> legal e \<Longrightarrow> snapshot_wf snap \<Longrightarrow> setSnapshot e node snap s = Inr t \<Longrightarrow>
      snapshotOf t = (snapshotOf s)(node \<mapsto> snap)"
begin

lemma publish_from:
  assumes "inv s" and "\<And>i. legal (pe_set env i)"
  shows "\<exists>t. go_fold (\<lambda>(i, node). setSnapshot (pe_set env i) (n_Name node) (node_snapshot pb (pe_node env i) node))
      (List.enumerate k nodes) s = Inr t \<and> inv t \<and>
    snapshotOf t = snapshotOf s ++ map_of (rev (published pb env k nodes))"
  using assms(1)
proof (induction nodes arbitrary: k s)
  case Nil
  then show ?case by (simp add: published_def)
next
  case (Cons n nodes)
  obtain u where u: "setSnapshot (pe_set env k) (n_Name n) (node_snapshot pb (pe_node env k) n) s = Inr u"
    using set_returns [OF Cons.prems assms(2)] by fastforce
  then have "inv u" and look: "snapshotOf u = (snapshotOf s)(n_Name n \<mapsto> node_snapshot pb (pe_node env k) n)"
    using set_inv [OF Cons.prems assms(2) wf_node_snapshot u] set_lookup [OF Cons.prems assms(2) wf_node_snapshot u]
    by simp_all
  from Cons.IH [OF this(1), of "Suc k"] obtain t where
    "go_fold (\<lambda>(i, node). setSnapshot (pe_set env i) (n_Name node) (node_snapshot pb (pe_node env i) node))
       (List.enumerate (Suc k) nodes) u = Inr t" "inv t"
    "snapshotOf t = snapshotOf u ++ map_of (rev (published pb env (Suc k) nodes))" by blast
  then show ?case using u look by (simp add: published_def map_add_def fun_eq_iff split: option.split)
qed

lemma publish_nodes_spec:
  assumes "inv s" and "\<And>i. legal (pe_set env i)"
  shows "\<exists>t. publish_nodes setSnapshot pb env nodes s = Inr t \<and> inv t \<and>
    snapshotOf t = snapshotOf s ++ map_of (rev (published pb env 0 nodes))"
  unfolding publish_nodes_def by (rule publish_from [OF assms])

end

definition cache_snapshot :: "rheap \<times> snapshot_cache \<Rightarrow> string \<Rightarrow> snapshot option" where
  "cache_snapshot = (\<lambda>(h, c). map_of (snapshots c))"

definition set_orders :: "int64 order \<times> (int64 \<Rightarrow> orders) \<Rightarrow> bool" where
  "set_orders e \<longleftrightarrow> is_order (fst e) \<and> (\<forall>i j. is_order (snd e i j))"

interpretation cs: snapshot_sink
  "\<lambda>e. SetSnapshot (fst e) (snd e)" cache_snapshot "\<lambda>(h, c). cache_inv h c" set_orders
proof
  fix s e snap node
  assume s: "case s of (h, c) \<Rightarrow> cache_inv h c" and e: "set_orders e" and snap: "snapshot_wf snap"
  obtain h c where hc: "s = (h, c)" by (cases s)
  have "\<exists>h' c'. SetSnapshot (fst e) (snd e) node snap (h, c) = Inr (h', c') \<and> cache_inv h' c' \<and>
      set_snapshot_post (snd e) node snap h c h' c'"
    using s e snap by (intro SetSnapshot_inv) (auto simp: hc set_orders_def)
  then obtain h' c' where r: "SetSnapshot (fst e) (snd e) node snap s = Inr (h', c')" "cache_inv h' c'"
      "snapshots c' = mput node snap (snapshots c)"
    by (auto simp: hc set_snapshot_post_def)
  then show "\<exists>t. SetSnapshot (fst e) (snd e) node snap s = Inr t" by blast
  fix t assume "SetSnapshot (fst e) (snd e) node snap s = Inr t"
  with r show "case t of (h, c) \<Rightarrow> cache_inv h c" "cache_snapshot t = (cache_snapshot s)(node \<mapsto> snap)"
    by (auto simp: cache_snapshot_def hc)
qed

subsection \<open>One turn of the updater\<close>

text \<open>The nodes that \<open>transform\<close> returns, in order: one per node of the provider, then the ingress.\<close>

lemma transform_nodes:
  assumes "transform pb ord1 ord2 pc = Inr nodes"
  obtains ns ing where "nodes = ns @ [ing]"
    "list_all2 (\<lambda>(name, cs) n. node_spec pb (global_clusters ord1 pc) (global_vhosts ord1 pc) name cs n)
       (mrange ord2 pc) ns"
    "ingress_node pb (global_clusters ord1 pc) (global_vhosts ord1 pc) = Inr ing"
proof -
  obtain ns ing where "nodes = ns @ [ing]"
      and ns: "go_map (build_node pb (global_clusters ord1 pc) (global_vhosts ord1 pc)) (mrange ord2 pc) = Inr ns"
      and ing: "ingress_node pb (global_clusters ord1 pc) (global_vhosts ord1 pc) = Inr ing"
    using assms by (auto simp: transform_def Let_def go_bind_eq_Inr)
  moreover have "list_all2 (\<lambda>(name, cs) n. node_spec pb (global_clusters ord1 pc) (global_vhosts ord1 pc) name cs n)
      (mrange ord2 pc) ns"
    using ns unfolding go_map_eq_Inr by (rule list_all2_mono) (auto dest: build_node_post)
  ultimately show thesis using that by blast
qed

lemma list_all2_names:
  "list_all2 (\<lambda>(name, cs) n. node_spec pb gc gv name cs n) xs ns \<Longrightarrow> map n_Name ns = map fst xs"
  by (induction xs ns rule: list_all2_induct) (auto simp: node_spec_def)

text \<open>
  A name that occurs once among the nodes gets the snapshot of its node; other names keep
  what they had.
\<close>

lemma published_lookup:
  assumes "i < length nodes" and "\<And>j. i < j \<Longrightarrow> j < length nodes \<Longrightarrow> n_Name (nodes ! j) \<noteq> n_Name (nodes ! i)"
  shows "map_of (rev (published pb env k nodes)) (n_Name (nodes ! i)) =
    Some (node_snapshot pb (pe_node env (k + i)) (nodes ! i))"
  using assms
proof (induction nodes arbitrary: k i)
  case (Cons n nodes)
  show ?case
  proof (cases i)
    case 0
    have "n_Name (nodes ! j) \<noteq> n_Name n" if "j < length nodes" for j
      using Cons.prems(2) [of "Suc j"] 0 that by simp
    then have "n_Name n \<notin> n_Name ` set nodes" by (metis imageE in_set_conv_nth)
    then have "map_of (rev (published pb env (Suc k) nodes)) (n_Name n) = None"
      by (auto simp: map_of_eq_None_iff published_def in_set_enumerate_eq)
    then show ?thesis using 0 by (simp add: published_def map_add_def)
  next
    case (Suc m)
    then have "map_of (rev (published pb env (Suc k) nodes)) (n_Name (nodes ! m)) =
        Some (node_snapshot pb (pe_node env (Suc k + m)) (nodes ! m))"
      using Cons.prems(1) Cons.prems(2) [of "Suc _"] by (intro Cons.IH) auto
    then show ?thesis using Suc by (simp add: published_def map_add_def)
  qed
qed simp

lemma published_None:
  "map_of (rev (published pb env k nodes)) m = None \<longleftrightarrow> m \<notin> n_Name ` set nodes"
proof -
  have "fst ` set (published pb env k nodes) = n_Name ` set nodes"
    by (induction nodes arbitrary: k) (simp_all add: published_def)
  then show ?thesis by (simp add: map_of_eq_None_iff)
qed

lemma published_distinct:
  assumes "distinct (map n_Name ns)" and "i < length ns" and "n_Name (ns ! i) \<noteq> n_Name ing"
  shows "map_of (rev (published pb env 0 (ns @ [ing]))) (n_Name (ns ! i)) =
    Some (node_snapshot pb (pe_node env i) (ns ! i))"
proof -
  have "n_Name ((ns @ [ing]) ! j) \<noteq> n_Name ((ns @ [ing]) ! i)" if "i < j" "j < length (ns @ [ing])" for j
  proof (cases "j < length ns")
    case True
    then have "n_Name (ns ! j) \<noteq> n_Name (ns ! i)"
      using assms(1,2) that(1) by (auto simp: distinct_conv_nth)
    then show ?thesis using True assms(2) by (simp add: nth_append)
  next
    case False
    then have "j = length ns" using that(2) by simp
    then show ?thesis using assms(2,3) by (simp add: nth_append)
  qed
  then show ?thesis
    using published_lookup [of i "ns @ [ing]" pb env 0] assms(2) by (simp add: nth_append)
qed

lemma published_last:
  "map_of (rev (published pb env 0 (ns @ [ing]))) (n_Name ing) = Some (node_snapshot pb (pe_node env (length ns)) ing)"
  using published_lookup [of "length ns" "ns @ [ing]" pb env 0] by simp

text \<open>The snapshot published for a node of the provider.\<close>

lemma published_node:
  assumes nodes: "list_all2 (\<lambda>(name, cs) n. node_spec pb gc gv name cs n) pc ns"
    and "map_wf pc" and m: "(name, cs) \<in> set pc" "name \<noteq> n_Name ing"
  obtains n i where "node_spec pb gc gv name cs n"
    "map_of (rev (published pb env 0 (ns @ [ing]))) name = Some (node_snapshot pb (pe_node env i) n)"
proof -
  note names = list_all2_names [OF nodes] list_all2_lengthD [OF nodes]
  have dist: "distinct (map n_Name ns)" using assms(2) by (simp add: names map_wf_def)
  obtain i where i: "i < length ns" "pc ! i = (name, cs)"
    using m(1) names(2) by (metis in_set_conv_nth)
  then have spec: "node_spec pb gc gv name cs (ns ! i)"
    using list_all2_nthD [OF nodes, of i] names(2) by simp
  then have "n_Name (ns ! i) = name" by (simp add: node_spec_def)
  then show thesis
    using that [OF spec] published_distinct [OF dist i(1), of ing pb env] m(2) by simp
qed

text \<open>What a turn leaves in the cache.\<close>

lemma poll_snapshots:
  assumes "cache_inv h c" and "provider_wf pc" and "readable pc" and "is_order (pe_first env)"
    and "is_order (pe_second env)" and "\<And>i. set_orders (pe_set env i)"
  obtains h' c' where
    "Updater_poll (\<lambda>e. SetSnapshot (fst e) (snd e)) pb env (Inr pc) (h, c) = Inr (h', c')" "cache_inv h' c'"
    "\<And>name cs. (name, cs) \<in> set pc \<Longrightarrow> name \<noteq> ''ingress'' \<Longrightarrow>
       \<exists>n i. node_spec pb (global_clusters (pe_first env) pc) (global_vhosts (pe_first env) pc) name cs n \<and>
         map_of (snapshots c') name = Some (node_snapshot pb (pe_node env i) n)"
    "\<exists>n i. ingress_node pb (global_clusters (pe_first env) pc) (global_vhosts (pe_first env) pc) = Inr n \<and>
       map_of (snapshots c') ''ingress'' = Some (node_snapshot pb (pe_node env i) n)"
    "\<And>m. m \<notin> fst ` set pc \<Longrightarrow> m \<noteq> ''ingress'' \<Longrightarrow> map_of (snapshots c') m = map_of (snapshots c) m"
proof -
  let ?gc = "global_clusters (pe_first env) pc" and ?gv = "global_vhosts (pe_first env) pc"
  obtain nodes where tr: "transform pb (pe_first env) (pe_second env) pc = Inr nodes"
    using transform_returns [OF assms(2-5)] by blast
  then obtain ns ing where nodes: "nodes = ns @ [ing]" and ing: "ingress_node pb ?gc ?gv = Inr ing"
    and ns: "list_all2 (\<lambda>(name, cs) n. node_spec pb ?gc ?gv name cs n) (mrange (pe_second env) pc) ns"
    by (rule transform_nodes)
  note names = list_all2_names [OF ns] list_all2_lengthD [OF ns]
  have mem: "set (mrange (pe_second env) pc) = set pc" "map_wf (mrange (pe_second env) pc)"
    using assms(2,5) by (simp_all add: provider_wf_def)
  have ing_name: "n_Name ing = ''ingress''" using ingress_node_post [OF ing] by blast
  obtain h' c' where pub: "publish_nodes (\<lambda>e. SetSnapshot (fst e) (snd e)) pb env nodes (h, c) = Inr (h', c')"
      "cache_inv h' c'" "map_of (snapshots c') = map_of (snapshots c) ++ map_of (rev (published pb env 0 nodes))"
    using cs.publish_nodes_spec [of "(h, c)" env pb nodes] assms(1,6) by (auto simp: cache_snapshot_def)
  show thesis
  proof (rule that)
    show "Updater_poll (\<lambda>e. SetSnapshot (fst e) (snd e)) pb env (Inr pc) (h, c) = Inr (h', c')"
      using tr pub(1) by (simp add: Updater_poll_def)
    show "cache_inv h' c'" by (rule pub(2))
    show "map_of (snapshots c') m = map_of (snapshots c) m" if "m \<notin> fst ` set pc" "m \<noteq> ''ingress''" for m
    proof -
      have "n_Name ` set ns = fst ` set pc"
        using arg_cong [OF names(1), of set] assms(5) by simp
      then have "map_of (rev (published pb env 0 nodes)) m = None"
        unfolding published_None nodes using that ing_name by auto
      then show ?thesis by (simp add: pub(3) map_add_def)
    qed
    have "map_of (snapshots c') ''ingress'' = Some (node_snapshot pb (pe_node env (length ns)) ing)"
      using published_last [of pb env ns ing] by (simp add: nodes ing_name pub(3) map_add_def)
    then show "\<exists>n i. ingress_node pb ?gc ?gv = Inr n \<and>
        map_of (snapshots c') ''ingress'' = Some (node_snapshot pb (pe_node env i) n)"
      using ing by blast
    show "\<exists>n i. node_spec pb ?gc ?gv name cs n \<and> map_of (snapshots c') name = Some (node_snapshot pb (pe_node env i) n)"
      if m: "(name, cs) \<in> set pc" "name \<noteq> ''ingress''" for name cs
    proof -
      have "(name, cs) \<in> set (mrange (pe_second env) pc)" "name \<noteq> n_Name ing" using m mem(1) ing_name by simp_all
      then obtain n i where "node_spec pb ?gc ?gv name cs n"
          "map_of (rev (published pb env 0 (ns @ [ing]))) name = Some (node_snapshot pb (pe_node env i) n)"
        using published_node [OF ns mem(2)] by metis
      then show ?thesis by (auto simp: nodes pub(3) map_add_def)
    qed
  qed
qed

subsection \<open>A provider with one node\<close>

definition sample_endpoint :: endpoint where
  "sample_endpoint = \<lparr>ep_Address = ''10.0.0.1'', ep_Annotations = [(AnnotaionEndpointWeight, ''32'')], ep_Port = 8080\<rparr>"

definition sample_cluster :: cluster where
  "sample_cluster = \<lparr>clu_Name = ''beta.svc'', clu_Endpoints = [sample_endpoint]\<rparr>"

definition sample_clusters :: provider_clusters where
  "sample_clusters = [(''n1'', [sample_cluster])]"

definition sample_env :: "(int64 order \<times> (int64 \<Rightarrow> orders)) poll_env" where
  "sample_env = \<lparr>pe_first = id, pe_second = rev, pe_node = (\<lambda>_ _. id), pe_set = (\<lambda>_. (id, \<lambda>_ _. rev))\<rparr>"

lemma sample_clusters_facts:
  "provider_wf sample_clusters" "readable sample_clusters" "set_orders (pe_set sample_env i)"
  "is_order (pe_first sample_env)" "is_order (pe_second sample_env)" "is_order (pe_node sample_env i j)"
  by (simp_all add: provider_wf_def readable_def sample_clusters_def sample_cluster_def sample_endpoint_def
      map_wf_def sample_env_def set_orders_def expected_status_def annotation_names range_stops_def)

text \<open>What the updater writes into the hash, and when it does not depend on the order.\<close>

definition written :: "protobuf \<Rightarrow> (string \<times> cluster_load_assignment) list \<Rightarrow> bytes" where
  "written pb groups =
     concat (map (\<lambda>(_, ep). case pb_Marshal pb (ClusterLoadAssignment ep) of Inl _ \<Rightarrow> [] | Inr b \<Rightarrow> b) groups)"

lemma computeVersion_written:
  "computeVersion pb (Node_Endpoints ord n) = EncodeToString (md5 (written pb (mrange ord (n_endpoints n))))"
  by (simp add: computeVersion_def Node_Endpoints_def written_def comp_def case_prod_beta')

lemma mrange_short:
  assumes "length m \<le> 1" and "is_order ord" and "is_order ord'"
  shows "mrange ord' m = mrange ord m"
proof (cases m)
  case (Cons x xs)
  then have m: "m = [x]" using assms(1) by simp
  have "ord [fst x] = [fst x]" "ord' [fst x] = [fst x]"
    using is_orderD [OF assms(2), of "[fst x]"] is_orderD [OF assms(3), of "[fst x]"] by simp_all
  then show ?thesis by (simp add: m mrange_def)
qed (use assms in simp)

text \<open>A serialiser that writes the name of a resource, and a node with two endpoint groups.\<close>

definition protobuf_names :: protobuf where
  "protobuf_names = protobuf_sample\<lparr>pb_Marshal := \<lambda>r. Inr (map (\<lambda>c. of_nat (of_char c)) (GetResourceName r))\<rparr>"

definition sample_groups :: node where
  "sample_groups = (NewNode ''n'')\<lparr>n_endpoints :=
     [(''a'', \<lparr>cla_ClusterName = ''a'', cla_Endpoints = [\<lparr>loc_LbEndpoints = []\<rparr>]\<rparr>),
      (''b'', \<lparr>cla_ClusterName = ''b'', cla_Endpoints = [\<lparr>loc_LbEndpoints = []\<rparr>]\<rparr>)]\<rparr>"

lemma sample_groups_written:
  "written protobuf_names (mrange id (n_endpoints sample_groups)) = [97, 98]"
  "written protobuf_names (mrange rev (n_endpoints sample_groups)) = [98, 97]"
  by (simp_all add: written_def sample_groups_def protobuf_names_def mrange_def)

subsection \<open>Properties\<close>

text \<open>
  C8. The snapshots that the updater publishes pass the consistency check of the cache: the
  clusters refer to exactly the endpoints and the listeners to exactly the routes of the
  snapshot, whatever the orders of the loops. The exception is a node without clusters, whose
  ingress listener refers to a route that the snapshot does not have.
\<close>
theorem transform_consistent:
  assumes "hcm_roundtrip pb" and "transform pb ord1 ord2 pc = Inr nodes" and "provider_wf pc" and "is_order ord2"
    and "\<And>i. is_order (ords i)" and "\<And>i. is_order (cords i)" and "nd \<in> set nodes"
  shows "Consistent pb cords (Some (node_snapshot pb ords nd)) = None \<longleftrightarrow>
    nd = last nodes \<or> (\<exists>cs. (n_Name nd, cs) \<in> set pc \<and> cs \<noteq> [])"
  using assms(2)
proof (rule transform_nodes)
  fix ns ing
  let ?gc = "global_clusters ord1 pc" and ?gv = "global_vhosts ord1 pc"
  assume nodes: "nodes = ns @ [ing]" and ing: "ingress_node pb ?gc ?gv = Inr ing"
    and ns: "list_all2 (\<lambda>(name, cs) n. node_spec pb ?gc ?gv name cs n) (mrange ord2 pc) ns"
  show ?thesis
  proof (cases "nd = ing")
    case True
    then show ?thesis using ingress_node_consistent [OF assms(1) ing assms(5,6)] nodes by simp
  next
    case False
    then obtain i where i: "i < length ns" "ns ! i = nd"
      using assms(7) nodes by (auto simp: in_set_conv_nth)
    obtain name cs where x: "mrange ord2 pc ! i = (name, cs)" by (cases "mrange ord2 pc ! i")
    then have spec: "node_spec pb ?gc ?gv name cs nd"
      using list_all2_nthD2 [OF ns i(1)] i(2) by simp
    then have nm: "n_Name nd = name" by (simp add: node_spec_def)
    have "(name, cs) \<in> set pc"
      using x i(1) list_all2_lengthD [OF ns] nth_mem [of i "mrange ord2 pc"] assms(3,4) by (simp add: provider_wf_def)
    moreover have "map_wf pc" using assms(3) by (simp add: provider_wf_def)
    ultimately have "(\<exists>cs'. (name, cs') \<in> set pc \<and> cs' \<noteq> []) \<longleftrightarrow> cs \<noteq> []"
      by (simp add: map_wf_lookup)
    then show ?thesis
      unfolding build_node_consistent [OF assms(1) spec assms(5,6)] nm using False nodes by simp
  qed
qed

theorem transform_consistent_witness:
  "\<exists>nodes. transform protobuf_sample id rev sample_clusters = Inr nodes \<and>
    Consistent protobuf_sample (\<lambda>_. rev) (Some (node_snapshot protobuf_sample (\<lambda>_. id) (last nodes))) = None"
proof -
  obtain nodes where nodes: "transform protobuf_sample id rev sample_clusters = Inr nodes"
    using transform_returns [OF sample_clusters_facts(1,2)] is_order_id(1) is_order_rev by blast
  then have "last nodes \<in> set nodes" by (rule transform_nodes) simp
  with transform_consistent [OF protobuf_sample_roundtrip nodes sample_clusters_facts(1),
      of "\<lambda>_. id" "\<lambda>_. rev" "last nodes"] nodes
  show ?thesis by simp
qed

text \<open>
  C9. A status range stops the process: when the merged annotations of any cluster have a
  numeric range such as \<open>200-299\<close> as their expected status, the only form that the parser
  does not answer with its fallback, the turn of the updater ends in an index out of range,
  whatever the cache is and before anything is published.
\<close>
theorem status_range_stops_updater:
  assumes "provider_wf pc" and "(name, cs) \<in> set pc" and "c \<in> set cs"
    and "last_annotation (clu_Endpoints c) AnnotationHealthExpectedStatus = Some (FormatInt lo @ ''-'' @ FormatInt hi)"
    and "0 \<le> lo" and "lo < 2 ^ 63" and "0 \<le> hi" and "is_order (pe_first env)" and "is_order (pe_second env)"
  shows "Updater_poll setSnapshot pb env (Inr pc) s = Inl IndexOutOfRange"
proof -
  have "CHR ''-'' \<notin> set (FormatInt hi)"
    using assms(7) format_nat_digits [of "CHR ''-''" "nat hi"] by (auto simp: FormatInt_def is_digit_def)
  then have "range_stops (expected_status c)"
    using assms(4) range_stops_decimal [OF assms(5,6)] by (simp add: expected_status_def)
  then have "\<not> readable pc" using assms(2,3) by (auto simp: readable_def)
  then show ?thesis
    using transform_stops [OF assms(1) _ assms(8,9)] by (simp add: Updater_poll_def)
qed

theorem status_range_stops_updater_witness:
  "Updater_poll (\<lambda>e. SetSnapshot (fst e) (snd e)) protobuf_sample sample_env
     (Inr [(''n1'', [sample_cluster\<lparr>clu_Endpoints := [sample_endpoint\<lparr>ep_Annotations :=
        [(AnnotationHealthExpectedStatus, FormatInt 200 @ ''-'' @ FormatInt 299)]\<rparr>]\<rparr>])])
     (empty_heap, NewSnapshotCache True) = Inl IndexOutOfRange"
  by (rule status_range_stops_updater [where lo = 200 and hi = 299])
    (auto simp: provider_wf_def map_wf_def sample_clusters_facts)

text \<open>
  C37. The listeners that \<open>transform\<close> builds, as they are read back from the message: the ingress
  listener of a node of the provider has, for each of its clusters, the last one first, the fault
  filter when the cluster injects faults and then the health check, and ends in the router; the
  egress listener has only the router; the listener of the ingress node checks the authorisation
  before the router. Each listens on its own port of all addresses and refers to exactly its route.
\<close>
theorem listener_filter_chain:
  assumes "hcm_roundtrip pb" and "transform pb ord1 ord2 pc = Inr nodes" and "provider_wf pc" and "is_order ord2"
  shows "(\<forall>name cs. (name, cs) \<in> set pc \<longrightarrow> (\<exists>n \<in> set (butlast nodes). \<exists>li le. n_Name n = name \<and> n_listeners n = [li, le] \<and>
      http_filters pb li = concat (map cluster_filters (rev cs)) @ [Router] \<and> http_filters pb le = [Router] \<and>
      li_Name li = ''default-ingress'' \<and> li_Name le = ''default-egress'' \<and>
      li_Address li = \<lparr>sa_Protocol = TCP, sa_Address = ''0.0.0.0'', sa_PortValue = 4100\<rparr> \<and>
      li_Address le = \<lparr>sa_Protocol = TCP, sa_Address = ''0.0.0.0'', sa_PortValue = 4000\<rparr> \<and>
      ref_set pb (Listener li) = {''ingress_route''} \<and> ref_set pb (Listener le) = {''egress_route''})) \<and>
    (\<exists>li. n_listeners (last nodes) = [li] \<and> http_filters pb li = [HTTPExternalAuthorization, Router] \<and>
      li_Address li = \<lparr>sa_Protocol = TCP, sa_Address = ''0.0.0.0'', sa_PortValue = 4100\<rparr> \<and>
      ref_set pb (Listener li) = {''ingress_route''})"
  using assms(2)
proof (rule transform_nodes)
  fix ns ing
  let ?gc = "global_clusters ord1 pc" and ?gv = "global_vhosts ord1 pc"
  assume nodes: "nodes = ns @ [ing]" and ing: "ingress_node pb ?gc ?gv = Inr ing"
    and ns: "list_all2 (\<lambda>(name, cs) n. node_spec pb ?gc ?gv name cs n) (mrange ord2 pc) ns"
  note refs = Listener_Resource_refs [OF assms(1)] and filters = http_filters_built [OF assms(1)]
  note names = ingressRoute_def egressRoute_def defaultIngressTrafficPort_def defaultEgressTrafficPort_def
  have "\<exists>n \<in> set ns. \<exists>li le. n_Name n = name \<and> n_listeners n = [li, le] \<and>
      http_filters pb li = concat (map cluster_filters (rev cs)) @ [Router] \<and> http_filters pb le = [Router] \<and>
      li_Name li = ''default-ingress'' \<and> li_Name le = ''default-egress'' \<and>
      li_Address li = \<lparr>sa_Protocol = TCP, sa_Address = ''0.0.0.0'', sa_PortValue = 4100\<rparr> \<and>
      li_Address le = \<lparr>sa_Protocol = TCP, sa_Address = ''0.0.0.0'', sa_PortValue = 4000\<rparr> \<and>
      ref_set pb (Listener li) = {''ingress_route''} \<and> ref_set pb (Listener le) = {''egress_route''}"
    if m: "(name, cs) \<in> set pc" for name cs
  proof -
    have "(name, cs) \<in> set (mrange ord2 pc)" using m assms(3,4) by (simp add: provider_wf_def)
    then obtain i where i: "i < length (mrange ord2 pc)" "mrange ord2 pc ! i = (name, cs)"
      by (metis in_set_conv_nth)
    define n where "n = ns ! i"
    then have n: "n \<in> set ns" "node_spec pb ?gc ?gv name cs n"
      using list_all2_nthD [OF ns i(1)] i list_all2_lengthD [OF ns] by auto
    then obtain li le bi be where l: "n_listeners n = [li, le]" "builder_wf ingressRoute bi" "Listener_Resource pb bi = Inr li"
        "builder_wf egressRoute be" "Listener_Resource pb be = Inr le" "built_from pb bi li" "built_from pb be le"
      and rest: "n_Name n = name" "li_Name li = ''default-ingress''" "li_Name le = ''default-egress''"
        "li_Address li = \<lparr>sa_Protocol = TCP, sa_Address = ''0.0.0.0'', sa_PortValue = defaultIngressTrafficPort\<rparr>"
        "li_Address le = \<lparr>sa_Protocol = TCP, sa_Address = ''0.0.0.0'', sa_PortValue = defaultEgressTrafficPort\<rparr>"
        "filter_names_of bi = concat (map cluster_filters (rev cs)) @ [Router]" "filter_names_of be = [Router]"
      unfolding node_spec_def by (elim conjE exE) (rule that; assumption)
    note facts = l(1) rest filters [OF l(6)] filters [OF l(7)] refs [OF l(2,3)] refs [OF l(4,5)]
    show ?thesis
      by (rule bexI [OF _ n(1)], intro exI [of _ li] exI [of _ le]) (simp add: facts del: ref_set.simps, simp add: names)
  qed
  moreover obtain li bi where l: "n_listeners ing = [li]" "builder_wf ingressRoute bi" "Listener_Resource pb bi = Inr li"
      "built_from pb bi li" "filter_names_of bi = [HTTPExternalAuthorization, Router]"
      "li_Address li = \<lparr>sa_Protocol = TCP, sa_Address = ''0.0.0.0'', sa_PortValue = defaultIngressTrafficPort\<rparr>"
    using ingress_node_post [OF ing] by (elim conjE exE) (rule that; assumption)
  moreover have "ref_set pb (Listener li) = {''ingress_route''}"
    using refs [OF l(2,3)] by (simp add: ingressRoute_def del: ref_set.simps)
  ultimately show ?thesis
    unfolding nodes by (simp add: filters del: ref_set.simps) (simp add: names)
qed

theorem listener_filter_chain_witness:
  "\<exists>nodes. transform protobuf_sample id rev sample_clusters = Inr nodes \<and>
    (\<exists>n \<in> set (butlast nodes). \<exists>li le. n_Name n = ''n1'' \<and> n_listeners n = [li, le] \<and>
      http_filters protobuf_sample li = cluster_filters sample_cluster @ [Router])"
proof -
  obtain nodes where nodes: "transform protobuf_sample id rev sample_clusters = Inr nodes"
    using transform_returns [OF sample_clusters_facts(1,2)] is_order_id(1) is_order_rev by blast
  have m: "(''n1'', [sample_cluster]) \<in> set sample_clusters" by (simp add: sample_clusters_def)
  have one: "concat (map cluster_filters (rev [sample_cluster])) = cluster_filters sample_cluster" by simp
  note all = listener_filter_chain [OF protobuf_sample_roundtrip nodes sample_clusters_facts(1) is_order_rev]
  show ?thesis
    using all [THEN conjunct1, rule_format, OF m, unfolded one]
    by (intro exI [of _ nodes] conjI nodes) (elim bexE exE conjE, intro bexI exI conjI; assumption)
qed

text \<open>
  C39. What decides whether a client hears of an update is the hash of the endpoints alone, written
  in the order in which Go visits their map. Let an update keep the endpoints of a node, whatever
  it does to its clusters, routes and listeners. With at most one endpoint group a watch that has
  the node's version stays open and silent, in any order. In general it does exactly when the
  digest over the endpoints in this turn's order is the one of the turn that made the version;
  otherwise the watch is closed, and outside the ADS mode its channel holds the old endpoints
  under a new version.
\<close>
theorem version_from_endpoints:
  assumes "cache_inv h c" and "is_order word" and "\<And>i j. is_order (sords i j)"
    and "n_endpoints new = n_endpoints old" and "is_order (ords 0)" and "is_order (ords' 0)"
    and "req_TypeUrl (w_Request w) \<in> set [EndpointType, ClusterType, RouteType, ListenerType]"
    and "req_VersionInfo (w_Request w) = GetVersion (Some (node_snapshot pb ords old)) (req_TypeUrl (w_Request w))"
    and "open_watch c (n_Name new) i = Some w"
  shows "\<exists>h' c'. SetSnapshot word sords (n_Name new) (node_snapshot pb ords' new) (h, c) = Inr (h', c') \<and>
    map_of (snapshots c') (n_Name new) = Some (node_snapshot pb ords' new) \<and>
    (length (n_endpoints old) \<le> 1 \<longrightarrow>
       open_watch c' (n_Name new) i = Some w \<and> h_chan h' (w_Response w) = h_chan h (w_Response w)) \<and>
    (if md5 (written pb (mrange (ords' 0) (n_endpoints old))) = md5 (written pb (mrange (ords 0) (n_endpoints old)))
     then open_watch c' (n_Name new) i = Some w \<and> h_chan h' (w_Response w) = h_chan h (w_Response w)
     else open_watch c' (n_Name new) i = None \<and>
       (\<not> ads c \<longrightarrow> (\<exists>resp. h_chan h' (w_Response w) = Some (full_chan resp) \<and>
          rsp_Version resp = EncodeToString (md5 (written pb (mrange (ords' 0) (n_endpoints old)))) \<and>
          rsp_Version resp \<noteq> req_VersionInfo (w_Request w))))"
proof -
  let ?snap = "node_snapshot pb ords' new"
  obtain h' c' where s: "SetSnapshot word sords (n_Name new) ?snap (h, c) = Inr (h', c')"
    and post: "set_snapshot_post sords (n_Name new) ?snap h c h' c'"
    using SetSnapshot_inv [OF assms(1) wf_node_snapshot assms(2), of sords "n_Name new"] assms(3) by blast
  have new: "GetVersion (Some ?snap) (req_TypeUrl (w_Request w)) =
      EncodeToString (md5 (written pb (mrange (ords' 0) (n_endpoints old))))"
    unfolding node_snapshot_version [OF assms(7)] computeVersion_written assms(4) ..
  have "req_VersionInfo (w_Request w) = EncodeToString (md5 (written pb (mrange (ords 0) (n_endpoints old))))"
    unfolding assms(8) node_snapshot_version [OF assms(7)] computeVersion_written ..
  then have out: "outdated ?snap (w_Request w) \<longleftrightarrow>
      md5 (written pb (mrange (ords' 0) (n_endpoints old))) \<noteq> md5 (written pb (mrange (ords 0) (n_endpoints old)))"
    by (simp add: outdated_def new EncodeToString_inj)
  have one: "mrange (ords' 0) (n_endpoints old) = mrange (ords 0) (n_endpoints old)" if "length (n_endpoints old) \<le> 1"
    by (rule mrange_short [OF that assms(5,6)])
  have quiet: "h_chan h' (w_Response w) = h_chan h (w_Response w)" if "\<not> outdated ?snap (w_Request w)"
  proof -
    have "w_Response v \<noteq> w_Response w" if "open_watch c (n_Name new) j = Some v" "answered c ?snap (w_Request v)" for j v
      using cache_inv_unique [OF assms(1) that(1) assms(9)] that assms(9) \<open>\<not> outdated ?snap (w_Request w)\<close>
      by (auto simp: answered_def)
    then show ?thesis using post unfolding set_snapshot_post_def by metis
  qed
  have reply: "h_chan h' (w_Response w) = Some (full_chan (reply (sords i) ?snap (w_Request w)))"
    if "outdated ?snap (w_Request w)" "\<not> ads c"
    using post that assms(9) by (simp add: set_snapshot_post_def answered_def names_match_def)
  show ?thesis
    using s post out one quiet reply assms(9) new
    by (intro exI [of _ h'] exI [of _ c']) (auto simp: set_snapshot_post_def outdated_def)
qed

text \<open>Two endpoint groups whose encodings are \<open>a\<close> and \<open>b\<close>: the same node again, visited in the other order.\<close>

theorem version_from_endpoints_witness:
  "\<exists>h c w h' c'. open_watch c ''n'' 1 = Some w \<and>
     req_VersionInfo (w_Request w) = GetVersion (Some (node_snapshot protobuf_names (\<lambda>_. id) sample_groups)) RouteType \<and>
     SetSnapshot rev (\<lambda>_ _. id) ''n'' (node_snapshot protobuf_names (\<lambda>_. rev) sample_groups) (h, c) = Inr (h', c') \<and>
     open_watch c' ''n'' 1 = None"
proof -
  let ?req = "\<lparr>req_VersionInfo = GetVersion (Some (node_snapshot protobuf_names (\<lambda>_. id) sample_groups)) RouteType,
    req_Node = Some \<lparr>cn_Id = ''n'', cn_Cluster = []\<rparr>, req_ResourceNames = [], req_TypeUrl = RouteType, req_ResponseNonce = []\<rparr>"
  obtain h c ch k where "CreateWatch 0 (\<lambda>_. id) ?req (empty_heap, NewSnapshotCache False) = Inr ((h, c), ch, k)"
      and inv: "cache_inv h c" and w: "open_watch c ''n'' 1 = Some \<lparr>w_Request = ?req, w_Response = 0\<rparr>" and "ads c = False"
    by (rule waiting_cache [of ?req]) (simp add: nodeID_def)
  have "n_Name sample_groups = ''n''" by (simp add: sample_groups_def)
  with version_from_endpoints [OF inv is_order_rev, of "\<lambda>_ _. id" sample_groups sample_groups "\<lambda>_. id" "\<lambda>_. rev"
      "\<lparr>w_Request = ?req, w_Response = 0\<rparr>" protobuf_names 1] w
  show ?thesis by (fastforce simp: sample_groups_written md5_vectors)
qed

end
