(* ===== verification/ControlPlane.thy ===== *)
theory ControlPlane
  imports Delivery Publish
begin

text \<open>
  \<open>cmd/bent/main.go\<close> starts the updater beside the server on the same cache. A turn of the
  updater is a sequence of \<open>publish\<close> steps of the system, so a turn leads from a reachable
  state to a reachable one.
\<close>

lemma publish_from_reach:
  assumes "reach pb cbs b n s" and "\<And>i. set_orders (pe_set env i)"
    and "go_fold (\<lambda>(i, node). SetSnapshot (fst (pe_set env i)) (snd (pe_set env i)) (n_Name node)
        (node_snapshot pb (pe_node env i) node)) (List.enumerate k nodes) (sys_heap s, sys_cache s) = Inr (h, c)"
  shows "\<exists>t. reach pb cbs b (n + length nodes) t \<and> sys_heap t = h \<and> sys_cache t = c \<and>
    sys_streams t = sys_streams s \<and> sys_server t = sys_server s \<and>
    sys_published t = rev (published pb env k nodes) @ sys_published s"
  using assms(1,3)
proof (induction nodes arbitrary: n s k)
  case Nil
  then show ?case by (intro exI [of _ s]) (simp add: published_def)
next
  case (Cons nd nodes)
  obtain h1 c1 where 1: "SetSnapshot (fst (pe_set env k)) (snd (pe_set env k)) (n_Name nd)
        (node_snapshot pb (pe_node env k) nd) (sys_heap s, sys_cache s) = Inr (h1, c1)"
    and 2: "go_fold (\<lambda>(i, node). SetSnapshot (fst (pe_set env i)) (snd (pe_set env i)) (n_Name node)
        (node_snapshot pb (pe_node env i) node)) (List.enumerate (Suc k) nodes) (h1, c1) = Inr (h, c)"
    using Cons.prems(2) by (auto simp: go_bind_eq_Inr)
  let ?s = "s\<lparr>sys_heap := h1, sys_cache := c1,
    sys_published := (n_Name nd, node_snapshot pb (pe_node env k) nd) # sys_published s\<rparr>"
  have "sys_step pb s ?s"
    using assms(2) [of k] 1 by (intro sys_step.publish) (auto simp: set_orders_def)
  then have "reach pb cbs b (Suc n) ?s" by (rule reach_step [OF Cons.prems(1)])
  from Cons.IH [OF this, of "Suc k"] 2 obtain t where
    "reach pb cbs b (Suc n + length nodes) t \<and> sys_heap t = h \<and> sys_cache t = c \<and>
     sys_streams t = sys_streams s \<and> sys_server t = sys_server s \<and>
     sys_published t = rev (published pb env (Suc k) nodes) @ (n_Name nd, node_snapshot pb (pe_node env k) nd) # sys_published s"
    by auto
  then show ?case by (intro exI [of _ t]) (simp add: published_def)
qed

lemma transform_length:
  assumes "transform pb ord1 ord2 pc = Inr nodes" and "is_order ord2"
  shows "length nodes = length pc + 1"
  using assms(1)
proof (rule transform_nodes)
  fix ns ing
  assume "nodes = ns @ [ing]" and "list_all2 (\<lambda>(name, cs) n.
      node_spec pb (global_clusters ord1 pc) (global_vhosts ord1 pc) name cs n) (mrange ord2 pc) ns"
  then show ?thesis using assms(2) list_all2_lengthD by fastforce
qed

lemma poll_reach:
  assumes "reach pb cbs b n s" and "\<And>i. set_orders (pe_set env i)" and "is_order (pe_second env)"
    and "Updater_poll (\<lambda>e. SetSnapshot (fst e) (snd e)) pb env (Inr pc) (sys_heap s, sys_cache s) = Inr (h, c)"
  shows "\<exists>t. reach pb cbs b (n + length pc + 1) t \<and> sys_heap t = h \<and> sys_cache t = c \<and>
    sys_streams t = sys_streams s \<and> sys_server t = sys_server s"
proof -
  obtain nodes where nodes: "transform pb (pe_first env) (pe_second env) pc = Inr nodes"
      "publish_nodes (\<lambda>e. SetSnapshot (fst e) (snd e)) pb env nodes (sys_heap s, sys_cache s) = Inr (h, c)"
    using assms(4) by (auto simp: Updater_poll_def go_bind_eq_Inr)
  from publish_from_reach [OF assms(1,2) nodes(2) [unfolded publish_nodes_def]]
  show ?thesis unfolding transform_length [OF nodes(1) assms(3)] by (auto simp: add.assoc)
qed

subsection \<open>What a turn does to an open watch\<close>

abbreviation publish_fold ::
    "protobuf \<Rightarrow> (int64 order \<times> (int64 \<Rightarrow> orders)) poll_env \<Rightarrow> nat \<Rightarrow> node list
     \<Rightarrow> rheap \<times> snapshot_cache \<Rightarrow> (rheap \<times> snapshot_cache) go" where
  "publish_fold pb env k nodes \<equiv> go_fold (\<lambda>(i, node). SetSnapshot (fst (pe_set env i)) (snd (pe_set env i)) (n_Name node)
     (node_snapshot pb (pe_node env i) node)) (List.enumerate k nodes)"

lemma publish_fold_Cons:
  assumes "cache_inv h c" and "\<And>i. set_orders (pe_set env i)"
    and "publish_fold pb env k (nd # nodes) (h, c) = Inr r"
  obtains h1 c1 where "cache_inv h1 c1" "publish_fold pb env (Suc k) nodes (h1, c1) = Inr r"
    "set_snapshot_post (snd (pe_set env k)) (n_Name nd) (node_snapshot pb (pe_node env k) nd) h c h1 c1"
proof -
  have "\<exists>h1 c1. SetSnapshot (fst (pe_set env k)) (snd (pe_set env k)) (n_Name nd)
      (node_snapshot pb (pe_node env k) nd) (h, c) = Inr (h1, c1) \<and> cache_inv h1 c1 \<and>
      set_snapshot_post (snd (pe_set env k)) (n_Name nd) (node_snapshot pb (pe_node env k) nd) h c h1 c1"
    using assms(2) [of k] by (intro SetSnapshot_inv [OF assms(1)]) (auto simp: set_orders_def)
  with assms(3) that show thesis by (auto simp: go_bind_eq_Inr)
qed

lemma set_snapshot_other:
  assumes "set_snapshot_post ords n snap h c h' c'" and "m \<noteq> n"
  shows "open_watch c' m i = open_watch c m i" "map_of (snapshots c') m = map_of (snapshots c) m"
  using assms by (auto simp: set_snapshot_post_def split: option.split)

lemma set_snapshot_kept:
  assumes "set_snapshot_post ords n snap h c h' c'" and "open_watch c' m i = Some w"
  shows "open_watch c m i = Some w \<and> (m = n \<longrightarrow> \<not> outdated snap (w_Request w))"
  using assms by (auto simp: set_snapshot_post_def split: option.splits if_splits)

lemma set_snapshot_quiet:
  assumes "set_snapshot_post ords n snap h c h' c'" and "\<forall>m i w. open_watch c m i = Some w \<longrightarrow> w_Response w \<noteq> d"
  shows "h_chan h' d = h_chan h d" "\<forall>m i w. open_watch c' m i = Some w \<longrightarrow> w_Response w \<noteq> d"
proof -
  show "h_chan h' d = h_chan h d" using assms unfolding set_snapshot_post_def by blast
  show "\<forall>m i w. open_watch c' m i = Some w \<longrightarrow> w_Response w \<noteq> d"
    using assms(2) set_snapshot_kept [OF assms(1)] by blast
qed

text \<open>The other nodes leave a node's snapshot, its watches and its channels alone.\<close>

lemma publish_others:
  assumes "cache_inv h c" and "\<And>i. set_orders (pe_set env i)"
    and "publish_fold pb env k nodes (h, c) = Inr (h', c')" and "m \<notin> n_Name ` set nodes"
  shows "map_of (snapshots c') m = map_of (snapshots c) m \<and> open_watch c' m i = open_watch c m i \<and>
    ((\<forall>m i w. open_watch c m i = Some w \<longrightarrow> w_Response w \<noteq> d) \<longrightarrow> h_chan h' d = h_chan h d)"
  using assms(1,3,4)
proof (induction nodes arbitrary: k h c)
  case (Cons nd nodes)
  obtain h1 c1 where "cache_inv h1 c1" "publish_fold pb env (Suc k) nodes (h1, c1) = Inr (h', c')"
    and post: "set_snapshot_post (snd (pe_set env k)) (n_Name nd) (node_snapshot pb (pe_node env k) nd) h c h1 c1"
    using publish_fold_Cons [OF Cons.prems(1) assms(2) Cons.prems(2)] by blast
  note IH = Cons.IH [OF this(1,2)]
  have "m \<noteq> n_Name nd" "m \<notin> n_Name ` set nodes" using Cons.prems(3) by auto
  then show ?case
    using IH set_snapshot_other [OF post] set_snapshot_quiet [OF post] by metis
qed simp

text \<open>
  The one node with the name of the watch answers it, if it has another version and the names
  match, or leaves it open, if it has the same version.
\<close>

lemma publish_watch:
  assumes "cache_inv h c" and "\<And>i. set_orders (pe_set env i)"
    and "publish_fold pb env k nodes (h, c) = Inr (h', c')"
    and "length (filter (\<lambda>nd. n_Name nd = m) nodes) = 1" and "open_watch c m i = Some w"
  shows "\<exists>snap ords. map_of (snapshots c') m = Some snap \<and> snapshot_wf snap \<and> (\<forall>j. is_order (ords j)) \<and>
    (answered c snap (w_Request w) \<longrightarrow> h_chan h' (w_Response w) = Some (full_chan (reply ords snap (w_Request w)))) \<and>
    (\<not> outdated snap (w_Request w) \<longrightarrow> open_watch c' m i = Some w)"
  using assms(1,3-5)
proof (induction nodes arbitrary: k h c)
  case (Cons nd nodes)
  let ?snap = "node_snapshot pb (pe_node env k) nd" and ?ords = "snd (pe_set env k) i"
  obtain h1 c1 where 1: "cache_inv h1 c1" "publish_fold pb env (Suc k) nodes (h1, c1) = Inr (h', c')"
    and post: "set_snapshot_post (snd (pe_set env k)) (n_Name nd) ?snap h c h1 c1"
    using publish_fold_Cons [OF Cons.prems(1) assms(2) Cons.prems(2)] by blast
  show ?case
  proof (cases "n_Name nd = m")
    case True
    then have "m \<notin> n_Name ` set nodes" using Cons.prems(3) by (auto simp: filter_empty_conv)
    note rest = publish_others [OF 1(1) assms(2) 1(2) this]
    note ow = set_snapshot_kept [OF post, unfolded True]
    have "map_of (snapshots c1) m = Some ?snap" using post True by (simp add: set_snapshot_post_def)
    moreover have "open_watch c1 m i = Some w" if "\<not> outdated ?snap (w_Request w)"
      using post True Cons.prems(4) that by (simp add: set_snapshot_post_def)
    moreover have "h_chan h' (w_Response w) = Some (full_chan (reply ?ords ?snap (w_Request w)))"
      if a: "answered c ?snap (w_Request w)"
    proof -
      have "w_Response v \<noteq> w_Response w" if "open_watch c1 m' j = Some v" for m' j v
        using cache_inv_unique [OF Cons.prems(1) _ Cons.prems(4)] ow that a Cons.prems(4)
        unfolding answered_def by metis
      then have "h_chan h' (w_Response w) = h_chan h1 (w_Response w)" using rest [of i "w_Response w"] by blast
      then show ?thesis using post True Cons.prems(4) a by (simp add: set_snapshot_post_def)
    qed
    moreover have "is_order (?ords j)" for j using assms(2) [of k] by (simp add: set_orders_def)
    ultimately show ?thesis using rest by (intro exI [of _ ?snap] exI [of _ ?ords]) simp
  next
    case False
    then have "open_watch c1 m i = Some w"
      using set_snapshot_other(1) [OF post] Cons.prems(4) by metis
    moreover have "answered c1 = answered c"
      using post by (intro ext answered_ads) (simp add: set_snapshot_post_def)
    ultimately show ?thesis using Cons.IH [OF 1] Cons.prems(3) False by simp
  qed
qed simp

lemma transform_once:
  assumes "transform pb ord1 ord2 pc = Inr nodes" and "provider_wf pc" and "is_order ord2"
    and "name \<in> fst ` set pc" and "name \<noteq> ''ingress''"
  shows "length (filter (\<lambda>nd. n_Name nd = name) nodes) = 1"
  using assms(1)
proof (rule transform_nodes)
  fix ns ing
  assume nodes: "nodes = ns @ [ing]" and "list_all2 (\<lambda>(name, cs) n.
      node_spec pb (global_clusters ord1 pc) (global_vhosts ord1 pc) name cs n) (mrange ord2 pc) ns"
    and ing: "ingress_node pb (global_clusters ord1 pc) (global_vhosts ord1 pc) = Inr ing"
  then have names: "map n_Name ns = map fst (mrange ord2 pc)" by (intro list_all2_names)
  have "distinct (map fst (mrange ord2 pc))" "name \<in> set (map fst (mrange ord2 pc))"
    using assms(2-4) by (simp_all add: provider_wf_def map_wf_def [symmetric])
  then have "length (filter (\<lambda>x. x = name) (map n_Name ns)) = 1"
    by (simp add: names distinct_length_filter)
  moreover have "n_Name ing \<noteq> name" using ingress_node_post [OF ing] assms(5) by auto
  ultimately show ?thesis by (simp add: nodes filter_map comp_def)
qed

text \<open>A turn that succeeds, seen from an open watch of one of the provider's nodes.\<close>

lemma poll_watch:
  assumes "cache_inv h c" and "\<And>i. set_orders (pe_set env i)" and "is_order (pe_second env)" and "provider_wf pc"
    and "Updater_poll (\<lambda>e. SetSnapshot (fst e) (snd e)) pb env (Inr pc) (h, c) = Inr (h', c')"
    and "(name, cs) \<in> set pc" "name \<noteq> ''ingress''" and "open_watch c name i = Some w"
  shows "\<exists>snap ords. map_of (snapshots c') name = Some snap \<and> snapshot_wf snap \<and> (\<forall>j. is_order (ords j)) \<and>
    (answered c snap (w_Request w) \<longrightarrow> h_chan h' (w_Response w) = Some (full_chan (reply ords snap (w_Request w)))) \<and>
    (\<not> outdated snap (w_Request w) \<longrightarrow> open_watch c' name i = Some w)"
proof -
  obtain nodes where nodes: "transform pb (pe_first env) (pe_second env) pc = Inr nodes"
      "publish_nodes (\<lambda>e. SetSnapshot (fst e) (snd e)) pb env nodes (h, c) = Inr (h', c')"
    using assms(5) by (auto simp: Updater_poll_def go_bind_eq_Inr)
  have "name \<in> fst ` set pc" using assms(6) by force
  from transform_once [OF nodes(1) assms(4,3) this assms(7)]
  show ?thesis
    by (rule publish_watch [OF assms(1,2) nodes(2) [unfolded publish_nodes_def] _ assms(8)])
qed

text \<open>A control plane that has published one node.\<close>

lemma sample_published_node:
  obtains s where "reach pb None False 1 s" "\<not> ads (sys_cache s)"
    "map_of (snapshots (sys_cache s)) ''n'' = Some (node_snapshot pb (\<lambda>_. id) (NewNode ''n''))"
    "cache_inv (sys_heap s) (sys_cache s)"
proof -
  let ?i = "init_system None False" and ?snap = "node_snapshot pb (\<lambda>_. id) (NewNode ''n'')"
  have r: "reach pb None False 0 ?i" by (rule reach_init)
  have inv: "cache_inv (sys_heap ?i) (sys_cache ?i)" by (simp add: init_system_def NewSnapshotCache_inv)
  obtain h c where s: "SetSnapshot id (\<lambda>_ _. id) ''n'' ?snap (sys_heap ?i, sys_cache ?i) = Inr (h, c)"
      "cache_inv h c" "set_snapshot_post (\<lambda>_ _. id) ''n'' ?snap (sys_heap ?i) (sys_cache ?i) h c"
    using SetSnapshot_inv [OF inv wf_node_snapshot [of pb "\<lambda>_. id" "NewNode ''n''"] is_order_id(1), of "\<lambda>_ _. id" "''n''"] by auto
  let ?s = "?i\<lparr>sys_heap := h, sys_cache := c, sys_published := (''n'', ?snap) # sys_published ?i\<rparr>"
  have "sys_step pb ?i ?s"
    using s(1) by (intro sys_step.publish) auto
  then have "reach pb None False (Suc 0) ?s" by (rule reach_step [OF r])
  moreover have "\<not> ads c" "map_of (snapshots c) ''n'' = Some ?snap"
    using s(3) by (simp_all add: set_snapshot_post_def init_system_def NewSnapshotCache_def)
  ultimately show thesis using s(2) by (intro that [of ?s]) simp_all
qed

end
