(* ===== verification/CacheSpec.thy ===== *)
theory CacheSpec
  imports Cache
begin

text \<open>
  An abstract specification of the snapshot cache and the proof that the cache implements it.
  The abstract cache knows the snapshot of each node and, for each open watch, the request
  that waits; channels, status records, the clock and map orders are gone. Each operation of
  the cache is matched by an abstract one (\<open>abs_set\<close>, \<open>abs_create\<close>, \<open>abs_cancel\<close>,
  \<open>abs_clear\<close>), and the answers that the abstract operation demands are in the channels.
\<close>

subsection \<open>The abstract cache\<close>

record abs_cache =
  a_snapshot :: "string \<Rightarrow> snapshot option"
  a_waiting :: "string \<times> int64 \<Rightarrow> discovery_request option"
  a_next :: int64

definition abs_set :: "string \<Rightarrow> snapshot \<Rightarrow> abs_cache \<Rightarrow> abs_cache" where
  "abs_set n snap a = a\<lparr>a_snapshot := (a_snapshot a)(n \<mapsto> snap),
     a_waiting := (\<lambda>(m, i). case a_waiting a (m, i) of
        None \<Rightarrow> None
      | Some req \<Rightarrow> if m = n \<and> outdated snap req then None else Some req)\<rparr>"

text \<open>The request is answered at once, or waits when it is up to date or there is nothing to say.\<close>

definition abs_create :: "discovery_request \<Rightarrow> abs_cache \<Rightarrow> abs_cache" where
  "abs_create req a =
     (case a_snapshot a (nodeID req) of
        Some s \<Rightarrow> if outdated s req then a
                  else a\<lparr>a_waiting := (a_waiting a)((nodeID req, a_next a) \<mapsto> req), a_next := a_next a + 1\<rparr>
      | None \<Rightarrow> a\<lparr>a_waiting := (a_waiting a)((nodeID req, a_next a) \<mapsto> req), a_next := a_next a + 1\<rparr>)"

definition abs_cancel :: "string \<Rightarrow> int64 \<Rightarrow> abs_cache \<Rightarrow> abs_cache" where
  "abs_cancel n i a = a\<lparr>a_waiting := (a_waiting a)((n, i) := None)\<rparr>"

definition abs_clear :: "string \<Rightarrow> abs_cache \<Rightarrow> abs_cache" where
  "abs_clear n a = a\<lparr>a_snapshot := (a_snapshot a)(n := None),
     a_waiting := (\<lambda>(m, i). if m = n then None else a_waiting a (m, i))\<rparr>"

definition abs_of :: "snapshot_cache \<Rightarrow> abs_cache" where
  "abs_of c = \<lparr>a_snapshot = map_of (snapshots c),
     a_waiting = (\<lambda>(m, i). map_option w_Request (open_watch c m i)), a_next = watchCount c + 1\<rparr>"

subsection \<open>Each operation refines its abstract counterpart\<close>

lemma abs_set_refines:
  assumes "set_snapshot_post ords n snap h c h' c'"
  shows "abs_of c' = abs_set n snap (abs_of c)"
  using assms by (auto simp: set_snapshot_post_def abs_of_def abs_set_def fun_eq_iff split: option.split)

lemma abs_create_refines:
  assumes "create_watch_post ords req h c h' c' ch k"
  shows "abs_of c' = abs_create req (abs_of c)"
proof (cases k)
  case None
  then obtain s where "map_of (snapshots c) (nodeID req) = Some s" "outdated s req"
      "watchCount c' = watchCount c" "\<And>m i. open_watch c' m i = open_watch c m i" "snapshots c' = snapshots c"
    using assms by (auto simp: create_watch_post_def split: option.splits if_splits)
  then show ?thesis by (simp add: abs_of_def abs_create_def)
next
  case (Some t)
  then have "watchCount c' = watchCount c + 1" "snapshots c' = snapshots c"
      "\<And>m i. open_watch c' m i = (if m = nodeID req \<and> i = watchCount c + 1
         then Some \<lparr>w_Request = req, w_Response = ch\<rparr> else open_watch c m i)"
      "\<And>s. map_of (snapshots c) (nodeID req) = Some s \<Longrightarrow> \<not> outdated s req"
    using assms by (auto simp: create_watch_post_def split: option.splits if_splits)
  then show ?thesis
    by (auto simp: abs_of_def abs_create_def fun_eq_iff split: option.split)
qed

subsection \<open>Properties\<close>

text \<open>
  C10. The cache refines its abstract specification: as long as watch ids are left, every
  operation that changes the cache returns and has, under the abstraction, exactly the effect
  of its abstract counterpart. In particular map orders, the clock and the state of other
  channels have no influence on which watches stay open.
\<close>
theorem cache_refines_spec:
  assumes "cache_inv h c" and "ids_left c"
  shows "(\<forall>word ords n snap. is_order word \<longrightarrow> (\<forall>i. is_order (ords i 0)) \<longrightarrow> snapshot_wf snap \<longrightarrow>
            (\<exists>h' c'. SetSnapshot word ords n snap (h, c) = Inr (h', c') \<and> abs_of c' = abs_set n snap (abs_of c))) \<and>
         (\<forall>now ords req. is_order (ords 0) \<longrightarrow>
            (\<exists>h' c' ch k. CreateWatch now ords req (h, c) = Inr ((h', c'), ch, k) \<and>
               abs_of c' = abs_create req (abs_of c))) \<and>
         (\<forall>n i. abs_of (cancelWatch (CancelWatch n i) c) = abs_cancel n i (abs_of c)) \<and>
         (\<forall>n. abs_of (ClearSnapshot n c) = abs_clear n (abs_of c))"
proof (intro conjI allI impI)
  fix word :: "int64 order" and ords :: "int64 \<Rightarrow> orders" and n snap
  assume "is_order word" "\<forall>i. is_order (ords i 0)" "snapshot_wf snap"
  then show "\<exists>h' c'. SetSnapshot word ords n snap (h, c) = Inr (h', c') \<and> abs_of c' = abs_set n snap (abs_of c)"
    using SetSnapshot_inv [OF assms(1)] abs_set_refines by metis
next
  fix now and ords :: orders and req
  assume "is_order (ords 0)"
  then show "\<exists>h' c' ch k. CreateWatch now ords req (h, c) = Inr ((h', c'), ch, k) \<and>
      abs_of c' = abs_create req (abs_of c)"
    using CreateWatch_inv [OF assms] abs_create_refines by metis
next
  fix n i
  show "abs_of (cancelWatch (CancelWatch n i) c) = abs_cancel n i (abs_of c)"
    by (auto simp: abs_of_def abs_cancel_def open_watch_cancel fun_eq_iff)
next
  fix n
  show "abs_of (ClearSnapshot n c) = abs_clear n (abs_of c)"
    by (auto simp: abs_of_def abs_clear_def open_watch_clear fun_eq_iff) (simp_all add: ClearSnapshot_def)
qed

theorem cache_refines_spec_witness:
  "(\<exists>h' c'. SetSnapshot id (\<lambda>_ _. rev) ''web'' zero_snapshot (empty_heap, NewSnapshotCache True) = Inr (h', c') \<and>
     abs_of c' = abs_set ''web'' zero_snapshot (abs_of (NewSnapshotCache True))) \<and>
   abs_of (ClearSnapshot ''web'' (NewSnapshotCache True)) = abs_clear ''web'' (abs_of (NewSnapshotCache True))"
  using cache_refines_spec [OF NewSnapshotCache_inv ids_left_New, of True] by simp

text \<open>
  C11. The invariant of the cache holds in a new cache and every operation keeps it: watch ids
  are the ones handed out, every open watch has a channel of its own with room for the answer,
  and no open watch waits for a version that the current snapshot already differs from.
\<close>
theorem cache_inv_kept:
  "cache_inv empty_heap (NewSnapshotCache b) \<and>
   (cache_inv h c \<longrightarrow>
      (\<forall>word ords n snap. is_order word \<longrightarrow> (\<forall>i. is_order (ords i 0)) \<longrightarrow> snapshot_wf snap \<longrightarrow>
         (\<exists>h' c'. SetSnapshot word ords n snap (h, c) = Inr (h', c') \<and> cache_inv h' c')) \<and>
      (\<forall>now ords req. ids_left c \<longrightarrow> is_order (ords 0) \<longrightarrow>
         (\<exists>h' c' ch k. CreateWatch now ords req (h, c) = Inr ((h', c'), ch, k) \<and> cache_inv h' c')) \<and>
      (\<forall>k. cache_inv h (cancelWatch k c)) \<and>
      (\<forall>n. cache_inv h (ClearSnapshot n c)) \<and>
      (\<forall>ch r h'. recv ch h = (r, h') \<longrightarrow> cache_inv h' c))"
proof (intro conjI impI allI)
  show "cache_inv empty_heap (NewSnapshotCache b)" by (rule NewSnapshotCache_inv)
next
  fix word :: "int64 order" and ords :: "int64 \<Rightarrow> orders" and n snap
  assume "cache_inv h c" "is_order word" "\<forall>i. is_order (ords i 0)" "snapshot_wf snap"
  then show "\<exists>h' c'. SetSnapshot word ords n snap (h, c) = Inr (h', c') \<and> cache_inv h' c'"
    using SetSnapshot_inv by metis
next
  fix now and ords :: orders and req
  assume "cache_inv h c" "ids_left c" "is_order (ords 0)"
  then show "\<exists>h' c' ch k. CreateWatch now ords req (h, c) = Inr ((h', c'), ch, k) \<and> cache_inv h' c'"
    using CreateWatch_inv by metis
qed (simp_all add: cancelWatch_inv ClearSnapshot_inv recv_cache_inv)

theorem cache_inv_kept_witness:
  "(\<exists>h' c' ch k. CreateWatch 0 (\<lambda>_. id) \<lparr>req_VersionInfo = [], req_Node = None, req_ResourceNames = [],
      req_TypeUrl = ClusterType, req_ResponseNonce = []\<rparr> (empty_heap, NewSnapshotCache False) = Inr ((h', c'), ch, k) \<and>
      cache_inv h' c') \<and> cache_inv empty_heap (ClearSnapshot ''node'' (NewSnapshotCache False))"
  using cache_inv_kept [of False empty_heap "NewSnapshotCache False"] NewSnapshotCache_inv [of False] by simp

text \<open>
  C12. What an update does to the watches: after a snapshot is set for a node, the watches of
  that node with another version are closed, and each of them finds in its channel a reply with
  the new version and the resources of the snapshot that its request names, or all of them.
  The exception is the ADS mode: there a watch that names resources but not all those of the
  snapshot is closed without a reply. Every other watch stays open and its channel as it was.
\<close>
theorem SetSnapshot_answers_exactly:
  assumes "cache_inv h c" and "snapshot_wf snap" and "is_order word" and "\<And>i j. is_order (ords i j)"
    and "SetSnapshot word ords n snap (h, c) = Inr (h', c')"
  shows "map_of (snapshots c') n = Some snap \<and>
    (\<forall>m i w. open_watch c m i = Some w \<longrightarrow>
       (if m = n \<and> GetVersion (Some snap) (req_TypeUrl (w_Request w)) \<noteq> req_VersionInfo (w_Request w)
        then open_watch c' m i = None \<and>
          (if ads c \<and> req_ResourceNames (w_Request w) \<noteq> [] \<and>
             \<not> dom (map_of (GetResources (Some snap) (req_TypeUrl (w_Request w)))) \<subseteq> set (req_ResourceNames (w_Request w))
           then h_chan h' (w_Response w) = h_chan h (w_Response w)
           else \<exists>resp. h_chan h' (w_Response w) = Some (full_chan resp) \<and> rsp_Request resp = w_Request w \<and>
             rsp_Version resp = GetVersion (Some snap) (req_TypeUrl (w_Request w)) \<and>
             set (rsp_Resources resp) = {r. \<exists>x. map_of (GetResources (Some snap) (req_TypeUrl (w_Request w))) x = Some r \<and>
               (req_ResourceNames (w_Request w) = [] \<or> x \<in> set (req_ResourceNames (w_Request w)))})
        else open_watch c' m i = Some w \<and> h_chan h' (w_Response w) = h_chan h (w_Response w)))"
proof -
  have post: "set_snapshot_post ords n snap h c h' c'"
    using SetSnapshot_inv [OF assms(1-3), of ords n] assms(4,5) by auto
  have chan: "if m = n \<and> answered c snap (w_Request w)
      then h_chan h' (w_Response w) = Some (full_chan (reply (ords i) snap (w_Request w)))
      else h_chan h' (w_Response w) = h_chan h (w_Response w)" if w: "open_watch c m i = Some w" for m i w
  proof (cases "m = n \<and> answered c snap (w_Request w)")
    case False
    have "w_Response v \<noteq> w_Response w" if "open_watch c n j = Some v" "answered c snap (w_Request v)" for j v
      using cache_inv_unique [OF assms(1) that(1) w] that w False by auto
    then show ?thesis using False post unfolding set_snapshot_post_def by metis
  qed (use post w in \<open>auto simp: set_snapshot_post_def\<close>)
  have closed: "open_watch c' m i = (if m = n \<and> outdated snap (w_Request w) then None else Some w)"
    if "open_watch c m i = Some w" for m i w
    using that post by (auto simp: set_snapshot_post_def)
  note res = reply_resources [where ords = "ords _", OF assms(4,2)]
  have cur: "map_of (snapshots c') n = Some snap" using post by (simp add: set_snapshot_post_def)
  show ?thesis
  proof (intro conjI allI impI, rule cur)
    fix m i w assume w: "open_watch c m i = Some w"
    note facts = chan [OF w, unfolded answered_def names_match_def] closed [OF w]
    show "if m = n \<and> GetVersion (Some snap) (req_TypeUrl (w_Request w)) \<noteq> req_VersionInfo (w_Request w)
        then open_watch c' m i = None \<and>
          (if ads c \<and> req_ResourceNames (w_Request w) \<noteq> [] \<and>
             \<not> dom (map_of (GetResources (Some snap) (req_TypeUrl (w_Request w)))) \<subseteq> set (req_ResourceNames (w_Request w))
           then h_chan h' (w_Response w) = h_chan h (w_Response w)
           else \<exists>resp. h_chan h' (w_Response w) = Some (full_chan resp) \<and> rsp_Request resp = w_Request w \<and>
             rsp_Version resp = GetVersion (Some snap) (req_TypeUrl (w_Request w)) \<and>
             set (rsp_Resources resp) = {r. \<exists>x. map_of (GetResources (Some snap) (req_TypeUrl (w_Request w))) x = Some r \<and>
               (req_ResourceNames (w_Request w) = [] \<or> x \<in> set (req_ResourceNames (w_Request w)))})
        else open_watch c' m i = Some w \<and> h_chan h' (w_Response w) = h_chan h (w_Response w)"
    proof (cases "m = n \<and> outdated snap (w_Request w)")
      case True
      then show ?thesis
        using facts res [of i "w_Request w"] reply_fields [of "ords i" snap "w_Request w"]
        by (cases "names_match c (w_Request w) (GetResources (Some snap) (req_TypeUrl (w_Request w)))")
          (auto simp: outdated_def names_match_def)
    qed (use facts in \<open>auto simp: outdated_def\<close>)
  qed
qed

theorem SetSnapshot_answers_exactly_witness:
  "\<exists>h c ch k h' c' resp. CreateWatch 0 (\<lambda>_. id) \<lparr>req_VersionInfo = ''v0'', req_Node = None, req_ResourceNames = [],
      req_TypeUrl = ClusterType, req_ResponseNonce = []\<rparr> (empty_heap, NewSnapshotCache False) = Inr ((h, c), ch, k) \<and>
    SetSnapshot rev (\<lambda>_ _. id) ''node'' zero_snapshot (h, c) = Inr (h', c') \<and>
    open_watch c' ''node'' 1 = None \<and> h_chan h' 0 = Some (full_chan resp) \<and> rsp_Resources resp = []"
proof -
  let ?req = "\<lparr>req_VersionInfo = ''v0'', req_Node = None, req_ResourceNames = [], req_TypeUrl = ClusterType,
    req_ResponseNonce = []\<rparr> :: discovery_request"
  obtain h c ch k where c: "CreateWatch 0 (\<lambda>_. id) ?req (empty_heap, NewSnapshotCache False) = Inr ((h, c), ch, k)"
      "cache_inv h c" "open_watch c ''node'' 1 = Some \<lparr>w_Request = ?req, w_Response = 0\<rparr>" "ads c = False"
    by (rule waiting_cache [of ?req]) (simp add: nodeID_def)
  obtain h' c' where s: "SetSnapshot rev (\<lambda>_ _. id) ''node'' zero_snapshot (h, c) = Inr (h', c')"
    using SetSnapshot_inv [OF c(2) snapshot_wf_zero, of rev "\<lambda>_ _. id" "''node''"] by auto
  have v: "GetVersion (Some zero_snapshot) ClusterType = []" "GetResources (Some zero_snapshot) ClusterType = []"
    by (simp_all add: GetVersion_def GetResources_def zero_snapshot_def zero_resources_def)
  from SetSnapshot_answers_exactly [OF c(2) snapshot_wf_zero is_order_rev _ s] c(3)
  have "open_watch c' ''node'' 1 = None \<and> (\<exists>resp. h_chan h' 0 = Some (full_chan resp) \<and> rsp_Resources resp = [])"
    by (fastforce simp: v)
  with c(1) s show ?thesis by auto
qed

text \<open>
  Polling: \<open>Fetch\<close> fails when the node has no snapshot, fails when the client has the
  current version, and otherwise answers like a watch does, with the version of the snapshot
  and the resources the request names.
\<close>
theorem fetch_answers:
  assumes "cache_inv h c" and "is_order ord"
  shows "case map_of (snapshots c) (nodeID req) of
      None \<Rightarrow> Fetch ord req c = Inl (MissingSnapshot (nodeID req))
    | Some snap \<Rightarrow>
        if \<not> outdated snap req then Fetch ord req c = Inl VersionUpToDate
        else \<exists>resp. Fetch ord req c = Inr resp \<and> rsp_Request resp = req \<and>
          rsp_Version resp = GetVersion (Some snap) (req_TypeUrl req) \<and>
          set (rsp_Resources resp) = {r. \<exists>x. map_of (GetResources (Some snap) (req_TypeUrl req)) x = Some r \<and>
            (req_ResourceNames req = [] \<or> x \<in> set (req_ResourceNames req))}"
proof (cases "map_of (snapshots c) (nodeID req)")
  case None
  then show ?thesis by (simp add: Fetch_def)
next
  case (Some snap)
  then have "snapshot_wf snap" using assms(1) by (simp add: cache_inv_def cache_wf_def)
  note reply_resources [where ords = "\<lambda>_. ord", OF assms(2) this, of req]
  then show ?thesis
    using Some reply_fields [of "\<lambda>_. ord" snap req]
    by (auto simp: Fetch_def Let_def outdated_def reply_def)
qed

theorem fetch_answers_witness:
  "Fetch rev \<lparr>req_VersionInfo = ''v0'', req_Node = None, req_ResourceNames = [], req_TypeUrl = ClusterType,
     req_ResponseNonce = []\<rparr> (NewSnapshotCache True) = Inl (MissingSnapshot ''node'')"
  using fetch_answers [OF NewSnapshotCache_inv [of True] is_order_rev, of "\<lparr>req_VersionInfo = ''v0'', req_Node = None,
     req_ResourceNames = [], req_TypeUrl = ClusterType, req_ResponseNonce = []\<rparr>"]
  by (simp add: NewSnapshotCache_def nodeID_def)

text \<open>
  Status: the keys that the cache reports are the nodes with a status, each once, the
  number of watches reported for a node is the number of watches that are open for it, and
  clearing a node removes its status and no other.
\<close>
theorem status_reports:
  assumes "cache_inv h c" and "is_order ord"
  shows "set (GetStatusKeys ord c) = {n. GetStatusInfo n c \<noteq> None} \<and> distinct (GetStatusKeys ord c) \<and>
    (\<forall>n info. GetStatusInfo n c = Some info \<longrightarrow>
       GetNumWatches info = card {i. open_watch c n i \<noteq> None}) \<and>
    (\<forall>n m. GetStatusInfo m (ClearSnapshot n c) = (if m = n then None else GetStatusInfo m c))"
proof (intro conjI allI impI)
  have wf: "map_wf (status c)" using assms(1) by (simp add: cache_inv_defs)
  show "set (GetStatusKeys ord c) = {n. GetStatusInfo n c \<noteq> None}"
    using wf assms(2) by (auto simp: GetStatusKeys_def GetStatusInfo_def map_of_eq_None_iff)
  show "distinct (GetStatusKeys ord c)"
    using map_wf_mrange [OF assms(2) wf] by (simp add: GetStatusKeys_def map_wf_def)
  fix n info assume i: "GetStatusInfo n c = Some info"
  then have "map_wf (si_watches info)" using assms(1) by (simp add: cache_inv_defs GetStatusInfo_def)
  moreover have "{j. open_watch c n j \<noteq> None} = dom (map_of (si_watches info))"
    using i by (auto simp: GetStatusInfo_def open_watch_status)
  ultimately show "GetNumWatches info = card {j. open_watch c n j \<noteq> None}"
    by (simp add: GetNumWatches_def map_wf_length)
next
  fix n m
  show "GetStatusInfo m (ClearSnapshot n c) = (if m = n then None else GetStatusInfo m c)"
    by (simp add: GetStatusInfo_def ClearSnapshot_def)
qed

theorem status_reports_witness:
  "set (GetStatusKeys rev (NewSnapshotCache True)) = {n. GetStatusInfo n (NewSnapshotCache True) \<noteq> None} \<and>
   (\<forall>n m. GetStatusInfo m (ClearSnapshot n (NewSnapshotCache True)) =
      (if m = n then None else GetStatusInfo m (NewSnapshotCache True)))"
  using status_reports [OF NewSnapshotCache_inv [of True] is_order_rev] by blast

end
