(* ===== verification/Calls.thy ===== *)
theory Calls
  imports Envoy
begin

text \<open>
  Functions that call services outside the program. The outside world is a state of type
  \<open>'w\<close> that the calls read and change; a function over it

  \<^item> may not return at all (\<open>None\<close>), when a loop waits for an answer that never comes,
  \<^item> may stop with a run-time panic (\<open>Some (Inl s)\<close>),
  \<^item> returns an error (\<open>Some (Inr (w, Inl err))\<close>) or a value (\<open>Some (Inr (w, Inr x))\<close>)
    together with the world after its calls.

  \<open>call_bind\<close> is the idiom \<open>if err != nil { return nil, err }\<close>.
\<close>

type_synonym ('w, 'a) calls = "'w \<Rightarrow> ('w \<times> (go_error + 'a)) go option"

named_theorems call_simps \<open>rewrite rules for functions with outside calls\<close>

definition call_ret :: "'a \<Rightarrow> ('w, 'a) calls" where
  "call_ret x w = Some (Inr (w, Inr x))"

definition call_err :: "go_error \<Rightarrow> ('w, 'a) calls" where
  "call_err err w = Some (Inr (w, Inl err))"

definition call_go :: "'a go \<Rightarrow> ('w, 'a) calls" where
  "call_go m w = (case m of Inl s \<Rightarrow> Some (Inl s) | Inr x \<Rightarrow> Some (Inr (w, Inr x)))"

definition call_ext :: "('w \<Rightarrow> 'w \<times> (go_error + 'a)) \<Rightarrow> ('w, 'a) calls" where
  "call_ext f w = Some (Inr (f w))"

definition call_bind :: "('w, 'a) calls \<Rightarrow> ('a \<Rightarrow> ('w, 'b) calls) \<Rightarrow> ('w, 'b) calls" where
  "call_bind m f w =
     (case m w of
        None \<Rightarrow> None
      | Some (Inl s) \<Rightarrow> Some (Inl s)
      | Some (Inr (w', Inl err)) \<Rightarrow> Some (Inr (w', Inl err))
      | Some (Inr (w', Inr x)) \<Rightarrow> f x w')"

text \<open>\<open>fmt.Errorf("msg: %s", err.Error())\<close> around a failing call.\<close>

definition call_wrap :: "string \<Rightarrow> ('w, 'a) calls \<Rightarrow> ('w, 'a) calls" where
  "call_wrap msg m w =
     (case m w of
        Some (Inr (w', Inl err)) \<Rightarrow> Some (Inr (w', Inl (Wrapped msg err)))
      | r \<Rightarrow> r)"

fun call_fold :: "('a \<Rightarrow> 's \<Rightarrow> ('w, 's) calls) \<Rightarrow> 'a list \<Rightarrow> 's \<Rightarrow> ('w, 's) calls" where
  "call_fold f [] s = call_ret s"
| "call_fold f (x # xs) s = call_bind (f x s) (call_fold f xs)"

text \<open>Dereferencing a pointer.\<close>

fun deref :: "'a option \<Rightarrow> 'a go" where
  "deref None = Inl NilDereference"
| "deref (Some x) = Inr x"

lemma deref_eq_Inr [simp, go_simps]: "deref p = Inr x \<longleftrightarrow> p = Some x"
  by (cases p) auto

lemma deref_eq_Inl [simp, go_simps]: "deref p = Inl s \<longleftrightarrow> p = None \<and> s = NilDereference"
  by (cases p) auto

subsection \<open>When a function returns a value\<close>

lemma call_ret_iff [simp, call_simps]: "call_ret x w = Some (Inr (w', Inr y)) \<longleftrightarrow> w' = w \<and> y = x"
  by (auto simp: call_ret_def)

lemma call_err_iff [simp, call_simps]: "call_err e w = Some (Inr (w', Inr y)) \<longleftrightarrow> False"
  by (simp add: call_err_def)

lemma call_go_iff [simp, call_simps]: "call_go m w = Some (Inr (w', Inr y)) \<longleftrightarrow> w' = w \<and> m = Inr y"
  by (auto simp: call_go_def split: sum.split)

lemma call_ext_iff [simp, call_simps]: "call_ext f w = Some (Inr (w', Inr y)) \<longleftrightarrow> f w = (w', Inr y)"
  by (simp add: call_ext_def)

lemma call_wrap_iff [simp, call_simps]:
  "call_wrap msg m w = Some (Inr (w', Inr y)) \<longleftrightarrow> m w = Some (Inr (w', Inr y))"
  by (auto simp: call_wrap_def split: option.split sum.split prod.split)

lemma call_bind_iff [call_simps]:
  "call_bind m f w = Some (Inr (w', Inr y)) \<longleftrightarrow>
     (\<exists>v x. m w = Some (Inr (v, Inr x)) \<and> f x v = Some (Inr (w', Inr y)))"
  by (auto simp: call_bind_def split: option.split sum.split prod.split)

text \<open>One step of evaluation.\<close>

lemma call_bind_ret [simp]: "call_bind (call_ret x) f = f x"
  by (simp add: call_bind_def call_ret_def fun_eq_iff)

lemma call_bind_err [simp]: "call_bind (call_err e) f = call_err e"
  by (simp add: call_bind_def call_err_def fun_eq_iff)

lemma call_bind_go:
  "call_bind (call_go m) f w = (case m of Inl s \<Rightarrow> Some (Inl s) | Inr x \<Rightarrow> f x w)"
  by (simp add: call_bind_def call_go_def split: sum.split)

lemma call_bind_Some:
  "m w = Some (Inr (v, Inr x)) \<Longrightarrow> call_bind m f w = f x v"
  "m w = Some (Inr (v, Inl e)) \<Longrightarrow> call_bind m f w = Some (Inr (v, Inl e))"
  "m w = Some (Inl s) \<Longrightarrow> call_bind m f w = Some (Inl s)"
  "m w = None \<Longrightarrow> call_bind m f w = None"
  by (simp_all add: call_bind_def)

lemma call_bind_assoc: "call_bind (call_bind m f) g = call_bind m (\<lambda>x. call_bind (f x) g)"
  by (auto simp: call_bind_def fun_eq_iff split: option.split sum.split prod.split)

lemma call_bind_ret_right [simp]: "call_bind m call_ret = m"
  by (auto simp: call_bind_def call_ret_def fun_eq_iff split: option.split sum.split prod.split)

lemma call_fold_append:
  "call_fold f (xs @ ys) s = call_bind (call_fold f xs s) (call_fold f ys)"
  by (induction xs arbitrary: s) (auto simp: call_bind_assoc intro!: arg_cong2 [where f = call_bind])

lemma call_fold_invariant:
  assumes "call_fold f xs s w = Some (Inr (w', Inr t))" and "P s"
    and "\<And>x s t w w'. x \<in> set xs \<Longrightarrow> P s \<Longrightarrow> f x s w = Some (Inr (w', Inr t)) \<Longrightarrow> P t"
  shows "P t"
  using assms
proof (induction xs arbitrary: s w)
  case Nil
  then show ?case by simp
next
  case (Cons x xs)
  then obtain v u where "f x s w = Some (Inr (v, Inr u))" and "call_fold f xs u v = Some (Inr (w', Inr t))"
    by (auto simp: call_bind_iff)
  moreover from this(1) have "P u" using Cons.prems(2,3) by (meson list.set_intros(1))
  ultimately show ?case using Cons.IH Cons.prems(3) by (meson list.set_intros(2))
qed

text \<open>A function that always comes back, if only with an error or a panic.\<close>

definition ends :: "('w, 'a) calls \<Rightarrow> bool" where
  "ends m \<longleftrightarrow> (\<forall>w. m w \<noteq> None)"

lemma ends_basic [simp]: "ends (call_ret x)" "ends (call_err e)" "ends (call_go m)" "ends (call_ext f)"
  by (simp_all add: ends_def call_ret_def call_err_def call_go_def call_ext_def split: sum.split)

lemma ends_wrap: "ends m \<Longrightarrow> ends (call_wrap msg m)"
  by (auto simp: ends_def call_wrap_def split: option.split sum.split prod.split)

lemma ends_bind: "ends m \<Longrightarrow> (\<And>x. ends (f x)) \<Longrightarrow> ends (call_bind m f)"
  by (auto simp: ends_def call_bind_def split: option.split sum.split prod.split)

lemma ends_fold: "(\<And>x s. ends (f x s)) \<Longrightarrow> ends (call_fold f xs s)"
  by (induction xs arbitrary: s) (simp_all add: ends_bind)

end
