(* ===== verification/FileProvider.thy ===== *)
theory FileProvider
  imports Annotations Calls
begin

text \<open>
  \<open>pkg/provider/file/file.go\<close>: the service provider that reads a YAML file at every turn. The
  file system and the YAML package are parameters: \<open>ReadFile\<close> is a call to the outside world,
  \<open>Unmarshal\<close> gives the error and the structure it has filled so far. \<open>yaml_maps\<close> is what the
  program relies on: the maps that the package fills are Go maps.
\<close>

record schema =
  Nodes :: provider_clusters

record 'w file_system =
  ReadFile :: "string \<Rightarrow> 'w \<Rightarrow> 'w \<times> (go_error + bytes)"
  Unmarshal :: "bytes \<Rightarrow> go_error option \<times> schema"

record file_provider =
  fp_path :: string

definition file_NewProvider :: "string \<Rightarrow> go_error + file_provider" where
  "file_NewProvider path = Inr \<lparr>fp_path = path\<rparr>"

text \<open>An error of the YAML package is returned beside the structure; the only caller drops it then.\<close>

definition readConfig :: "'w file_system \<Rightarrow> string \<Rightarrow> ('w, schema) calls" where
  "readConfig fs path =
     call_bind (call_ext (ReadFile fs path)) (\<lambda>content.
       case Unmarshal fs content of
         (Some err, cfg) \<Rightarrow> call_err err
       | (None, cfg) \<Rightarrow> call_ret cfg)"

definition file_GetClusters :: "'w file_system \<Rightarrow> file_provider \<Rightarrow> ('w, provider_clusters) calls" where
  "file_GetClusters fs p = call_bind (readConfig fs (fp_path p)) (\<lambda>cfg. call_ret (Nodes cfg))"

definition yaml_maps :: "'w file_system \<Rightarrow> bool" where
  "yaml_maps fs \<longleftrightarrow> (\<forall>content cfg. Unmarshal fs content = (None, cfg) \<longrightarrow> provider_wf (Nodes cfg))"

lemma file_GetClusters_iff:
  "file_GetClusters fs p w = Some (Inr (w', r)) \<longleftrightarrow>
     (case ReadFile fs (fp_path p) w of
        (v, Inl err) \<Rightarrow> w' = v \<and> r = Inl err
      | (v, Inr content) \<Rightarrow> w' = v \<and>
          (case Unmarshal fs content of (Some err, cfg) \<Rightarrow> r = Inl err | (None, cfg) \<Rightarrow> r = Inr (Nodes cfg)))"
  by (auto simp: file_GetClusters_def readConfig_def call_bind_def call_ext_def call_err_def call_ret_def
      split: prod.split sum.split option.split)

lemma file_GetClusters_value:
  "file_GetClusters fs p w = Some (Inr (w', Inr pc)) \<longleftrightarrow>
     (\<exists>content cfg. ReadFile fs (fp_path p) w = (w', Inr content) \<and> Unmarshal fs content = (None, cfg) \<and> pc = Nodes cfg)"
proof -
  have "(case Unmarshal fs content of (Some err, cfg) \<Rightarrow> call_err err | (None, cfg) \<Rightarrow> call_ret cfg) v = Some (Inr (w', Inr cfg))
      \<longleftrightarrow> v = w' \<and> Unmarshal fs content = (None, cfg)" for content v cfg
    by (auto split: prod.split option.split)
  then show ?thesis by (auto simp: file_GetClusters_def readConfig_def call_bind_iff)
qed

lemma file_GetClusters_ends: "ends (file_GetClusters fs p)"
  unfolding file_GetClusters_def readConfig_def
  by (intro ends_bind) (auto split: prod.split option.split)

end
