(* ===== verification/Fargate.thy ===== *)
theory Fargate
  imports Annotations Calls
begin

text \<open>
  \<open>pkg/provider/fargate\<close>: the service provider that asks the ECS API for the running tasks of
  every cluster and reads their services from the docker labels of the task definitions.

  The ECS client of the AWS SDK is code outside the repository: it is the parameter
  \<open>ecs_client\<close>, one function per request the program makes, over the state of the account.
  Its output structures have the fields that the program reads; a field that is a pointer to a
  string is an option, and reading it is \<open>deref\<close>, which panics on nil. The elements of the
  lists are structures that the SDK allocates, so they are never nil.

  The loops over maps are numbered: \<open>ords p\<close> is the order of the loop at the path \<open>p\<close>,
  the numbers of the enclosing loops and the positions in them, followed by its own number.
\<close>

subsection \<open>The ECS client\<close>

record list_output =
  lo_Arns :: "string list"
  NextToken :: "string option"

record ecs_failure =
  f_Arn :: "string option"
  f_Reason :: "string option"

record ecs_cluster =
  ClusterArn :: "string option"
  ClusterName :: "string option"

record network_interface =
  PrivateIpv4Address :: "string option"

record ecs_container =
  co_Name :: "string option"
  NetworkInterfaces :: "network_interface list"

record ecs_task =
  TaskArn :: "string option"
  TaskDefinitionArn :: "string option"
  Containers :: "ecs_container list"

type_synonym labels = "(string, string option) gomap"

record container_definition =
  DockerLabels :: labels

record task_definition =
  ContainerDefinitions :: "container_definition list"

record 'a describe_output =
  do_Items :: "'a list"
  do_Failures :: "ecs_failure list"

record 'w ecs_client =
  ListClusters :: "string option \<Rightarrow> 'w \<Rightarrow> 'w \<times> (go_error + list_output)"
  DescribeClusters :: "string list \<Rightarrow> 'w \<Rightarrow> 'w \<times> (go_error + ecs_cluster describe_output)"
  ListTasks :: "string \<Rightarrow> string option \<Rightarrow> 'w \<Rightarrow> 'w \<times> (go_error + list_output)"
  DescribeTasks :: "string option \<Rightarrow> string list \<Rightarrow> 'w \<Rightarrow> 'w \<times> (go_error + ecs_task describe_output)"
  DescribeTaskDefinition :: "string \<Rightarrow> 'w \<Rightarrow> 'w \<times> (go_error + task_definition option)"

type_synonym paths = "nat list \<Rightarrow> string order"

abbreviation within :: "nat \<Rightarrow> paths \<Rightarrow> paths" where
  "within i ords \<equiv> \<lambda>p. ords (i # p)"

subsection \<open>util.go\<close>

text \<open>The loop of \<open>sliceWalk\<close>; \<open>fn\<close> also passes on the variable that the closure assigns to.\<close>

function walk :: "nat \<Rightarrow> string list \<Rightarrow> (string list \<Rightarrow> 'm \<Rightarrow> ('w, 'm) calls) \<Rightarrow> nat \<Rightarrow> 'm \<Rightarrow> ('w, 'm) calls" where
  "walk windowSz input fn i m =
     (if 0 < windowSz \<and> i < length input
      then call_bind (fn (take (min windowSz (length input - i)) (drop i input)) m)
             (\<lambda>m'. walk windowSz input fn (i + windowSz) m')
      else call_ret m)"
  by pat_completeness auto
termination
  by (relation "measure (\<lambda>(windowSz, input, fn, i, m). length input - i)") auto

declare walk.simps [simp del]

definition sliceWalk :: "int \<Rightarrow> string list \<Rightarrow> (string list \<Rightarrow> 'm \<Rightarrow> ('w, 'm) calls) \<Rightarrow> 'm \<Rightarrow> ('w, 'm) calls" where
  "sliceWalk windowSz input fn m =
     (if windowSz < 1 then call_err BadWindowSize else walk (nat windowSz) input fn 0 m)"

definition keys :: "string order \<Rightarrow> (string, ecs_task list) gomap \<Rightarrow> string list" where
  "keys ord m = map fst (mrange ord m)"

subsection \<open>clusters.go and tasks.go\<close>

text \<open>
  The loop that follows \<open>NextToken\<close>: \<open>listClusterArns\<close> and \<open>listTaskArns\<close> have the same one.
  Nothing bounds the number of pages, so it need not end.
\<close>

partial_function (option) pages ::
    "(string option \<Rightarrow> 'w \<Rightarrow> 'w \<times> (go_error + list_output)) \<Rightarrow> string option \<Rightarrow> string list
     \<Rightarrow> 'w \<Rightarrow> ('w \<times> (go_error + string list)) go option" where
  "pages list_call token arns w =
     (case list_call token w of
        (w', r) \<Rightarrow>
          (case r of
             Inl err \<Rightarrow> Some (Inr (w', Inl err))
           | Inr out \<Rightarrow>
               if NextToken out = None then Some (Inr (w', Inr (arns @ lo_Arns out)))
               else pages list_call (NextToken out) (arns @ lo_Arns out) w'))"

definition listClusterArns :: "'w ecs_client \<Rightarrow> ('w, string list) calls" where
  "listClusterArns client =
     call_wrap ''could not retrieve ECS clusters'' (pages (ListClusters client) None [])"

definition listTaskArns :: "'w ecs_client \<Rightarrow> string \<Rightarrow> ('w, string list) calls" where
  "listTaskArns client cluster = pages (ListTasks client cluster) None []"

text \<open>The failures of a description are only logged, but the log call dereferences them.\<close>

definition log_failures :: "ecs_failure list \<Rightarrow> unit go" where
  "log_failures fs =
     go_fold (\<lambda>f _. go_bind (deref (f_Arn f)) (\<lambda>_. go_bind (deref (f_Reason f)) (\<lambda>_. Inr ()))) fs ()"

definition describeClustersWindowSize :: int where "describeClustersWindowSize = 100"
definition describeTasksWindowSize :: int where "describeTasksWindowSize = 100"

definition put_cluster :: "ecs_cluster \<Rightarrow> (string, ecs_cluster) gomap \<Rightarrow> (string, ecs_cluster) gomap go" where
  "put_cluster s result = go_bind (deref (ClusterArn s)) (\<lambda>arn. Inr (mput arn s result))"

definition listClusters :: "'w ecs_client \<Rightarrow> ('w, (string, ecs_cluster) gomap) calls" where
  "listClusters client =
     call_bind (listClusterArns client) (\<lambda>clusters.
       sliceWalk describeClustersWindowSize clusters (\<lambda>ids result.
         call_bind (call_wrap ''failed to describe clusters'' (call_ext (DescribeClusters client ids))) (\<lambda>out.
           call_bind (call_go (log_failures (do_Failures out))) (\<lambda>_.
             call_go (go_fold put_cluster (do_Items out) result)))) [])"

text \<open>The test for nil before the append has no effect: appending to nil makes the slice.\<close>

definition put_task :: "ecs_task \<Rightarrow> (string, ecs_task list) gomap \<Rightarrow> (string, ecs_task list) gomap go" where
  "put_task t tasks =
     go_bind (deref (TaskDefinitionArn t)) (\<lambda>arn. Inr (mappend arn t tasks))"

definition listTasks :: "'w ecs_client \<Rightarrow> string \<Rightarrow> ('w, (string, ecs_task list) gomap) calls" where
  "listTasks client cluster =
     call_bind (listTaskArns client cluster) (\<lambda>taskArns.
       sliceWalk describeTasksWindowSize taskArns (\<lambda>ids tasks.
         call_bind (call_wrap ''failed to load task instance data''
             (call_ext (DescribeTasks client (if cluster \<noteq> [] then Some cluster else None) ids))) (\<lambda>out.
           call_bind (call_go (log_failures (do_Failures out))) (\<lambda>_.
             call_go (go_fold put_task (do_Items out) tasks)))) [])"

text \<open>A definition that cannot be loaded is logged and left out.\<close>

definition load_definition ::
    "'w ecs_client \<Rightarrow> string \<Rightarrow> (string, task_definition option) gomap
     \<Rightarrow> ('w, (string, task_definition option) gomap) calls" where
  "load_definition client arn taskDefs w =
     (case DescribeTaskDefinition client arn w of
        (w', Inl err) \<Rightarrow> call_ret taskDefs w'
      | (w', Inr out) \<Rightarrow> call_ret (mput arn out taskDefs) w')"

definition getTaskDefinitions ::
    "'w ecs_client \<Rightarrow> string list \<Rightarrow> ('w, (string, task_definition option) gomap) calls" where
  "getTaskDefinitions client arns = call_fold (load_definition client) arns []"

subsection \<open>fargate.go\<close>

definition TaskArnToNodeID :: "string \<Rightarrow> go_error + string" where
  "TaskArnToNodeID arn =
     (let parts = Split arn ''task/''
      in if length parts < 2 then Inl (InvalidTaskArn arn) else Inr (parts ! 1))"

record taskTarget =
  tt_ClusterName :: string
  tt_Annotations :: annotations
  tt_Port :: uint32

definition strip_label :: "string \<Rightarrow> string \<times> string option \<Rightarrow> annotations \<Rightarrow> annotations go" where
  "strip_label prefix = (\<lambda>(key, val) annotations.
     let annotation = TrimPrefix key prefix
     in if annotation = key then Inr annotations
        else go_bind (deref val) (\<lambda>v. Inr (mput annotation v annotations)))"

definition stripKeyPrefix :: "string order \<Rightarrow> string \<Rightarrow> labels \<Rightarrow> annotations go" where
  "stripKeyPrefix ord prefix labels = go_fold (strip_label prefix) (mrange ord labels) []"

definition servicePrefix :: string where "servicePrefix = ''envoy.service.''"

text \<open>The body of the loop over the labels of a container; the label is the number \<open>j\<close> of its loop.\<close>

definition add_target ::
    "paths \<Rightarrow> labels \<Rightarrow> nat \<times> string \<times> string option \<Rightarrow> (string, taskTarget list) gomap
     \<Rightarrow> (string, taskTarget list) gomap go" where
  "add_target ords labels = (\<lambda>(j, label, value) targets.
     let clusterName = TrimPrefix label servicePrefix
     in if label = clusterName then Inr targets
        else go_bind (deref value) (\<lambda>v.
          let list = Split v '':''
          in if length list < 2 then Inr targets
             else case Atoi (list ! 1) of
               None \<Rightarrow> Inr targets
             | Some port \<Rightarrow>
                 go_bind (stripKeyPrefix (ords [j]) (label @ ''.annotations.'') labels) (\<lambda>ann.
                   Inr (mappend (list ! 0)
                     \<lparr>tt_ClusterName = clusterName, tt_Annotations = ann, tt_Port = of_int port\<rparr> targets))))"

text \<open>\<open>findTaskTargets\<close> never returns an error; \<open>task\<close> is nil for an unknown definition.\<close>

definition findTaskTargets :: "paths \<Rightarrow> task_definition option \<Rightarrow> (go_error + (string, taskTarget list) gomap) go" where
  "findTaskTargets ords task =
     go_bind (deref task) (\<lambda>td.
       go_bind (go_fold (\<lambda>(i, container).
           go_fold (add_target (within i ords) (DockerLabels container))
             (List.enumerate 0 (mrange (ords [i]) (DockerLabels container))))
         (List.enumerate 0 (ContainerDefinitions td)) []) (\<lambda>targets. Inr (Inr targets)))"

definition add_nic :: "taskTarget \<Rightarrow> network_interface \<Rightarrow> (string, endpoint list) gomap \<Rightarrow> (string, endpoint list) gomap go" where
  "add_nic target nic services =
     go_bind (deref (PrivateIpv4Address nic)) (\<lambda>ip.
       Inr (mappend (tt_ClusterName target)
         \<lparr>ep_Address = ip, ep_Annotations = tt_Annotations target, ep_Port = tt_Port target\<rparr> services))"

definition add_container ::
    "(string, taskTarget list) gomap \<Rightarrow> ecs_container \<Rightarrow> (string, endpoint list) gomap \<Rightarrow> (string, endpoint list) gomap go" where
  "add_container taskTargets container services =
     go_bind (deref (co_Name container)) (\<lambda>name.
       case map_of taskTargets name of
         None \<Rightarrow> Inr services
       | Some targets \<Rightarrow>
           go_fold (\<lambda>target. go_fold (add_nic target) (NetworkInterfaces container)) targets services)"

definition findEndpoints ::
    "paths \<Rightarrow> ecs_task \<Rightarrow> task_definition option \<Rightarrow> (go_error + (string, endpoint list) gomap) go" where
  "findEndpoints ords task taskdef =
     go_bind (findTaskTargets ords taskdef) (\<lambda>r.
       case r of
         Inl err \<Rightarrow> go_bind (deref (TaskDefinitionArn task)) (\<lambda>arn. Inr (Inl (Wrapped arn err)))
       | Inr taskTargets \<Rightarrow>
           go_bind (go_fold (add_container taskTargets) (Containers task) []) (\<lambda>services. Inr (Inr services)))"

text \<open>The body of the loop over the tasks; loop 0 is the one over the services of the task.\<close>

definition add_task ::
    "paths \<Rightarrow> (string, task_definition option) gomap \<Rightarrow> ecs_task \<Rightarrow> provider_clusters \<Rightarrow> provider_clusters go" where
  "add_task ords serviceTaskDefs task localClusters =
     go_bind (deref (TaskDefinitionArn task)) (\<lambda>arn.
       let taskdef = (case map_of serviceTaskDefs arn of None \<Rightarrow> None | Some td \<Rightarrow> td)
       in go_bind (findEndpoints (within 1 ords) task taskdef) (\<lambda>r.
         go_bind (deref (TaskArn task)) (\<lambda>taskArn.
           case r of
             Inl err \<Rightarrow> Inr localClusters
           | Inr taskEndpoints \<Rightarrow>
               (case TaskArnToNodeID taskArn of
                  Inl err \<Rightarrow> Inr localClusters
                | Inr nodeID \<Rightarrow>
                    Inr (fold (\<lambda>(name, endpoints) lc.
                        mappend nodeID \<lparr>clu_Name = name, clu_Endpoints = endpoints\<rparr> lc)
                      (mrange (ords [0]) taskEndpoints) (mput nodeID [] localClusters))))))"

text \<open>The body of the loop over the clusters; the log call dereferences the name of the cluster.\<close>

definition add_cluster_tasks ::
    "'w ecs_client \<Rightarrow> paths \<Rightarrow> ecs_cluster \<Rightarrow> provider_clusters \<Rightarrow> ('w, provider_clusters) calls" where
  "add_cluster_tasks client ords cluster localClusters =
     call_bind (call_go (deref (ClusterArn cluster))) (\<lambda>arn.
       call_bind (listTasks client arn) (\<lambda>serviceTasks.
         call_bind (getTaskDefinitions client (keys (ords [0]) serviceTasks)) (\<lambda>serviceTaskDefs.
           call_bind (call_go (deref (ClusterName cluster))) (\<lambda>_.
             call_go (go_fold (\<lambda>(i, _, tasks).
                 go_fold (\<lambda>(j, task). add_task (within j (within i (within 2 ords))) serviceTaskDefs task)
                   (List.enumerate 0 tasks))
               (List.enumerate 0 (mrange (ords [1]) serviceTasks)) localClusters)))))"

definition GetClusters :: "'w ecs_client \<Rightarrow> paths \<Rightarrow> ('w, provider_clusters) calls" where
  "GetClusters client ords =
     call_bind (listClusters client) (\<lambda>clusters.
       call_fold (\<lambda>(i, _, cluster). add_cluster_tasks client (within i (within 1 ords)) cluster)
         (List.enumerate 0 (mrange (ords [0]) clusters)) [])"

subsection \<open>Windows\<close>

text \<open>The reference for \<open>sliceWalk\<close>: cut off \<open>n\<close> elements at a time.\<close>

function windows :: "nat \<Rightarrow> 'a list \<Rightarrow> 'a list list" where
  "windows n xs = (if n = 0 \<or> xs = [] then [] else take n xs # windows n (drop n xs))"
  by pat_completeness auto
termination
  by (relation "measure (\<lambda>(n, xs). length xs)") auto

declare windows.simps [simp del]

lemma concat_windows: "0 < n \<Longrightarrow> concat (windows n xs) = xs"
proof (induction n xs rule: windows.induct)
  case (1 n xs)
  then show ?case by (cases "xs = []") (simp_all add: windows.simps [of n xs] windows.simps [of n "[]"])
qed

lemma length_windows: "win \<in> set (windows n xs) \<Longrightarrow> 1 \<le> length win \<and> length win \<le> n"
proof (induction n xs rule: windows.induct)
  case (1 n xs)
  then show ?case by (auto simp: windows.simps [of n xs] Suc_le_eq split: if_splits)
qed

lemma walk_windows:
  "0 < n \<Longrightarrow> walk n input fn i m = call_fold fn (windows n (drop i input)) m"
proof (induction n input fn i m rule: walk.induct)
  case (1 n input fn i m)
  show ?case
  proof (cases "i < length input")
    case True
    then have "take (min n (length input - i)) (drop i input) = take n (drop i input)"
      by (metis length_drop min.commute take_all_iff take_take linorder_le_cases min_def)
    moreover have "windows n (drop i input) = take n (drop i input) # windows n (drop (i + n) input)"
      using True 1(2) by (simp add: windows.simps [of n "drop i input"] add.commute)
    moreover have "walk n input fn (i + n) = call_fold fn (windows n (drop (i + n) input))"
      by (rule ext) (use True 1 in simp)
    ultimately show ?thesis
      using True 1(2) by (simp add: walk.simps [of n input fn i m])
  next
    case False
    then show ?thesis by (simp add: walk.simps [of n input fn i m] windows.simps)
  qed
qed

lemma sliceWalk_eq:
  "sliceWalk windowSz input fn m =
     (if windowSz < 1 then call_err BadWindowSize else call_fold fn (windows (nat windowSz) input) m)"
  by (simp add: sliceWalk_def walk_windows)

subsection \<open>Pages\<close>

text \<open>The token and the account after \<open>n\<close> answers that have a next token; \<open>None\<close> when there are fewer.\<close>

fun follow ::
    "(string option \<Rightarrow> 'w \<Rightarrow> 'w \<times> (go_error + list_output)) \<Rightarrow> nat \<Rightarrow> string option \<Rightarrow> 'w \<Rightarrow> (string option \<times> 'w) option" where
  "follow list_call 0 token w = Some (token, w)"
| "follow list_call (Suc n) token w =
     (case list_call token w of
        (w', Inl err) \<Rightarrow> None
      | (w', Inr out) \<Rightarrow> if NextToken out = None then None else follow list_call n (NextToken out) w')"

text \<open>The pages of a complete listing.\<close>

inductive lists ::
    "(string option \<Rightarrow> 'w \<Rightarrow> 'w \<times> (go_error + list_output)) \<Rightarrow> string option \<Rightarrow> 'w \<Rightarrow> string list list \<Rightarrow> 'w \<Rightarrow> bool"
  for list_call where
  last_page: "list_call token w = (w', Inr out) \<Longrightarrow> NextToken out = None \<Longrightarrow>
    lists list_call token w [lo_Arns out] w'"
| more_pages: "list_call token w = (w', Inr out) \<Longrightarrow> NextToken out = Some t \<Longrightarrow>
    lists list_call (Some t) w' ps w'' \<Longrightarrow> lists list_call token w (lo_Arns out # ps) w''"

inductive_simps lists_Cons: "lists list_call token w (p # ps) w'"

lemma pages_Inr:
  "list_call token w = (w', Inr out) \<Longrightarrow>
     pages list_call token arns w =
       (if NextToken out = None then Some (Inr (w', Inr (arns @ lo_Arns out)))
        else pages list_call (NextToken out) (arns @ lo_Arns out) w')"
  by (simp add: pages.simps [of list_call token])

lemma pages_Inl: "list_call token w = (w', Inl err) \<Longrightarrow> pages list_call token arns w = Some (Inr (w', Inl err))"
  by (simp add: pages.simps [of list_call token])

lemma follow_pages: "follow list_call n token w = None \<Longrightarrow> pages list_call token arns w \<noteq> None"
proof (induction n arbitrary: token w arns)
  case (Suc n)
  obtain w' r where "list_call token w = (w', r)" by fastforce
  with Suc show ?case by (cases r) (auto simp: pages_Inl pages_Inr split: if_splits)
qed simp

lemma pages_follow:
  assumes "pages list_call token arns w = Some r"
  shows "\<exists>n. follow list_call n token w = None"
proof (rule pages.raw_induct [where P = "\<lambda>list_call token arns w r. \<exists>n. follow list_call n token w = None", OF _ assms])
  fix f and list_call :: "string option \<Rightarrow> 'a \<Rightarrow> 'a \<times> (go_error + list_output)" and token arns w r
  assume IH: "\<And>list_call token arns w r. f list_call token arns w = Some r \<Longrightarrow> \<exists>n. follow list_call n token w = None"
    and eq: "(case list_call token w of (w', r) \<Rightarrow>
        (case r of Inl err \<Rightarrow> Some (Inr (w', Inl err))
         | Inr out \<Rightarrow> if NextToken out = None then Some (Inr (w', Inr (arns @ lo_Arns out)))
             else f list_call (NextToken out) (arns @ lo_Arns out) w')) = Some r"
  show "\<exists>n. follow list_call n token w = None"
  proof (cases "\<exists>w' out. list_call token w = (w', Inr out) \<and> NextToken out \<noteq> None")
    case True
    then obtain w' out where c: "list_call token w = (w', Inr out)" "NextToken out \<noteq> None" by blast
    then obtain n where "follow list_call n (NextToken out) w' = None" using IH eq by fastforce
    with c show ?thesis by (intro exI [of _ "Suc n"]) simp
  next
    case False
    then have "follow list_call (Suc 0) token w = None"
      by (cases "list_call token w"; cases "snd (list_call token w)") auto
    then show ?thesis ..
  qed
qed

lemma pages_end_iff: "pages list_call token arns w \<noteq> None \<longleftrightarrow> (\<exists>n. follow list_call n token w = None)"
  using follow_pages pages_follow by (metis not_Some_eq)

lemma lists_pages:
  "lists list_call token w ps w' \<Longrightarrow> pages list_call token arns w = Some (Inr (w', Inr (arns @ concat ps)))"
  by (induction arbitrary: arns rule: lists.induct) (simp_all add: pages_Inr)

lemma pages_lists:
  "follow list_call n token w = None \<Longrightarrow> pages list_call token arns w = Some (Inr (w', Inr xs)) \<Longrightarrow>
     \<exists>ps. lists list_call token w ps w' \<and> xs = arns @ concat ps"
proof (induction n arbitrary: token w arns)
  case (Suc n)
  obtain v r where c: "list_call token w = (v, r)" by fastforce
  show ?case
  proof (cases r)
    case (Inl err)
    with Suc c show ?thesis by (simp add: pages_Inl)
  next
    case (Inr out)
    show ?thesis
    proof (cases "NextToken out")
      case None
      with Suc c Inr show ?thesis
        by (intro exI [of _ "[lo_Arns out]"]) (auto simp: pages_Inr intro: last_page)
    next
      case (Some t)
      with Suc.prems c Inr obtain ps where "lists list_call (Some t) v ps w'" "xs = (arns @ lo_Arns out) @ concat ps"
        using Suc.IH [of "Some t" v "arns @ lo_Arns out"] by (auto simp: pages_Inr)
      with Some c Inr show ?thesis
        by (intro exI [of _ "lo_Arns out # ps"]) (auto intro: more_pages)
    qed
  qed
qed simp

lemma pages_iff:
  "pages list_call token arns w = Some (Inr (w', Inr xs)) \<longleftrightarrow>
     (\<exists>ps. lists list_call token w ps w' \<and> xs = arns @ concat ps)"
  using lists_pages pages_lists pages_follow by metis

end
