(* ===== verification/TaskEndpoints.thy ===== *)
theory TaskEndpoints
  imports Fargate
begin

text \<open>
  One task of the Fargate provider: the node identifier in its ARN, the services that the docker
  labels of its task definition declare (\<open>declares\<close>), the addresses of its containers, and the
  endpoints that \<open>findEndpoints\<close> makes of them (\<open>findEndpoints_view\<close>).
\<close>

subsection \<open>Task identifiers\<close>

lemma task_separator: "''task/'' = ''task'' @ [CHR ''/'']" "CHR ''/'' \<notin> set ''task''"
  by simp_all

lemma Split_task:
  assumes "CHR ''/'' \<notin> set pre"
  shows "Split (pre @ ''task/'' @ t) ''task/'' = pre # Split t ''task/''"
  using Split_first [OF assms task_separator(2), of t] by simp

lemma Split_task_plain: "CHR ''/'' \<notin> set s \<Longrightarrow> Split s ''task/'' = [s]"
  by (rule Split_absent) auto

lemma Split_task_long:
  assumes "CHR ''/'' \<notin> set cl" and "CHR ''/'' \<notin> set uuid" and "\<nexists>a. cl = a @ ''task''"
  shows "Split (cl @ ''/'' @ uuid) ''task/'' = [cl @ ''/'' @ uuid]"
proof (rule Split_absent, rule notI, elim exE)
  fix a b assume eq: "cl @ ''/'' @ uuid = a @ ''task/'' @ b"
  then have "cl @ CHR ''/'' # uuid = (a @ ''task'') @ CHR ''/'' # b" by simp
  then have "cl = a @ ''task''"
    using append_Cons_eq_iff [OF assms(1,2)] by metis
  with assms(3) show False by blast
qed

subsection \<open>Services and endpoints\<close>

definition labels_wf :: "task_definition \<Rightarrow> bool" where
  "labels_wf td \<longleftrightarrow> (\<forall>cd \<in> set (ContainerDefinitions td). map_wf (DockerLabels cd))"

text \<open>The annotations of a service: the labels under its \<open>.annotations.\<close> prefix.\<close>

definition label_annotations :: "labels \<Rightarrow> string \<Rightarrow> string \<Rightarrow> string option" where
  "label_annotations labels prefix a = (case map_of labels (prefix @ a) of Some (Some v) \<Rightarrow> Some v | _ \<Rightarrow> None)"

text \<open>A label \<open>envoy.service.<svc> = <container>:<port>\<close> declares a service of a container.\<close>

definition label_declares :: "labels \<Rightarrow> string \<Rightarrow> string \<Rightarrow> uint32 \<Rightarrow> bool" where
  "label_declares labels name svc port \<longleftrightarrow>
     (\<exists>v p rest n. map_of labels (servicePrefix @ svc) = Some (Some v) \<and> Split v '':'' = name # p # rest \<and>
        Atoi p = Some n \<and> port = of_int n)"

definition declares :: "task_definition \<Rightarrow> string \<Rightarrow> string \<Rightarrow> uint32 \<Rightarrow> (string \<Rightarrow> string option) \<Rightarrow> bool" where
  "declares td name svc port ann \<longleftrightarrow>
     (\<exists>cd \<in> set (ContainerDefinitions td). label_declares (DockerLabels cd) name svc port \<and>
        ann = label_annotations (DockerLabels cd) (servicePrefix @ svc @ ''.annotations.''))"

lemma strip_label_fold:
  assumes "go_fold (strip_label prefix) xs acc = Inr ann" and "distinct (map fst xs)" and "prefix \<noteq> []" and "map_wf acc"
  shows "map_wf ann \<and> map_of ann a = (case map_of xs (prefix @ a) of Some v \<Rightarrow> v | None \<Rightarrow> map_of acc a)"
  using assms
proof (induction xs arbitrary: acc)
  case Nil
  then show ?case by simp
next
  case (Cons x xs)
  obtain key val where x: "x = (key, val)" by (cases x)
  have dist: "distinct (map fst xs)" "key \<notin> fst ` set xs" using Cons.prems(2) x by auto
  show ?case
  proof (cases "HasPrefix key prefix")
    case True
    then obtain b where key: "key = prefix @ b" by (auto simp: HasPrefix_append)
    have ne: "b \<noteq> prefix @ b" using Cons.prems(3) by simp
    have none: "map_of xs (prefix @ b) = None" using dist(2) by (simp add: map_of_eq_None_iff key)
    obtain v where "val = Some v" and "go_fold (strip_label prefix) xs (mput b v acc) = Inr ann"
      using Cons.prems(1) ne by (auto simp: x strip_label_def key go_bind_eq_Inr)
    then show ?thesis
      using Cons.IH [OF _ dist(1) Cons.prems(3)] Cons.prems(4) none by (auto simp: x key split: option.split)
  next
    case False
    then have "TrimPrefix key prefix = key" by (simp add: TrimPrefix_same Cons.prems(3))
    moreover have "key \<noteq> prefix @ a" using False by auto
    ultimately show ?thesis
      using Cons.IH [OF _ dist(1) Cons.prems(3,4)] Cons.prems(1) by (simp add: x strip_label_def)
  qed
qed

lemma stripKeyPrefix_lookup:
  assumes "stripKeyPrefix ord prefix labels = Inr ann" and "is_order ord" and "map_wf labels" and "prefix \<noteq> []"
  shows "map_wf ann" and "map_of ann = label_annotations labels prefix"
proof -
  have d: "distinct (map fst (mrange ord labels))" using map_wf_mrange [OF assms(2,3)] by (simp add: map_wf_def)
  note f = strip_label_fold [OF assms(1) [unfolded stripKeyPrefix_def] d assms(4) map_wf_Nil]
  show "map_wf ann" using f by blast
  show "map_of ann = label_annotations labels prefix"
    using f assms(2,3) by (auto simp: fun_eq_iff label_annotations_def split: option.splits)
qed

text \<open>A target as the declarations see it: annotations by their lookups.\<close>

definition target_view :: "taskTarget \<Rightarrow> string \<times> uint32 \<times> (string \<Rightarrow> string option)" where
  "target_view t = (tt_ClusterName t, tt_Port t, map_of (tt_Annotations t))"

definition label_adds :: "paths \<Rightarrow> labels \<Rightarrow> nat \<times> string \<times> string option \<Rightarrow> string \<Rightarrow> taskTarget \<Rightarrow> bool" where
  "label_adds ords labels = (\<lambda>(j, label, value) name t.
     \<exists>svc v p rest n. label = servicePrefix @ svc \<and> value = Some v \<and> Split v '':'' = name # p # rest \<and>
       Atoi p = Some n \<and> tt_ClusterName t = svc \<and> tt_Port t = of_int n \<and>
       stripKeyPrefix (ords [j]) (label @ ''.annotations.'') labels = Inr (tt_Annotations t))"

lemma servicePrefix_nonempty [simp]: "servicePrefix \<noteq> []"
  by (simp add: servicePrefix_def)

lemma split_list_two: "2 \<le> length xs \<longleftrightarrow> (\<exists>a b rest. xs = a # b # rest)"
  by (cases xs; cases "tl xs") auto

lemma add_target_adds: "adds (add_target ords labels (j, label, value)) (label_adds ords labels (j, label, value))"
proof (cases "HasPrefix label servicePrefix")
  case False
  then have "TrimPrefix label servicePrefix = label" by (simp add: TrimPrefix_same)
  with False show ?thesis
    unfolding add_target_def label_adds_def by (auto simp: Let_def intro!: adds_none)
next
  case True
  then obtain svc where label: "label = servicePrefix @ svc" by (auto simp: HasPrefix_append)
  have [simp]: "label \<noteq> svc" by (simp add: label)
  show ?thesis
  proof (cases "\<exists>v name p rest n. value = Some v \<and> Split v '':'' = name # p # rest \<and> Atoi p = Some n")
    case True
    then obtain v name p rest n where v: "value = Some v" "Split v '':'' = name # p # rest" "Atoi p = Some n" by blast
    have "add_target ords labels (j, label, value) = (\<lambda>targets.
        go_bind (stripKeyPrefix (ords [j]) (label @ ''.annotations.'') labels) (\<lambda>ann.
          Inr (mappend name \<lparr>tt_ClusterName = svc, tt_Annotations = ann, tt_Port = of_int n\<rparr> targets)))"
      using label by (simp add: add_target_def v Let_def fun_eq_iff)
    then show ?thesis
      by (auto simp: label_adds_def v label intro!: adds_bind adds_one)
  next
    case False
    have "\<And>targets t. add_target ords labels (j, label, value) targets = Inr t \<Longrightarrow> t = targets"
      using False label
      by (auto simp: add_target_def Let_def go_bind_eq_Inr not_less split_list_two split: if_splits option.splits)
    moreover have "\<not> label_adds ords labels (j, label, value) name t" for name t
      using False by (auto simp: label_adds_def)
    ultimately show ?thesis unfolding adds_def by blast
  qed
qed

text \<open>The targets of a definition, container by container.\<close>

definition container_adds :: "paths \<Rightarrow> nat \<times> container_definition \<Rightarrow> string \<Rightarrow> taskTarget \<Rightarrow> bool" where
  "container_adds ords = (\<lambda>(i, cd) name t.
     \<exists>x \<in> set (List.enumerate 0 (mrange (ords [i]) (DockerLabels cd))). label_adds (within i ords) (DockerLabels cd) x name t)"

definition definition_adds :: "paths \<Rightarrow> task_definition \<Rightarrow> string \<Rightarrow> taskTarget \<Rightarrow> bool" where
  "definition_adds ords td name t \<longleftrightarrow>
     (\<exists>c \<in> set (List.enumerate 0 (ContainerDefinitions td)). container_adds ords c name t)"

lemma findTaskTargets_nil [simp]: "findTaskTargets ords None = Inl NilDereference"
  by (simp add: findTaskTargets_def)

lemma findTaskTargets_set:
  assumes "findTaskTargets ords (Some td) = Inr r"
  obtains targets where "r = Inr targets" and "slices_wf targets"
    and "\<And>name t. t \<in> set (mvals targets name) \<longleftrightarrow> definition_adds ords td name t"
proof -
  let ?f = "\<lambda>(i, container). go_fold (add_target (within i ords) (DockerLabels container))
    (List.enumerate 0 (mrange (ords [i]) (DockerLabels container)))"
  obtain targets where r: "r = Inr targets"
    and t: "go_fold ?f (List.enumerate 0 (ContainerDefinitions td)) [] = Inr targets"
    using assms by (auto simp: findTaskTargets_def go_bind_eq_Inr)
  have "adds (?f c) (container_adds ords c)" for c
  proof (cases c)
    case (Pair i cd)
    have "adds (add_target (within i ords) (DockerLabels cd) x) (label_adds (within i ords) (DockerLabels cd) x)" for x
      by (cases x) (simp add: add_target_adds)
    then show ?thesis unfolding Pair container_adds_def prod.case by (rule adds_fold)
  qed
  then have "adds (go_fold ?f (List.enumerate 0 (ContainerDefinitions td)))
      (\<lambda>name t. \<exists>c \<in> set (List.enumerate 0 (ContainerDefinitions td)). container_adds ords c name t)"
    by (rule adds_fold)
  note result = addsD [OF this t slices_wf_Nil]
  show thesis
    by (rule that [OF r result(1)]) (simp add: result(2) definition_adds_def)
qed

lemma in_enumerate: "(i, x) \<in> set (List.enumerate 0 xs) \<Longrightarrow> x \<in> set xs"
  by (auto simp: in_set_enumerate_eq)

lemma ex_enumerate: "x \<in> set xs \<Longrightarrow> \<exists>i. (i, x) \<in> set (List.enumerate 0 xs)"
proof -
  assume "x \<in> set xs"
  then obtain i where "i < length xs" "xs ! i = x" by (auto simp: in_set_conv_nth)
  then show ?thesis by (intro exI [of _ i]) (simp add: in_set_enumerate_eq)
qed

lemma definition_adds_declares:
  assumes "labels_wf td" and "\<And>p. is_order (ords p)" and "definition_adds ords td name t"
  shows "declares td name (tt_ClusterName t) (tt_Port t) (map_of (tt_Annotations t))"
proof -
  obtain i cd j label val where cd: "(i, cd) \<in> set (List.enumerate 0 (ContainerDefinitions td))"
    and l: "(j, label, val) \<in> set (List.enumerate 0 (mrange (ords [i]) (DockerLabels cd)))"
    and a: "label_adds (within i ords) (DockerLabels cd) (j, label, val) name t"
    using assms(3) by (auto simp: definition_adds_def container_adds_def)
  have wf: "map_wf (DockerLabels cd)" using assms(1) in_enumerate [OF cd] by (simp add: labels_wf_def)
  have "(label, val) \<in> set (DockerLabels cd)" using in_enumerate [OF l] assms(2) wf by simp
  then have m: "map_of (DockerLabels cd) label = Some val" by (simp add: map_wf_lookup [OF wf])
  obtain v p rest n where s: "label = servicePrefix @ tt_ClusterName t" "val = Some v"
      "Split v '':'' = name # p # rest" "Atoi p = Some n" "tt_Port t = of_int n"
      "stripKeyPrefix (ords [i, j]) (label @ ''.annotations.'') (DockerLabels cd) = Inr (tt_Annotations t)"
    using a by (auto simp: label_adds_def)
  have p: "label @ ''.annotations.'' \<noteq> []" by simp
  note strip = stripKeyPrefix_lookup [OF s(6) assms(2) wf p]
  have "label_declares (DockerLabels cd) name (tt_ClusterName t) (tt_Port t)"
    unfolding label_declares_def using m s by blast
  moreover have "map_of (tt_Annotations t) =
      label_annotations (DockerLabels cd) (servicePrefix @ tt_ClusterName t @ ''.annotations.'')"
    using strip(2) s(1) by simp
  ultimately show ?thesis
    unfolding declares_def using in_enumerate [OF cd] by blast
qed

text \<open>When the code returns, every label that declares a service has its target.\<close>

lemma declares_definition_adds:
  assumes "labels_wf td" and "\<And>p. is_order (ords p)" and "findTaskTargets ords (Some td) = Inr r"
    and "declares td name svc port ann"
  obtains t where "definition_adds ords td name t" and "target_view t = (svc, port, ann)"
proof -
  obtain cd v p rest n where cd: "cd \<in> set (ContainerDefinitions td)"
    and l: "map_of (DockerLabels cd) (servicePrefix @ svc) = Some (Some v)" "Split v '':'' = name # p # rest"
      "Atoi p = Some n" "port = of_int n"
    and ann: "ann = label_annotations (DockerLabels cd) (servicePrefix @ svc @ ''.annotations.'')"
    using assms(4) by (auto simp: declares_def label_declares_def)
  have wf: "map_wf (DockerLabels cd)" using assms(1) cd by (simp add: labels_wf_def)
  obtain i where i: "(i, cd) \<in> set (List.enumerate 0 (ContainerDefinitions td))" using ex_enumerate [OF cd] by blast
  have "(servicePrefix @ svc, Some v) \<in> set (mrange (ords [i]) (DockerLabels cd))"
    using l(1) assms(2) wf by (simp add: map_wf_lookup)
  from ex_enumerate [OF this] obtain j where
    j: "(j, servicePrefix @ svc, Some v) \<in> set (List.enumerate 0 (mrange (ords [i]) (DockerLabels cd)))" ..
  let ?f = "\<lambda>(i, container). go_fold (add_target (within i ords) (DockerLabels container))
    (List.enumerate 0 (mrange (ords [i]) (DockerLabels container)))"
  obtain targets where "go_fold ?f (List.enumerate 0 (ContainerDefinitions td)) [] = Inr targets"
    using assms(3) by (auto simp: findTaskTargets_def go_bind_eq_Inr)
  from go_fold_Inr_each [OF this i] obtain s1 t1 where "?f (i, cd) s1 = Inr t1" by blast
  then have "go_fold (add_target (within i ords) (DockerLabels cd))
      (List.enumerate 0 (mrange (ords [i]) (DockerLabels cd))) s1 = Inr t1" by simp
  from go_fold_Inr_each [OF this j] obtain s2 t2 where
    "add_target (within i ords) (DockerLabels cd) (j, servicePrefix @ svc, Some v) s2 = Inr t2" by blast
  then obtain a where a: "stripKeyPrefix (ords [i, j]) (servicePrefix @ svc @ ''.annotations.'') (DockerLabels cd) = Inr a"
    using l by (auto simp: add_target_def Let_def go_bind_eq_Inr)
  let ?t = "\<lparr>tt_ClusterName = svc, tt_Annotations = a, tt_Port = port\<rparr>"
  have "label_adds (within i ords) (DockerLabels cd) (j, servicePrefix @ svc, Some v) name ?t"
    using l a by (auto simp: label_adds_def)
  then have "definition_adds ords td name ?t"
    unfolding definition_adds_def container_adds_def using i j by (intro bexI [of _ "(i, cd)"]) auto
  moreover have "target_view ?t = (svc, port, ann)"
    using stripKeyPrefix_lookup(2) [OF a assms(2) wf] by (simp add: target_view_def ann)
  ultimately show thesis by (rule that)
qed

subsection \<open>The endpoints of a task\<close>

definition endpoint_view :: "endpoint \<Rightarrow> string \<times> uint32 \<times> (string \<Rightarrow> string option)" where
  "endpoint_view e = (ep_Address e, ep_Port e, map_of (ep_Annotations e))"

definition endpoint_of :: "taskTarget \<Rightarrow> string \<Rightarrow> endpoint" where
  "endpoint_of t ip = \<lparr>ep_Address = ip, ep_Annotations = tt_Annotations t, ep_Port = tt_Port t\<rparr>"

lemma add_nic_adds:
  "adds (add_nic t nic) (\<lambda>svc e. svc = tt_ClusterName t \<and> (\<exists>ip. PrivateIpv4Address nic = Some ip \<and> e = endpoint_of t ip))"
  unfolding add_nic_def by (auto intro!: adds_bind adds_one simp: endpoint_of_def)

text \<open>The addresses of a container.\<close>

definition has_ip :: "ecs_container \<Rightarrow> string \<Rightarrow> bool" where
  "has_ip co ip \<longleftrightarrow> (\<exists>nic \<in> set (NetworkInterfaces co). PrivateIpv4Address nic = Some ip)"

lemma add_container_adds:
  "adds (add_container targets co) (\<lambda>svc e. \<exists>name t ip. co_Name co = Some name \<and> t \<in> set (mvals targets name) \<and>
     tt_ClusterName t = svc \<and> has_ip co ip \<and> e = endpoint_of t ip)"
proof -
  have "adds (go_fold (\<lambda>t. go_fold (add_nic t) (NetworkInterfaces co)) ts)
      (\<lambda>svc e. \<exists>t \<in> set ts. \<exists>nic \<in> set (NetworkInterfaces co).
         svc = tt_ClusterName t \<and> (\<exists>ip. PrivateIpv4Address nic = Some ip \<and> e = endpoint_of t ip))" for ts
    by (intro adds_fold add_nic_adds)
  then have *: "adds (go_fold (\<lambda>t. go_fold (add_nic t) (NetworkInterfaces co)) ts)
      (\<lambda>svc e. \<exists>t ip. t \<in> set ts \<and> tt_ClusterName t = svc \<and> has_ip co ip \<and> e = endpoint_of t ip)" for ts
    by (rule adds_cong) (auto simp: has_ip_def)
  show ?thesis
    unfolding add_container_def
  proof (rule adds_bind)
    fix name assume name: "deref (co_Name co) = Inr name"
    show "adds (\<lambda>services. case map_of targets name of None \<Rightarrow> Inr services
        | Some ts \<Rightarrow> go_fold (\<lambda>t. go_fold (add_nic t) (NetworkInterfaces co)) ts services)
      (\<lambda>svc e. \<exists>name t ip. co_Name co = Some name \<and> t \<in> set (mvals targets name) \<and>
         tt_ClusterName t = svc \<and> has_ip co ip \<and> e = endpoint_of t ip)"
    proof (cases "map_of targets name")
      case None
      with name show ?thesis by (auto simp: mvals_def intro!: adds_none)
    next
      case (Some ts)
      from * [of ts] show ?thesis
        unfolding Some option.case by (rule adds_cong) (use name Some in \<open>auto simp: mvals_def\<close>)
    qed
  qed
qed

lemma findEndpoints_nil: "findEndpoints ords task None = Inl NilDereference"
  by (simp add: findEndpoints_def)

lemma findEndpoints_set:
  assumes "findEndpoints ords task (Some td) = Inr r"
  obtains services where "r = Inr services" and "slices_wf services"
    and "\<And>svc e. e \<in> set (mvals services svc) \<longleftrightarrow>
      (\<exists>co \<in> set (Containers task). \<exists>name t ip. co_Name co = Some name \<and> definition_adds ords td name t \<and>
         tt_ClusterName t = svc \<and> has_ip co ip \<and> e = endpoint_of t ip)"
proof -
  obtain r' where tt: "findTaskTargets ords (Some td) = Inr r'"
    using assms by (auto simp: findEndpoints_def go_bind_eq_Inr)
  obtain targets where r': "r' = Inr targets"
    and t: "\<And>name t. t \<in> set (mvals targets name) \<longleftrightarrow> definition_adds ords td name t"
    by (rule findTaskTargets_set [OF tt]) (rule that)
  obtain services where r: "r = Inr services" and s: "go_fold (add_container targets) (Containers task) [] = Inr services"
    using assms by (auto simp: findEndpoints_def tt r' go_bind_eq_Inr)
  have "adds (go_fold (add_container targets) (Containers task)) (\<lambda>svc e. \<exists>co \<in> set (Containers task).
      \<exists>name t ip. co_Name co = Some name \<and> t \<in> set (mvals targets name) \<and>
        tt_ClusterName t = svc \<and> has_ip co ip \<and> e = endpoint_of t ip)"
    by (intro adds_fold add_container_adds)
  note result = addsD [OF this s slices_wf_Nil]
  show thesis
    by (rule that [OF r result(1)]) (simp add: result(2) t)
qed

text \<open>The annotations are Go maps whatever the labels are.\<close>

lemma strip_label_wf: "map_wf acc \<Longrightarrow> strip_label prefix x acc = Inr ann \<Longrightarrow> map_wf ann"
  by (auto simp: strip_label_def Let_def go_bind_eq_Inr split: if_splits prod.splits)

lemma stripKeyPrefix_wf: "stripKeyPrefix ord prefix labels = Inr ann \<Longrightarrow> map_wf ann"
  unfolding stripKeyPrefix_def by (rule go_fold_invariant [where P = map_wf]) (auto dest: strip_label_wf)

lemma definition_adds_wf: "definition_adds ords td name t \<Longrightarrow> map_wf (tt_Annotations t)"
  by (auto simp: definition_adds_def container_adds_def label_adds_def dest: stripKeyPrefix_wf)

lemma findEndpoints_view:
  assumes "findEndpoints ords task (Some td) = Inr r" and "labels_wf td" and "\<And>p. is_order (ords p)"
  obtains services where "r = Inr services" and "slices_wf services"
    and "\<And>svc. annotations_wf (mvals services svc)"
    and "\<And>svc. endpoint_view ` set (mvals services svc) =
      {(ip, port, ann). \<exists>co \<in> set (Containers task). \<exists>name. co_Name co = Some name \<and> has_ip co ip \<and>
         declares td name svc port ann}"
proof -
  obtain services where r: "r = Inr services" and wf: "slices_wf services"
    and s: "\<And>svc e. e \<in> set (mvals services svc) \<longleftrightarrow>
      (\<exists>co \<in> set (Containers task). \<exists>name t ip. co_Name co = Some name \<and> definition_adds ords td name t \<and>
         tt_ClusterName t = svc \<and> has_ip co ip \<and> e = endpoint_of t ip)"
    by (rule findEndpoints_set [OF assms(1)]) (rule that)
  obtain r' where tt: "findTaskTargets ords (Some td) = Inr r'"
    using assms(1) by (auto simp: findEndpoints_def go_bind_eq_Inr)
  have ann: "annotations_wf (mvals services svc)" for svc
    by (rule ballI) (auto simp: s endpoint_of_def dest: definition_adds_wf)
  have "(ip, port, ann) \<in> endpoint_view ` set (mvals services svc) \<longleftrightarrow>
      (\<exists>co \<in> set (Containers task). \<exists>name. co_Name co = Some name \<and> has_ip co ip \<and> declares td name svc port ann)"
    for svc ip port ann
  proof
    assume "(ip, port, ann) \<in> endpoint_view ` set (mvals services svc)"
    then obtain e where "e \<in> set (mvals services svc)" "(ip, port, ann) = endpoint_view e" by blast
    then obtain co name t where "co \<in> set (Containers task)" "co_Name co = Some name" "definition_adds ords td name t"
        "tt_ClusterName t = svc" "has_ip co ip" "port = tt_Port t" "ann = map_of (tt_Annotations t)"
      unfolding s by (auto simp: endpoint_view_def endpoint_of_def)
    then show "\<exists>co \<in> set (Containers task). \<exists>name. co_Name co = Some name \<and> has_ip co ip \<and> declares td name svc port ann"
      using definition_adds_declares [of td ords name t, OF assms(2,3)] by blast
  next
    assume "\<exists>co \<in> set (Containers task). \<exists>name. co_Name co = Some name \<and> has_ip co ip \<and> declares td name svc port ann"
    then obtain co name where co: "co \<in> set (Containers task)" "co_Name co = Some name" "has_ip co ip"
      and d: "declares td name svc port ann" by blast
    obtain t where t: "definition_adds ords td name t" "target_view t = (svc, port, ann)"
      by (rule declares_definition_adds [OF assms(2,3) tt d])
    then have "endpoint_of t ip \<in> set (mvals services svc)" using co by (auto simp: s target_view_def)
    moreover have "endpoint_view (endpoint_of t ip) = (ip, port, ann)"
      using t(2) by (simp add: endpoint_view_def endpoint_of_def target_view_def)
    ultimately show "(ip, port, ann) \<in> endpoint_view ` set (mvals services svc)" by (metis image_eqI)
  qed
  note view = this
  show thesis by (rule that [OF r wf ann]) (auto simp: set_eq_iff view)
qed

lemma findEndpoints_wf:
  assumes "findEndpoints ords task (Some td) = Inr r"
  obtains services where "r = Inr services" and "slices_wf services" and "\<And>svc. annotations_wf (mvals services svc)"
proof -
  obtain services where r: "r = Inr services" and wf: "slices_wf services"
    and s: "\<And>svc e. e \<in> set (mvals services svc) \<longleftrightarrow>
      (\<exists>co \<in> set (Containers task). \<exists>name t ip. co_Name co = Some name \<and> definition_adds ords td name t \<and>
         tt_ClusterName t = svc \<and> has_ip co ip \<and> e = endpoint_of t ip)"
    by (rule findEndpoints_set [OF assms]) (rule that)
  have "annotations_wf (mvals services svc)" for svc
    by (rule ballI) (auto simp: s endpoint_of_def dest: definition_adds_wf)
  then show thesis by (rule that [OF r wf])
qed

end
