(* ===== verification/FargateSpec.thy ===== *)
theory FargateSpec
  imports TaskEndpoints
begin

text \<open>
  What the Fargate provider returns for an account: the nodes and clusters of the running tasks
  (\<open>TaskEndpoints\<close> has the single task), the shape of the result of \<open>GetClusters\<close>, when it ends,
  and the panic on a task definition that cannot be described. \<open>read_account\<close> is what a call learns
  from the service, \<open>GetClusters_read\<close> that the result is made of it: its nodes are those of the
  listed tasks, each with the services that \<open>findEndpoints\<close> finds for one of its tasks.
\<close>

subsection \<open>The clusters of a node\<close>

definition clusters_from :: "string order \<Rightarrow> (string, endpoint list) gomap \<Rightarrow> cluster list" where
  "clusters_from ord services = map (\<lambda>(name, eps). \<lparr>clu_Name = name, clu_Endpoints = eps\<rparr>) (mrange ord services)"

lemma fold_mappend:
  "map_of lc k = Some ys \<Longrightarrow>
     map_of (fold (\<lambda>x. mappend k (g x)) xs lc) = (map_of lc)(k \<mapsto> ys @ map g xs)"
  by (induction xs arbitrary: lc ys) (auto simp: mappend_def mvals_def)

lemma fold_mappend_wf: "map_wf lc \<Longrightarrow> map_wf (fold (\<lambda>x. mappend k (g x)) xs lc)"
  by (induction xs arbitrary: lc) (auto simp: mappend_def)

lemma add_task_result:
  assumes "add_task ords defs task lc = Inr lc'"
  obtains arn td taskArn services where "TaskDefinitionArn task = Some arn" and "map_of defs arn = Some (Some td)"
    and "TaskArn task = Some taskArn" and "findEndpoints (within 1 ords) task (Some td) = Inr (Inr services)"
    and "map_wf lc \<Longrightarrow> map_wf lc'"
    and "map_of lc' = (case TaskArnToNodeID taskArn of Inl _ \<Rightarrow> map_of lc
      | Inr node \<Rightarrow> (map_of lc)(node \<mapsto> clusters_from (ords [0]) services))"
proof -
  obtain arn where arn: "TaskDefinitionArn task = Some arn" using assms by (auto simp: add_task_def go_bind_eq_Inr)
  obtain r where "findEndpoints (within 1 ords) task (case map_of defs arn of None \<Rightarrow> None | Some td \<Rightarrow> td) = Inr r"
    using assms by (auto simp: add_task_def arn Let_def go_bind_eq_Inr)
  then obtain td where td: "map_of defs arn = Some (Some td)" and fe: "findEndpoints (within 1 ords) task (Some td) = Inr r"
    by (cases "map_of defs arn"; cases "the (map_of defs arn)") (auto simp: findEndpoints_nil)
  obtain services where r: "r = Inr services" by (rule findEndpoints_wf [OF fe])
  obtain taskArn where ta: "TaskArn task = Some taskArn" using assms by (auto simp: add_task_def arn td fe r go_bind_eq_Inr)
  let ?step = "\<lambda>node x. mappend node ((\<lambda>(name, eps). \<lparr>clu_Name = name, clu_Endpoints = eps\<rparr>) x)"
  have lc': "lc' = (case TaskArnToNodeID taskArn of Inl _ \<Rightarrow> lc
      | Inr node \<Rightarrow> fold (?step node) (mrange (ords [0]) services) (mput node [] lc))"
    using assms by (auto simp: add_task_def arn td fe r ta case_prod_beta' simp del: One_nat_def split: sum.splits)
  show thesis
  proof (rule that [OF arn td ta fe [unfolded r]])
    show "map_wf lc \<Longrightarrow> map_wf lc'" by (auto simp: lc' intro!: fold_mappend_wf split: sum.split)
    show "map_of lc' = (case TaskArnToNodeID taskArn of Inl _ \<Rightarrow> map_of lc
        | Inr node \<Rightarrow> (map_of lc)(node \<mapsto> clusters_from (ords [0]) services))"
      unfolding lc' by (auto simp: clusters_from_def fold_mappend [where ys = "[]"] split: sum.split)
  qed
qed

text \<open>What \<open>GetClusters\<close> promises about its result.\<close>

definition local_wf :: "provider_clusters \<Rightarrow> bool" where
  "local_wf pc \<longleftrightarrow> map_wf pc \<and> (\<forall>node cs. map_of pc node = Some cs \<longrightarrow> distinct (map clu_Name cs) \<and>
     (\<forall>c \<in> set cs. clu_Endpoints c \<noteq> [] \<and> annotations_wf (clu_Endpoints c)))"

lemma local_wf_Nil [simp]: "local_wf []"
  by (simp add: local_wf_def)

lemma local_wf_provider: "local_wf pc \<Longrightarrow> provider_wf pc"
  by (auto simp: local_wf_def provider_wf_def map_wf_lookup)

lemma clusters_from_wf:
  assumes "slices_wf services" and "\<And>svc. annotations_wf (mvals services svc)" and "is_order ord"
  shows "distinct (map clu_Name (clusters_from ord services)) \<and>
    (\<forall>c \<in> set (clusters_from ord services). clu_Endpoints c \<noteq> [] \<and> annotations_wf (clu_Endpoints c))"
proof -
  have wf: "map_wf services" using assms(1) by (simp add: slices_wf_def)
  have "map clu_Name (clusters_from ord services) = map fst (mrange ord services)"
    by (simp add: clusters_from_def comp_def case_prod_beta' del: keys_mrange)
  then have "distinct (map clu_Name (clusters_from ord services))"
    using map_wf_mrange [OF assms(3) wf] by (simp add: map_wf_def)
  moreover have "eps \<noteq> [] \<and> annotations_wf eps" if "(name, eps) \<in> set (mrange ord services)" for name eps
    using that assms(2) [of name] by (simp add: assms(3) wf slices_wf_set [OF assms(1)])
  ultimately show ?thesis by (auto simp: clusters_from_def)
qed

lemma add_task_wf:
  assumes "add_task ords defs task lc = Inr lc'" and "local_wf lc" and "is_order (ords [0])"
  shows "local_wf lc'"
proof (rule add_task_result [OF assms(1)])
  fix arn td taskArn services
  assume fe: "findEndpoints (within 1 ords) task (Some td) = Inr (Inr services)" and wf: "map_wf lc \<Longrightarrow> map_wf lc'"
    and m: "map_of lc' = (case TaskArnToNodeID taskArn of Inl _ \<Rightarrow> map_of lc
      | Inr node \<Rightarrow> (map_of lc)(node \<mapsto> clusters_from (ords [0]) services))"
  have "slices_wf services" "\<And>svc. annotations_wf (mvals services svc)"
    using findEndpoints_wf [OF fe] by blast+
  from clusters_from_wf [OF this assms(3)] show ?thesis
    using assms(2) wf unfolding local_wf_def m by (auto split: sum.splits if_splits)
qed

subsection \<open>The tasks of a cluster\<close>

text \<open>Every panic of the provider is a nil dereference.\<close>

definition only_nil :: "('s \<Rightarrow> 't go) \<Rightarrow> bool" where
  "only_nil f \<longleftrightarrow> (\<forall>s e. f s = Inl e \<longrightarrow> e = NilDereference)"

lemma only_nilD: "only_nil f \<Longrightarrow> f s = Inl e \<Longrightarrow> e = NilDereference"
  by (auto simp: only_nil_def)

lemma only_nil_Inr: "only_nil (\<lambda>s. Inr (f s))"
  by (simp add: only_nil_def)

lemma only_nil_fold: "(\<And>x. x \<in> set xs \<Longrightarrow> only_nil (f x)) \<Longrightarrow> only_nil (go_fold f xs)"
  unfolding only_nil_def
proof (intro allI impI)
  fix s e assume f: "\<And>x. x \<in> set xs \<Longrightarrow> \<forall>s e. f x s = Inl e \<longrightarrow> e = NilDereference" and "go_fold f xs s = Inl e"
  from go_fold_Inl [OF this(2), where P = "\<lambda>_. True"] f show "e = NilDereference" by blast
qed

lemma only_nil_bind:
  "(\<And>e. m = Inl e \<Longrightarrow> e = NilDereference) \<Longrightarrow> (\<And>v. m = Inr v \<Longrightarrow> only_nil (f v)) \<Longrightarrow>
     only_nil (\<lambda>s. go_bind m (\<lambda>v. f v s))"
  unfolding only_nil_def by (auto simp: go_bind_eq_Inl)

lemma only_nil_strip: "stripKeyPrefix ord prefix labels = Inl e \<Longrightarrow> e = NilDereference"
proof -
  have "only_nil (strip_label prefix x)" for x
    by (cases x) (auto simp: only_nil_def strip_label_def Let_def go_bind_eq_Inl split: if_splits)
  from only_nil_fold [of "mrange ord labels" "strip_label prefix", OF this]
  show "stripKeyPrefix ord prefix labels = Inl e \<Longrightarrow> e = NilDereference"
    unfolding stripKeyPrefix_def by (rule only_nilD)
qed

lemma only_nil_target: "only_nil (add_target ords labels x)"
  unfolding only_nil_def
  by (cases x) (auto simp: add_target_def Let_def go_bind_eq_Inl dest: only_nil_strip split: if_splits option.splits)

lemma only_nil_targets: "findTaskTargets ords td = Inl e \<Longrightarrow> e = NilDereference"
proof -
  let ?f = "\<lambda>(i, container). go_fold (add_target (within i ords) (DockerLabels container))
    (List.enumerate 0 (mrange (ords [i]) (DockerLabels container)))"
  have "only_nil (?f c)" for c
    by (cases c) (simp only: prod.case only_nil_fold [OF only_nil_target])
  then have f: "only_nil (go_fold ?f cs)" for cs by (rule only_nil_fold)
  show "findTaskTargets ords td = Inl e \<Longrightarrow> e = NilDereference"
    unfolding findTaskTargets_def go_bind_eq_Inl deref_eq_Inl using only_nilD [OF f] by blast
qed

lemma only_nil_endpoints: "findEndpoints ords task td = Inl e \<Longrightarrow> e = NilDereference"
proof -
  have nic: "only_nil (go_fold (add_nic t) nics)" for t nics
    by (rule only_nil_fold) (auto simp: only_nil_def add_nic_def go_bind_eq_Inl)
  have ts: "only_nil (go_fold (\<lambda>t. go_fold (add_nic t) nics) ts)" for ts nics
    by (rule only_nil_fold) (rule nic)
  have "only_nil (add_container targets co)" for targets co
    unfolding add_container_def
    by (rule only_nil_bind) (auto simp: only_nil_def dest: only_nilD [OF ts] split: option.splits)
  then have f: "only_nil (go_fold (add_container targets) cos)" for targets cos by (rule only_nil_fold)
  show "findEndpoints ords task td = Inl e \<Longrightarrow> e = NilDereference"
    unfolding findEndpoints_def
    by (cases "findTaskTargets ords td"; cases "projr (findTaskTargets ords td)")
      (auto simp: go_bind_eq_Inl dest: only_nil_targets only_nilD [OF f])
qed

lemma only_nil_task: "only_nil (add_task ords defs task)"
  unfolding add_task_def Let_def
  by (intro only_nil_bind)
    (auto simp: only_nil_def dest: only_nil_endpoints simp del: One_nat_def split: sum.splits)

lemma add_task_undescribed:
  assumes "TaskDefinitionArn task = Some arn" and "map_of defs arn = None"
  shows "add_task ords defs task lc = Inl NilDereference"
  using assms by (simp add: add_task_def findEndpoints_nil)

text \<open>The tasks that the provider lists are grouped by their definition.\<close>

definition grouped :: "(string, ecs_task list) gomap \<Rightarrow> bool" where
  "grouped tasks \<longleftrightarrow> slices_wf tasks \<and> (\<forall>arn. \<forall>t \<in> set (mvals tasks arn). TaskDefinitionArn t = Some arn)"

lemma put_task_grouped: "grouped tasks \<Longrightarrow> put_task t tasks = Inr tasks' \<Longrightarrow> grouped tasks'"
  by (auto simp: put_task_def grouped_def go_bind_eq_Inr split: if_splits)

lemma listTasks_grouped:
  assumes "listTasks client cluster w = Some (Inr (w', Inr tasks))"
  shows "grouped tasks"
proof -
  let ?f = "\<lambda>ids tasks. call_bind (call_wrap ''failed to load task instance data''
      (call_ext (DescribeTasks client (if cluster \<noteq> [] then Some cluster else None) ids))) (\<lambda>out.
    call_bind (call_go (log_failures (do_Failures out))) (\<lambda>_. call_go (go_fold put_task (do_Items out) tasks)))"
  obtain v arns where "call_fold ?f (windows 100 arns) [] v = Some (Inr (w', Inr tasks))"
    using assms by (auto simp: listTasks_def call_bind_iff sliceWalk_eq describeTasksWindowSize_def)
  moreover have "grouped []" by (simp add: grouped_def)
  moreover have "grouped t" if g: "grouped s" and f: "?f x s v = Some (Inr (v', Inr t))" for x s t v v'
  proof -
    obtain out :: "ecs_task describe_output" where "go_fold put_task (do_Items out) s = Inr t"
      using f by (auto simp: call_bind_iff)
    then show ?thesis using g by (rule go_fold_invariant) (rule put_task_grouped)
  qed
  ultimately show ?thesis by (rule call_fold_invariant [where P = grouped])
qed

lemma load_definition_failing:
  assumes "\<And>v. \<exists>v' err. DescribeTaskDefinition client arn v = (v', Inl err)" and "map_of defs arn = None"
    and "load_definition client a defs w = Some (Inr (w', Inr defs'))"
  shows "map_of defs' arn = None"
proof (cases "DescribeTaskDefinition client a w")
  case (Pair v r)
  show ?thesis
  proof (cases r)
    case (Inl err)
    with assms(2,3) Pair show ?thesis by (simp add: load_definition_def)
  next
    case (Inr td)
    with Pair assms(1) have "a \<noteq> arn" by (metis Inl_Inr_False prod.inject)
    with Inr assms(2,3) Pair show ?thesis by (auto simp: load_definition_def)
  qed
qed

lemma getTaskDefinitions_failing:
  assumes "\<And>v. \<exists>v' err. DescribeTaskDefinition client arn v = (v', Inl err)"
    and "getTaskDefinitions client arns w = Some (Inr (w', Inr defs))"
  shows "map_of defs arn = None"
proof (rule call_fold_invariant [where P = "\<lambda>defs. map_of defs arn = None"])
  show "call_fold (load_definition client) arns [] w = Some (Inr (w', Inr defs))"
    using assms(2) by (simp add: getTaskDefinitions_def)
qed (use load_definition_failing [OF assms(1)] in auto)

lemma getTaskDefinitions_returns: "\<exists>w' defs. getTaskDefinitions client arns w = Some (Inr (w', Inr defs))"
proof -
  have "\<exists>w' defs'. call_fold (load_definition client) arns defs w = Some (Inr (w', Inr defs'))" for defs
  proof (induction arns arbitrary: w defs)
    case Nil
    then show ?case by (simp add: call_ret_def)
  next
    case (Cons a arns)
    obtain v r where c: "DescribeTaskDefinition client a w = (v, r)" by fastforce
    obtain defs1 where "load_definition client a defs w = Some (Inr (v, Inr defs1))"
      by (cases r) (simp_all add: load_definition_def c call_ret_def)
    then show ?case using Cons by (simp add: call_bind_Some)
  qed
  then show ?thesis by (simp add: getTaskDefinitions_def)
qed

subsection \<open>The whole provider\<close>

text \<open>The loops over the tasks of a cluster.\<close>

definition add_tasks ::
    "paths \<Rightarrow> (string, task_definition option) gomap \<Rightarrow> (string, ecs_task list) gomap \<Rightarrow> provider_clusters \<Rightarrow> provider_clusters go" where
  "add_tasks ords defs tasks =
     go_fold (\<lambda>(i, _, ts). go_fold (\<lambda>(j, task). add_task (within j (within i (within 2 ords))) defs task) (List.enumerate 0 ts))
       (List.enumerate 0 (mrange (ords [1]) tasks))"

lemma add_cluster_tasks_iff:
  "add_cluster_tasks client ords cluster lc w = Some (Inr (w', Inr lc')) \<longleftrightarrow>
     (\<exists>arn name v tasks defs. ClusterArn cluster = Some arn \<and> ClusterName cluster = Some name \<and>
        listTasks client arn w = Some (Inr (v, Inr tasks)) \<and>
        getTaskDefinitions client (keys (ords [0]) tasks) v = Some (Inr (w', Inr defs)) \<and>
        add_tasks ords defs tasks lc = Inr lc')"
  unfolding add_cluster_tasks_def add_tasks_def by (auto simp: call_bind_iff)

lemma add_tasks_invariant:
  assumes "add_tasks ords defs tasks lc = Inr lc'" and "P lc"
    and "\<And>ords' task s t. add_task ords' defs task s = Inr t \<Longrightarrow> (\<exists>p. ords' [0] = ords p) \<Longrightarrow> P s \<Longrightarrow> P t"
  shows "P lc'"
  using assms(1,2) unfolding add_tasks_def
proof (rule go_fold_invariant)
  fix x s t
  assume "P s" and "(case x of (i, _, ts) \<Rightarrow> go_fold (\<lambda>(j, task). add_task (within j (within i (within 2 ords))) defs task)
      (List.enumerate 0 ts)) s = Inr t"
  then show "P t"
    by (cases x) (auto elim!: go_fold_invariant [where P = P] dest!: assms(3))
qed

lemma add_tasks_wf:
  assumes "add_tasks ords defs tasks lc = Inr lc'" and "local_wf lc" and "\<And>p. is_order (ords p)"
  shows "local_wf lc'"
  using assms(1,2) by (rule add_tasks_invariant) (metis add_task_wf assms(3))

lemma GetClusters_local_wf:
  assumes "GetClusters client ords w = Some (Inr (w', Inr pc))" and "\<And>p. is_order (ords p)"
  shows "local_wf pc"
proof -
  obtain v clusters where "call_fold (\<lambda>(i, _, cluster). add_cluster_tasks client (within i (within 1 ords)) cluster)
      (List.enumerate 0 (mrange (ords [0]) clusters)) [] v = Some (Inr (w', Inr pc))"
    using assms(1) by (auto simp: GetClusters_def call_bind_iff)
  then show ?thesis
  proof (rule call_fold_invariant [where P = local_wf])
    fix x s t v v'
    assume s: "local_wf s" and "(case x of (i, _, cluster) \<Rightarrow> add_cluster_tasks client (within i (within 1 ords)) cluster) s v
        = Some (Inr (v', Inr t))"
    then show "local_wf t"
      using assms(2) by (cases x) (auto simp: add_cluster_tasks_iff intro: add_tasks_wf [OF _ s])
  qed simp
qed

text \<open>The node of a task.\<close>

definition task_node :: "ecs_task \<Rightarrow> string option" where
  "task_node t = (case TaskArn t of None \<Rightarrow> None
     | Some arn \<Rightarrow> (case TaskArnToNodeID arn of Inl _ \<Rightarrow> None | Inr node \<Rightarrow> Some node))"

lemma go_fold_dom:
  assumes "\<And>x s t. x \<in> set xs \<Longrightarrow> f x s = Inr t \<Longrightarrow> dom (map_of t) = dom (map_of s) \<union> N x"
    and "go_fold f xs s = Inr t"
  shows "dom (map_of t) = dom (map_of s) \<union> (\<Union>x \<in> set xs. N x)"
  using assms
proof (induction xs arbitrary: s)
  case (Cons x xs)
  then obtain u where u: "f x s = Inr u" "go_fold f xs u = Inr t" by (auto simp: go_bind_eq_Inr)
  have "dom (map_of t) = dom (map_of u) \<union> (\<Union>x \<in> set xs. N x)"
    using Cons.IH [OF _ u(2)] Cons.prems(1) by simp
  then show ?case using Cons.prems(1) [OF _ u(1)] by auto
qed simp

lemma add_task_dom: "add_task ords defs task s = Inr t \<Longrightarrow> dom (map_of t) = dom (map_of s) \<union> set_option (task_node task)"
  by (erule add_task_result) (auto simp: task_node_def split: sum.splits)

lemma enumerate_Union: "(\<Union>x \<in> set (List.enumerate n xs). N (snd x)) = (\<Union>x \<in> set xs. N x)"
  by (induction xs arbitrary: n) simp_all

lemma add_tasks_dom:
  assumes "add_tasks ords defs tasks lc = Inr lc'" and "map_wf tasks" and "is_order (ords [1])"
  shows "dom (map_of lc') = dom (map_of lc) \<union> (\<Union>(_, ts) \<in> set tasks. \<Union>t \<in> set ts. set_option (task_node t))"
proof -
  let ?f = "\<lambda>(i, _, ts). go_fold (\<lambda>(j, task). add_task (within j (within i (within 2 ords))) defs task) (List.enumerate 0 ts)"
  let ?N = "\<lambda>(_ :: string, ts). \<Union>t \<in> set ts. set_option (task_node t)"
  have inner: "dom (map_of t) = dom (map_of s) \<union> ?N (snd x)" if "?f x s = Inr t" for x s t
  proof -
    obtain i arn ts where x: "x = (i, arn, ts)" by (cases x)
    have "dom (map_of t) = dom (map_of s) \<union> (\<Union>x \<in> set (List.enumerate 0 ts). set_option (task_node (snd x)))"
      by (rule go_fold_dom [where f = "\<lambda>(j, task). add_task (within j (within i (within 2 ords))) defs task"])
        (use that in \<open>auto simp: x dest!: add_task_dom\<close>)
    then show ?thesis by (simp add: x enumerate_Union [where N = "\<lambda>t. set_option (task_node t)"])
  qed
  have "dom (map_of lc') = dom (map_of lc) \<union> (\<Union>x \<in> set (List.enumerate 0 (mrange (ords [1]) tasks)). ?N (snd x))"
    by (rule go_fold_dom [where f = ?f, OF inner]) (use assms(1) in \<open>simp_all add: add_tasks_def\<close>)
  also have "\<dots> = dom (map_of lc) \<union> (\<Union>x \<in> set (mrange (ords [1]) tasks). ?N x)"
    by (simp only: enumerate_Union)
  finally show ?thesis using assms(2,3) by simp
qed

lemma add_tasks_undescribed:
  assumes "grouped tasks" and "(arn, ts) \<in> set tasks" and "map_of defs arn = None" and "is_order (ords [1])"
  shows "add_tasks ords defs tasks lc = Inl NilDereference"
proof -
  let ?g = "\<lambda>i (j, task). add_task (within j (within i (within 2 ords))) defs task"
  let ?f = "\<lambda>(i, _ :: string, ts). go_fold (?g i) (List.enumerate 0 ts)"
  have wf: "map_wf tasks" "slices_wf tasks" using assms(1) by (simp_all add: grouped_def slices_wf_def)
  then have ts: "mvals tasks arn = ts" "ts \<noteq> []" using assms(2) by (simp_all add: slices_wf_set)
  then obtain task where task: "task \<in> set ts" by (cases ts) auto
  then have def: "TaskDefinitionArn task = Some arn" using assms(1) ts by (auto simp: grouped_def)
  from ex_enumerate [OF task] obtain j where j: "(j, task) \<in> set (List.enumerate 0 ts)" ..
  have "(arn, ts) \<in> set (mrange (ords [1]) tasks)" using assms(2,4) wf by simp
  from ex_enumerate [OF this] obtain i where i: "(i, arn, ts) \<in> set (List.enumerate 0 (mrange (ords [1]) tasks))" ..
  have nil: "only_nil (?g i x)" for i x by (cases x) (simp add: only_nil_task)
  have stop: "?f (i, arn, ts) s = Inl NilDereference" for s
    unfolding prod.case
    by (rule go_fold_stops [OF j]) (auto simp: add_task_undescribed [OF def assms(3)] dest: only_nilD [OF only_nil_task])
  have "only_nil (?f x)" for x
    by (cases x) (simp only: prod.case only_nil_fold [OF nil])
  note f = only_nilD [OF this]
  show ?thesis
    unfolding add_tasks_def by (rule go_fold_stops [where f = ?f, OF i stop]) (rule f)
qed

text \<open>Only the listings can keep the provider from ending.\<close>

lemma GetClusters_ends:
  assumes "\<And>token w. \<exists>n. follow (ListClusters client) n token w = None"
    and "\<And>arn token w. \<exists>n. follow (ListTasks client arn) n token w = None"
  shows "ends (GetClusters client ords)"
proof -
  have "ends (pages (ListClusters client) None [])" "ends (pages (ListTasks client arn) None [])" for arn
    by (simp_all only: ends_def pages_end_iff assms simp_thms)
  then have l: "ends (listClusterArns client)" "ends (listTaskArns client arn)" for arn
    by (simp_all add: listClusterArns_def listTaskArns_def ends_wrap)
  have w: "ends (sliceWalk sz input fn m)" if "\<And>ids m. ends (fn ids m)" for sz input fn m
    by (simp add: sliceWalk_eq ends_fold that)
  have "ends (listClusters client)"
    unfolding listClusters_def by (intro ends_bind l w) (simp_all add: ends_wrap)
  moreover have "ends (listTasks client arn)" for arn
    unfolding listTasks_def by (intro ends_bind l w) (simp_all add: ends_wrap)
  moreover have "ends (getTaskDefinitions client arns)" for arns
    unfolding ends_def using getTaskDefinitions_returns by (metis option.discI)
  ultimately show ?thesis
    unfolding GetClusters_def add_cluster_tasks_def
    by (intro ends_bind ends_fold) (auto intro!: ends_bind split: prod.split)
qed

subsection \<open>The tasks behind the nodes\<close>

text \<open>
  The answers of the service that a call of \<open>GetClusters\<close> collects: the tasks of each cluster,
  grouped by their definition, and the definitions that could be described.
\<close>

type_synonym account_tasks = "((string, ecs_task list) gomap \<times> (string, task_definition option) gomap) list"

definition read_cluster :: "'w ecs_client \<Rightarrow> paths \<Rightarrow> ecs_cluster \<Rightarrow> account_tasks \<Rightarrow> ('w, account_tasks) calls" where
  "read_cluster client ords cluster listed =
     call_bind (call_go (deref (ClusterArn cluster))) (\<lambda>arn.
       call_bind (listTasks client arn) (\<lambda>tasks.
         call_bind (getTaskDefinitions client (keys (ords [0]) tasks)) (\<lambda>defs. call_ret (listed @ [(tasks, defs)]))))"

definition read_account :: "'w ecs_client \<Rightarrow> paths \<Rightarrow> ('w, account_tasks) calls" where
  "read_account client ords =
     call_bind (listClusters client) (\<lambda>clusters.
       call_fold (\<lambda>(i, _, cluster). read_cluster client (within i (within 1 ords)) cluster)
         (List.enumerate 0 (mrange (ords [0]) clusters)) [])"

text \<open>A task that is listed, with the definitions known for its cluster.\<close>

definition lists_task :: "account_tasks \<Rightarrow> ecs_task \<Rightarrow> (string, task_definition option) gomap \<Rightarrow> bool" where
  "lists_task listed task defs \<longleftrightarrow> (\<exists>tasks. (tasks, defs) \<in> set listed \<and> (\<exists>(_, ts) \<in> set tasks. task \<in> set ts))"

text \<open>\<open>cs\<close> are the services that \<open>findEndpoints\<close> finds for a listed task of the node.\<close>

definition from_task :: "account_tasks \<Rightarrow> string \<Rightarrow> cluster list \<Rightarrow> bool" where
  "from_task listed node cs \<longleftrightarrow> (\<exists>task defs arn td os services ord.
     lists_task listed task defs \<and> task_node task = Some node \<and> TaskDefinitionArn task = Some arn \<and>
     map_of defs arn = Some (Some td) \<and> (\<forall>p. is_order (os p)) \<and> is_order ord \<and>
     findEndpoints os task (Some td) = Inr (Inr services) \<and> cs = clusters_from ord services)"

definition task_nodes :: "account_tasks \<Rightarrow> string set" where
  "task_nodes listed = {node. \<exists>task defs. lists_task listed task defs \<and> task_node task = Some node}"

lemma lists_task_snoc:
  "lists_task (listed @ [(tasks, defs)]) task d \<longleftrightarrow>
     lists_task listed task d \<or> d = defs \<and> (\<exists>(_, ts) \<in> set tasks. task \<in> set ts)"
  by (auto simp: lists_task_def)

lemma lists_task_mono: "lists_task listed task d \<Longrightarrow> lists_task (listed @ [r]) task d"
  by (auto simp: lists_task_def)

lemma from_taskI:
  "lists_task listed task defs \<Longrightarrow> task_node task = Some node \<Longrightarrow> TaskDefinitionArn task = Some arn \<Longrightarrow>
   map_of defs arn = Some (Some td) \<Longrightarrow> (\<And>p. is_order (os p)) \<Longrightarrow> is_order ord \<Longrightarrow>
   findEndpoints os task (Some td) = Inr (Inr services) \<Longrightarrow> from_task listed node (clusters_from ord services)"
  unfolding from_task_def by (rule exI)+ (intro conjI allI, assumption+, rule refl)

lemma from_task_snoc: "from_task listed node cs \<Longrightarrow> from_task (listed @ [r]) node cs"
  unfolding from_task_def [of listed] by (elim exE conjE) (simp, rule from_taskI, erule lists_task_mono, assumption, assumption, assumption, erule spec, assumption+)

lemma task_nodes_snoc:
  "task_nodes (listed @ [(tasks, defs)]) =
     task_nodes listed \<union> (\<Union>(_, ts) \<in> set tasks. \<Union>t \<in> set ts. set_option (task_node t))"
  unfolding task_nodes_def lists_task_snoc by (auto simp: case_prod_beta' elem_set)

lemma add_task_from:
  assumes "add_task ords defs task lc = Inr lc'" and "map_of lc' node = Some cs" and "\<And>p. is_order (ords p)"
    and "lists_task listed task defs"
  shows "map_of lc node = Some cs \<or> from_task listed node cs"
proof (rule add_task_result [OF assms(1)])
  fix arn td taskArn services
  assume t: "TaskDefinitionArn task = Some arn" "map_of defs arn = Some (Some td)" "TaskArn task = Some taskArn"
      "findEndpoints (within 1 ords) task (Some td) = Inr (Inr services)"
    and m: "map_of lc' = (case TaskArnToNodeID taskArn of Inl _ \<Rightarrow> map_of lc
      | Inr n \<Rightarrow> (map_of lc)(n \<mapsto> clusters_from (ords [0]) services))"
  show "map_of lc node = Some cs \<or> from_task listed node cs"
  proof (cases "TaskArnToNodeID taskArn")
    case (Inl e)
    with m assms(2) show ?thesis by simp
  next
    case (Inr n)
    have "from_task listed n (clusters_from (ords [0]) services)"
      by (rule from_taskI [OF assms(4) _ t(1,2) _ _ t(4)]) (simp_all add: task_node_def t(3) Inr assms(3))
    with Inr m assms(2) show ?thesis by (simp split: if_splits)
  qed
qed

lemma add_tasks_from:
  assumes "add_tasks ords defs tasks lc = Inr lc'" and "map_wf tasks" and "\<And>p. is_order (ords p)"
    and "map_of lc' node = Some cs"
  shows "map_of lc node = Some cs \<or> from_task (listed @ [(tasks, defs)]) node cs"
proof -
  let ?P = "\<lambda>m. map_of m node = Some cs \<longrightarrow> map_of lc node = Some cs \<or> from_task (listed @ [(tasks, defs)]) node cs"
  have "?P lc'"
    using assms(1) unfolding add_tasks_def
  proof (rule go_fold_invariant)
    fix x s t
    assume x: "x \<in> set (List.enumerate 0 (mrange (ords [1]) tasks))" and s: "?P s"
      and f: "(case x of (i, _, ts) \<Rightarrow> go_fold (\<lambda>(j, task). add_task (within j (within i (within 2 ords))) defs task)
        (List.enumerate 0 ts)) s = Inr t"
    obtain i arn ts where xs: "x = (i, arn, ts)" by (cases x)
    have "(arn, ts) \<in> set (mrange (ords [1]) tasks)"
      using x by (auto simp: xs enumerate_eq_zip dest: set_zip_rightD)
    then have ts: "(arn, ts) \<in> set tasks" using assms(2,3) by simp
    from f [unfolded xs prod.case] show "?P t"
    proof (rule go_fold_invariant)
      fix y u v
      assume y: "y \<in> set (List.enumerate 0 ts)" and u: "?P u"
        and a: "(case y of (j, task) \<Rightarrow> add_task (within j (within i (within 2 ords))) defs task) u = Inr v"
      have "snd y \<in> set ts" using y set_zip_rightD [of "fst y" "snd y"] by (simp add: enumerate_eq_zip)
      with ts have l: "lists_task (listed @ [(tasks, defs)]) (snd y) defs" by (auto simp: lists_task_snoc)
      have "add_task (within (fst y) (within i (within 2 ords))) defs (snd y) u = Inr v" using a by (cases y) simp
      from add_task_from [OF this _ _ l] assms(3) u show "?P v" by auto
    qed (rule s)
  qed simp
  with assms(4) show ?thesis by blast
qed

lemma call_fold_simulation:
  assumes "call_fold f xs s w = Some (Inr (w', Inr t))" and "R s a"
    and "\<And>x s a w w' t. R s a \<Longrightarrow> f x s w = Some (Inr (w', Inr t)) \<Longrightarrow> \<exists>b. g x a w = Some (Inr (w', Inr b)) \<and> R t b"
  shows "\<exists>b. call_fold g xs a w = Some (Inr (w', Inr b)) \<and> R t b"
  using assms(1,2)
proof (induction xs arbitrary: s a w)
  case (Cons x xs)
  then obtain v u where u: "f x s w = Some (Inr (v, Inr u))" "call_fold f xs u v = Some (Inr (w', Inr t))"
    by (auto simp: call_bind_iff)
  from assms(3) [OF Cons.prems(2) u(1)] obtain b where b: "g x a w = Some (Inr (v, Inr b))" "R u b" by blast
  from Cons.IH [OF u(2) b(2)] b(1) show ?case by (auto simp: call_bind_iff)
qed (auto simp: call_ret_def)

lemma add_cluster_tasks_read:
  assumes "add_cluster_tasks client ords cluster lc w = Some (Inr (w', Inr lc'))" and "\<And>p. is_order (ords p)"
    and "dom (map_of lc) = task_nodes listed" and "\<And>node cs. map_of lc node = Some cs \<Longrightarrow> from_task listed node cs"
  shows "\<exists>listed'. read_cluster client ords cluster listed w = Some (Inr (w', Inr listed')) \<and>
    dom (map_of lc') = task_nodes listed' \<and> (\<forall>node cs. map_of lc' node = Some cs \<longrightarrow> from_task listed' node cs)"
proof -
  obtain arn v tasks defs where c: "ClusterArn cluster = Some arn" "listTasks client arn w = Some (Inr (v, Inr tasks))"
      "getTaskDefinitions client (keys (ords [0]) tasks) v = Some (Inr (w', Inr defs))"
    and a: "add_tasks ords defs tasks lc = Inr lc'"
    using assms(1) by (auto simp: add_cluster_tasks_iff)
  have wf: "map_wf tasks" using listTasks_grouped [OF c(2)] by (simp add: grouped_def slices_wf_def)
  have "read_cluster client ords cluster listed w = Some (Inr (w', Inr (listed @ [(tasks, defs)])))"
    by (auto simp: read_cluster_def call_bind_iff c)
  moreover have "dom (map_of lc') = task_nodes (listed @ [(tasks, defs)])"
    unfolding add_tasks_dom [OF a wf assms(2)] task_nodes_snoc assms(3) ..
  moreover have "from_task (listed @ [(tasks, defs)]) node cs" if "map_of lc' node = Some cs" for node cs
    using add_tasks_from [OF a wf assms(2) that] assms(4) from_task_snoc by blast
  ultimately show ?thesis by blast
qed

lemma GetClusters_read:
  assumes "GetClusters client ords w = Some (Inr (w', Inr pc))" and "\<And>p. is_order (ords p)"
  obtains listed where "read_account client ords w = Some (Inr (w', Inr listed))" and "fst ` set pc = task_nodes listed"
    and "\<And>node cs. (node, cs) \<in> set pc \<Longrightarrow> from_task listed node cs"
proof -
  let ?R = "\<lambda>lc listed. dom (map_of lc) = task_nodes listed \<and> (\<forall>node cs. map_of lc node = Some cs \<longrightarrow> from_task listed node cs)"
  obtain v clusters where l: "listClusters client w = Some (Inr (v, Inr clusters))"
    and f: "call_fold (\<lambda>(i, _, cluster). add_cluster_tasks client (within i (within 1 ords)) cluster)
      (List.enumerate 0 (mrange (ords [0]) clusters)) [] v = Some (Inr (w', Inr pc))"
    using assms(1) by (auto simp: GetClusters_def call_bind_iff)
  have "\<exists>listed. call_fold (\<lambda>(i, _, cluster). read_cluster client (within i (within 1 ords)) cluster)
      (List.enumerate 0 (mrange (ords [0]) clusters)) [] v = Some (Inr (w', Inr listed)) \<and> ?R pc listed"
  proof (rule call_fold_simulation [where R = ?R, OF f])
    show "?R [] []" by (simp add: task_nodes_def lists_task_def)
    fix x s a u u' t
    assume "?R s a" and "(case x of (i, _, cluster) \<Rightarrow> add_cluster_tasks client (within i (within 1 ords)) cluster) s u
        = Some (Inr (u', Inr t))"
    then show "\<exists>b. (case x of (i, _, cluster) \<Rightarrow> read_cluster client (within i (within 1 ords)) cluster) a u
        = Some (Inr (u', Inr b)) \<and> ?R t b"
      by (cases x) (auto intro!: add_cluster_tasks_read simp: assms(2))
  qed
  then obtain listed where r: "read_account client ords w = Some (Inr (w', Inr listed))" and R: "?R pc listed"
    by (auto simp: read_account_def call_bind_iff l)
  have wf: "map_wf pc" using GetClusters_local_wf [OF assms] by (simp add: local_wf_def)
  show thesis
    by (rule that [OF r]) (use R wf in \<open>auto simp: dom_map_of_conv_image_fst map_wf_lookup\<close>)
qed

subsection \<open>A sample account\<close>

definition sample_definition :: task_definition where
  "sample_definition = \<lparr>ContainerDefinitions = [\<lparr>DockerLabels =
     [(''envoy.service.echo'', Some ''echo:3000''), (''envoy.service.echo.annotations.healthcheck.path'', Some ''/h'')]\<rparr>]\<rparr>"

definition sample_task :: ecs_task where
  "sample_task = \<lparr>TaskArn = Some ''arn:aws:ecs:eu-central-1:1:task/web/7f'', TaskDefinitionArn = Some ''def:1'',
     Containers = [\<lparr>co_Name = Some ''echo'', NetworkInterfaces = [\<lparr>PrivateIpv4Address = Some ''10.0.0.7''\<rparr>]\<rparr>]\<rparr>"

text \<open>An account with one cluster and one task; the task definition can be described or not.\<close>

definition sample_client :: "bool \<Rightarrow> unit ecs_client" where
  "sample_client described = \<lparr>
     ListClusters = (\<lambda>_ w. (w, Inr \<lparr>lo_Arns = [''arn:c''], NextToken = None\<rparr>)),
     DescribeClusters = (\<lambda>_ w. (w, Inr \<lparr>do_Items = [\<lparr>ClusterArn = Some ''arn:c'', ClusterName = Some ''c''\<rparr>], do_Failures = []\<rparr>)),
     ListTasks = (\<lambda>_ _ w. (w, Inr \<lparr>lo_Arns = [''arn:t''], NextToken = None\<rparr>)),
     DescribeTasks = (\<lambda>_ _ w. (w, Inr \<lparr>do_Items = [sample_task], do_Failures = []\<rparr>)),
     DescribeTaskDefinition = (\<lambda>_ w. (w, if described then Inr (Some sample_definition) else Inl (External ''throttled'')))\<rparr>"

lemma sample_pages:
  "pages (ListClusters (sample_client b)) None [] w = Some (Inr (w, Inr [''arn:c'']))"
  "pages (ListTasks (sample_client b) arn) None [] w = Some (Inr (w, Inr [''arn:t'']))"
  by (simp_all add: pages.simps [of _ None] sample_client_def)

lemma windows_short: "xs \<noteq> [] \<Longrightarrow> length xs \<le> n \<Longrightarrow> windows n xs = [xs]"
proof -
  assume xs: "xs \<noteq> []" "length xs \<le> n"
  then have "n \<noteq> 0" by (cases xs) auto
  then show ?thesis using xs by (simp add: windows.simps [of n xs] windows.simps [of n "[]"])
qed

lemma sample_descriptions:
  "DescribeClusters (sample_client b) ids w = (w, Inr \<lparr>do_Items = [\<lparr>ClusterArn = Some ''arn:c'', ClusterName = Some ''c''\<rparr>], do_Failures = []\<rparr>)"
  "DescribeTasks (sample_client b) cl ids w = (w, Inr \<lparr>do_Items = [sample_task], do_Failures = []\<rparr>)"
  by (simp_all add: sample_client_def)

lemma sample_listTasks:
  "listTasks (sample_client b) ''arn:c'' w = Some (Inr (w, Inr [(''def:1'', [sample_task])]))"
  by (simp add: listTasks_def listTaskArns_def call_bind_def sample_pages sliceWalk_eq describeTasksWindowSize_def
      windows_short call_wrap_def call_ext_def sample_descriptions log_failures_def call_go_def call_ret_def
      put_task_def sample_task_def mappend_def mvals_def mput_def)

definition sample_services :: "(string, endpoint list) gomap" where
  "sample_services = [(''echo'', [\<lparr>ep_Address = ''10.0.0.7'',
     ep_Annotations = [(''healthcheck.path'', ''/h'')], ep_Port = 3000\<rparr>])]"

lemma sample_labels:
  "Split ''echo:3000'' '':'' = [''echo'', ''3000'']" "Split ''/h'' '':'' = [''/h'']" "Atoi ''3000'' = Some 3000"
  "TrimPrefix ''envoy.service.echo'' ''envoy.service.'' = ''echo''"
  "TrimPrefix ''envoy.service.echo.annotations.healthcheck.path'' ''envoy.service.'' = ''echo.annotations.healthcheck.path''"
  "TrimPrefix ''envoy.service.echo'' ''envoy.service.echo.annotations.'' = ''envoy.service.echo''"
  "TrimPrefix ''envoy.service.echo.annotations.healthcheck.path'' ''envoy.service.echo.annotations.'' = ''healthcheck.path''"
  by (simp_all add: GoStrings.Split_def HasPrefix_def TrimPrefix_def parse_magnitude_def is_digit_def digit_val_def)

lemma sample_targets:
  "findTaskTargets (\<lambda>_. id) (Some sample_definition) = Inr (Inr [(''echo'', [\<lparr>tt_ClusterName = ''echo'',
     tt_Annotations = [(''healthcheck.path'', ''/h'')], tt_Port = 3000\<rparr>])])"
  by (simp add: findTaskTargets_def sample_definition_def mrange_def add_target_def servicePrefix_def sample_labels
      stripKeyPrefix_def strip_label_def mappend_def mvals_def mput_def Let_def del: ParseInt.simps)

lemma sample_findEndpoints:
  "findEndpoints (\<lambda>_. id) sample_task (Some sample_definition) = Inr (Inr sample_services)"
  by (simp add: findEndpoints_def sample_targets sample_task_def add_container_def add_nic_def sample_services_def
      mappend_def mvals_def mput_def)

lemma sample_node: "TaskArnToNodeID ''arn:aws:ecs:eu-central-1:1:task/web/7f'' = Inr ''web/7f''"
  by (simp add: TaskArnToNodeID_def GoStrings.Split_def HasPrefix_def)

lemma sample_getTaskDefinitions:
  "getTaskDefinitions (sample_client True) [''def:1''] w = Some (Inr (w, Inr [(''def:1'', Some sample_definition)]))"
  by (simp add: getTaskDefinitions_def call_bind_def load_definition_def sample_client_def call_ret_def mput_def)

lemma sample_listClusters:
  "listClusters (sample_client b) w = Some (Inr (w, Inr [(''arn:c'', \<lparr>ClusterArn = Some ''arn:c'', ClusterName = Some ''c''\<rparr>)]))"
  by (simp add: listClusters_def listClusterArns_def call_bind_def sample_pages sliceWalk_eq describeClustersWindowSize_def
      windows_short call_wrap_def call_ext_def sample_descriptions log_failures_def call_go_def call_ret_def
      put_cluster_def mput_def)

lemma sample_add_task:
  "add_task (\<lambda>_. id) [(''def:1'', Some sample_definition)] sample_task [] =
     Inr [(''web/7f'', clusters_from id sample_services)]"
proof -
  have t: "TaskDefinitionArn sample_task = Some ''def:1''" "TaskArn sample_task = Some ''arn:aws:ecs:eu-central-1:1:task/web/7f''"
    by (simp_all add: sample_task_def)
  show ?thesis
    by (simp add: add_task_def t sample_findEndpoints sample_node sample_services_def clusters_from_def mrange_def
        mappend_def mvals_def mput_def)
qed

lemma sample_cluster_tasks:
  "add_cluster_tasks (sample_client True) (\<lambda>_. id) \<lparr>ClusterArn = Some ''arn:c'', ClusterName = Some ''c''\<rparr> [] () =
     Some (Inr ((), Inr [(''web/7f'', clusters_from id sample_services)]))"
  by (simp add: add_cluster_tasks_def call_bind_def call_go_def mrange_def sample_listTasks keys_def
      sample_getTaskDefinitions sample_add_task)

lemma sample_GetClusters:
  "GetClusters (sample_client True) (\<lambda>_. id) () = Some (Inr ((), Inr [(''web/7f'', clusters_from id sample_services)]))"
  by (simp add: GetClusters_def call_bind_def sample_listClusters mrange_def sample_cluster_tasks call_ret_def)

lemma sample_read_account:
  "read_account (sample_client True) (\<lambda>_. id) () =
     Some (Inr ((), Inr [([(''def:1'', [sample_task])], [(''def:1'', Some sample_definition)])]))"
  by (simp add: read_account_def read_cluster_def call_bind_def call_go_def call_ret_def sample_listClusters mrange_def
      sample_listTasks keys_def sample_getTaskDefinitions)

subsection \<open>Properties\<close>

text \<open>
  C16. The node identifier of a task ARN \<open><prefix>:task/<id>\<close> is \<open><id>\<close>, that of the long form
  \<open><prefix>:task/<cluster>/<id>\<close> is \<open><cluster>/<id>\<close> unless the name of the cluster ends in
  \<open>task\<close>: then the separator occurs twice and all tasks of the cluster get the same identifier,
  the rest of the cluster's name. An ARN is refused exactly when it has no \<open>task/\<close>.
\<close>
theorem task_node_id:
  assumes "CHR ''/'' \<notin> set pre" and "CHR ''/'' \<notin> set cl" and "CHR ''/'' \<notin> set uuid"
  shows "TaskArnToNodeID (pre @ ''task/'' @ uuid) = Inr uuid \<and>
    ((\<nexists>a. cl = a @ ''task'') \<longrightarrow> TaskArnToNodeID (pre @ ''task/'' @ cl @ ''/'' @ uuid) = Inr (cl @ ''/'' @ uuid)) \<and>
    TaskArnToNodeID (pre @ ''task/'' @ (cl @ ''task'') @ ''/'' @ uuid) = Inr cl \<and>
    (TaskArnToNodeID arn = Inl (InvalidTaskArn arn) \<longleftrightarrow> (\<nexists>a b. arn = a @ ''task/'' @ b))"
proof -
  have "TaskArnToNodeID (pre @ ''task/'' @ uuid) = Inr uuid"
    unfolding TaskArnToNodeID_def Split_task [OF assms(1)] by (simp add: Split_task_plain assms(3))
  moreover have "TaskArnToNodeID (pre @ ''task/'' @ cl @ ''/'' @ uuid) = Inr (cl @ ''/'' @ uuid)" if "\<nexists>a. cl = a @ ''task''"
    unfolding TaskArnToNodeID_def Split_task [OF assms(1)] using Split_task_long [OF assms(2,3) that] by simp
  moreover have "TaskArnToNodeID (pre @ ''task/'' @ cl @ ''task/'' @ uuid) = Inr cl"
    unfolding TaskArnToNodeID_def Split_task [OF assms(1)] Split_task [OF assms(2)] by simp
  moreover have "TaskArnToNodeID arn = Inl (InvalidTaskArn arn) \<longleftrightarrow> (\<nexists>a b. arn = a @ ''task/'' @ b)"
    using Split_two_iff [of "''task/''" arn] by (simp add: TaskArnToNodeID_def Let_def)
  ultimately show ?thesis by simp
qed

theorem task_node_id_witness:
  "TaskArnToNodeID (''arn:1:'' @ ''task/'' @ (''web-'' @ ''task'') @ ''/'' @ ''7f'') = Inr ''web-'' \<and>
   TaskArnToNodeID (''arn:1:'' @ ''task/'' @ (''web-'' @ ''task'') @ ''/'' @ ''80'') = Inr ''web-''"
  using task_node_id [of "''arn:1:''" "''web-''" "''7f''"] task_node_id [of "''arn:1:''" "''web-''" "''80''"] by simp

text \<open>
  C17. Walking a slice in windows: for a positive window size the callback sees consecutive
  non-empty windows of at most that size, in order, which together are the input, and the walk
  ends at its first error; other sizes are an error before any call.
\<close>
theorem sliceWalk_windows:
  "sliceWalk windowSz input fn m =
     (if windowSz < 1 then call_err BadWindowSize else call_fold fn (windows (nat windowSz) input) m) \<and>
   (1 \<le> windowSz \<longrightarrow> concat (windows (nat windowSz) input) = input \<and>
     (\<forall>win \<in> set (windows (nat windowSz) input). 1 \<le> length win \<and> int (length win) \<le> windowSz))"
proof -
  have "int (length win) \<le> windowSz" if "1 \<le> windowSz" "win \<in> set (windows (nat windowSz) input)" for win
    using length_windows [OF that(2)] that(1) by linarith
  then show ?thesis
    using length_windows [of _ "nat windowSz" input] by (simp add: sliceWalk_eq concat_windows)
qed

theorem sliceWalk_windows_witness:
  "sliceWalk 2 [''a'', ''b'', ''c''] (\<lambda>win n. call_ret (n + length win)) 0 () = Some (Inr ((), Inr (3 :: nat)))"
proof -
  have "windows 2 [''a'', ''b'', ''c''] = [[''a'', ''b''], [''c'']]"
    by (simp add: windows.simps [of 2])
  with sliceWalk_windows [of 2 "[''a'', ''b'', ''c'']" "\<lambda>win n. call_ret (n + length win) :: (unit, nat) calls" 0] show ?thesis
    by (simp add: call_ret_def numeral_3_eq_3)
qed

text \<open>
  C18. The listings follow the tokens: they come back exactly when after some number of pages
  the service answers with an error or without a next token, and what they return is the
  concatenation of the pages of a complete listing.
\<close>
theorem listing_ends:
  "(listClusterArns client w \<noteq> None \<longleftrightarrow> (\<exists>n. follow (ListClusters client) n None w = None)) \<and>
   (listTaskArns client cluster w \<noteq> None \<longleftrightarrow> (\<exists>n. follow (ListTasks client cluster) n None w = None)) \<and>
   (listClusterArns client w = Some (Inr (w', Inr arns)) \<longleftrightarrow>
      (\<exists>ps. lists (ListClusters client) None w ps w' \<and> arns = concat ps)) \<and>
   (listTaskArns client cluster w = Some (Inr (w', Inr arns)) \<longleftrightarrow>
      (\<exists>ps. lists (ListTasks client cluster) None w ps w' \<and> arns = concat ps))"
proof -
  have "listClusterArns client w \<noteq> None \<longleftrightarrow> pages (ListClusters client) None [] w \<noteq> None"
    unfolding listClusterArns_def call_wrap_def by (auto split: option.split sum.split prod.split)
  then show ?thesis
    by (simp only: pages_end_iff listTaskArns_def) (simp add: listClusterArns_def pages_iff)
qed

text \<open>
  C19. The endpoints of a task: for each service they are, as a set, exactly one for each
  address of a container and label that declares the service for it, with the declared port
  and the annotations found under the label, and there is no service without endpoints.
\<close>
theorem endpoints_of_task:
  assumes "findEndpoints ords task (Some td) = Inr (Inr services)" and "labels_wf td" and "\<And>p. is_order (ords p)"
  shows "(\<forall>svc. endpoint_view ` set (mvals services svc) =
      {(ip, port, ann). \<exists>co \<in> set (Containers task). \<exists>name. co_Name co = Some name \<and> has_ip co ip \<and>
         declares td name svc port ann}) \<and>
    (\<forall>svc. map_of services svc \<noteq> Some [])"
proof (rule findEndpoints_view [OF assms])
  fix services'
  assume s: "Inr services = (Inr services' :: go_error + (string, endpoint list) gomap)" "slices_wf services'"
    and v: "\<And>svc. endpoint_view ` set (mvals services' svc) =
      {(ip, port, ann). \<exists>co \<in> set (Containers task). \<exists>name. co_Name co = Some name \<and> has_ip co ip \<and>
         declares td name svc port ann}"
  from s have "services' = services" by simp
  with s(2) show ?thesis by (simp add: v [unfolded \<open>services' = services\<close>] slices_wf_def)
qed

theorem endpoints_of_task_witness:
  "endpoint_view ` set (mvals sample_services ''echo'') =
    {(ip, port, ann). \<exists>co \<in> set (Containers sample_task). \<exists>name. co_Name co = Some name \<and> has_ip co ip \<and>
       declares sample_definition name ''echo'' port ann}"
  using endpoints_of_task [OF sample_findEndpoints] by (simp add: labels_wf_def sample_definition_def map_wf_def)

text \<open>
  C20. What the provider returns is well-formed, whatever the account holds and in whatever
  order maps are visited: it is a Go map, the clusters of a node have distinct names, each has
  an endpoint, and the annotations are Go maps, as the updater needs.
\<close>
theorem get_clusters_wf:
  assumes "GetClusters client ords w = Some (Inr (w', Inr pc))" and "\<And>p. is_order (ords p)"
  shows "provider_wf pc \<and> (\<forall>node cs. map_of pc node = Some cs \<longrightarrow> distinct (map clu_Name cs) \<and>
     (\<forall>c \<in> set cs. clu_Endpoints c \<noteq> []))"
  using GetClusters_local_wf [OF assms] local_wf_provider by (auto simp: local_wf_def)

theorem get_clusters_wf_witness: "provider_wf [(''web/7f'', clusters_from id sample_services)]"
  using get_clusters_wf [OF sample_GetClusters] by simp

text \<open>
  C21. The nodes are the tasks: a cluster adds exactly one node for each identifier of its
  running tasks, also for tasks without services, and keeps the nodes found before.
\<close>
theorem cluster_nodes:
  assumes "add_cluster_tasks client ords cluster lc w = Some (Inr (w', Inr lc'))" and "\<And>p. is_order (ords p)"
  shows "\<exists>arn v tasks. ClusterArn cluster = Some arn \<and> listTasks client arn w = Some (Inr (v, Inr tasks)) \<and>
    dom (map_of lc') = dom (map_of lc) \<union> {node. \<exists>(_, ts) \<in> set tasks. \<exists>t \<in> set ts. task_node t = Some node}"
proof -
  obtain arn v tasks defs where arn: "ClusterArn cluster = Some arn" "listTasks client arn w = Some (Inr (v, Inr tasks))"
    and a: "add_tasks ords defs tasks lc = Inr lc'"
    using assms(1) by (auto simp: add_cluster_tasks_iff)
  have wf: "map_wf tasks" using listTasks_grouped [OF arn(2)] by (simp add: grouped_def slices_wf_def)
  have "(\<Union>(_, ts) \<in> set tasks. \<Union>t \<in> set ts. set_option (task_node t)) =
      {node. \<exists>(_, ts) \<in> set tasks. \<exists>t \<in> set ts. task_node t = Some node}"
    by (auto simp: case_prod_beta' elem_set)
  with add_tasks_dom [OF a wf assms(2)] arn show ?thesis by auto
qed

theorem cluster_nodes_witness:
  "\<exists>lc'. add_cluster_tasks (sample_client True) (\<lambda>_. id) \<lparr>ClusterArn = Some ''arn:c'', ClusterName = Some ''c''\<rparr> [] () =
      Some (Inr ((), Inr lc')) \<and> ''web/7f'' \<in> dom (map_of lc')"
proof -
  have "task_node sample_task = Some ''web/7f''" by (simp add: task_node_def sample_task_def sample_node)
  with cluster_nodes [OF sample_cluster_tasks] sample_cluster_tasks show ?thesis by (auto simp: sample_listTasks)
qed

text \<open>
  C22. A task definition that cannot be described stops the process: the failed call is skipped,
  and the tasks that run the definition then dereference a nil pointer.
\<close>
theorem undescribed_definition_panics:
  assumes "ClusterArn cluster = Some arn" and "listTasks client arn w = Some (Inr (v, Inr tasks))"
    and "(def_arn, ts) \<in> set tasks" and "\<And>u. \<exists>u' err. DescribeTaskDefinition client def_arn u = (u', Inl err)"
    and "\<And>p. is_order (ords p)"
  shows "add_cluster_tasks client ords cluster lc w = Some (Inl NilDereference)"
proof -
  obtain u defs where d: "getTaskDefinitions client (keys (ords [0]) tasks) v = Some (Inr (u, Inr defs))"
    using getTaskDefinitions_returns [of client "keys (ords [0]) tasks" v] by blast
  have "map_of defs def_arn = None" by (rule getTaskDefinitions_failing [OF assms(4) d])
  then have "add_tasks ords defs tasks lc = Inl NilDereference"
    by (rule add_tasks_undescribed [OF listTasks_grouped [OF assms(2)] assms(3)]) (rule assms(5))
  then show ?thesis
    using assms(1,2) d unfolding add_cluster_tasks_def add_tasks_def
    by (cases "ClusterName cluster") (simp_all add: call_bind_def call_go_def)
qed

theorem undescribed_definition_panics_witness:
  "add_cluster_tasks (sample_client False) (\<lambda>_. id) \<lparr>ClusterArn = Some ''arn:c'', ClusterName = Some ''c''\<rparr> [] () =
     Some (Inl NilDereference)"
proof (rule undescribed_definition_panics [OF _ sample_listTasks])
  show "(''def:1'', [sample_task]) \<in> set [(''def:1'', [sample_task])]" by simp
qed (simp_all add: sample_client_def)

text \<open>
  C23. The provider always comes back, with clusters, an error or a panic, when the listings
  of the service are finite: every chain of next tokens ends.
\<close>
theorem get_clusters_ends:
  assumes "\<And>token w. \<exists>n. follow (ListClusters client) n token w = None"
    and "\<And>arn token w. \<exists>n. follow (ListTasks client arn) n token w = None"
  shows "\<exists>r. GetClusters client ords w = Some r"
  using GetClusters_ends [OF assms, of ords] by (simp add: ends_def)

theorem get_clusters_ends_witness: "\<exists>r. GetClusters (sample_client False) (\<lambda>_. rev) () = Some r"
  by (rule get_clusters_ends) (auto simp: sample_client_def intro: exI [of _ "Suc 0"])

end
