(* ===== verification/Providers.thy ===== *)
theory Providers
  imports FileProvider FargateSpec Publish
begin

text \<open>
  The interface \<open>provider.ServiceProvider\<close> of \<open>pkg/provider/provider.go\<close>, which the updater polls,
  as the locale \<open>service_provider\<close>: what a provider returns is a well-formed map of clusters. The
  lemmas about a turn of the updater are proved once, for every provider, and hold for the file
  and the Fargate provider by interpretation.
\<close>

text \<open>
  The body of the loop of \<open>Updater.Run\<close> with the call of the provider: it may not come back or
  panic, and an error of the provider skips the turn.
\<close>

definition Updater_turn ::
    "('w, provider_clusters) calls \<Rightarrow> ('e \<Rightarrow> string \<Rightarrow> snapshot \<Rightarrow> 's \<Rightarrow> 's go) \<Rightarrow> protobuf \<Rightarrow> 'e poll_env
     \<Rightarrow> 'w \<times> 's \<Rightarrow> ('w \<times> 's) go option" where
  "Updater_turn getClusters setSnapshot pb env = (\<lambda>(w, s).
     case getClusters w of
       None \<Rightarrow> None
     | Some (Inl stop) \<Rightarrow> Some (Inl stop)
     | Some (Inr (w', result)) \<Rightarrow>
         (case Updater_poll setSnapshot pb env result s of
            Inl stop \<Rightarrow> Some (Inl stop)
          | Inr s' \<Rightarrow> Some (Inr (w', s'))))"

locale service_provider =
  fixes getClusters :: "'p \<Rightarrow> ('w, provider_clusters) calls"
    and ok :: "'p \<Rightarrow> bool"
  assumes get_wf: "ok p \<Longrightarrow> getClusters p w = Some (Inr (w', Inr pc)) \<Longrightarrow> provider_wf pc"
begin

lemma turn_error:
  assumes "getClusters p w = Some (Inr (w', Inl err))"
  shows "Updater_turn (getClusters p) setSnapshot pb env (w, s) = Some (Inr (w', s))"
  using assms by (simp add: Updater_turn_def Updater_poll_def)

lemma turn_poll:
  assumes "getClusters p w = Some (Inr (w', Inr pc))"
    and "Updater_poll setSnapshot pb env (Inr pc) s = Inr s'"
  shows "Updater_turn (getClusters p) setSnapshot pb env (w, s) = Some (Inr (w', s'))"
  using assms by (simp add: Updater_turn_def)

text \<open>A status range is the only thing in a provider's answer that stops the updater.\<close>

lemma turn_returns_iff:
  assumes "ok p" and "getClusters p w = Some (Inr (w', Inr pc))" and "cache_inv h c"
    and "is_order (pe_first env)" and "is_order (pe_second env)" and "\<And>i. set_orders (pe_set env i)"
  shows "(\<exists>s'. Updater_turn (getClusters p) (\<lambda>e. SetSnapshot (fst e) (snd e)) pb env (w, h, c) = Some (Inr (w', s'))) \<longleftrightarrow>
    readable pc"
proof
  have wf: "provider_wf pc" by (rule get_wf [OF assms(1,2)])
  show "readable pc" if "\<exists>s'. Updater_turn (getClusters p) (\<lambda>e. SetSnapshot (fst e) (snd e)) pb env (w, h, c) = Some (Inr (w', s'))"
  proof (rule ccontr)
    assume "\<not> readable pc"
    with transform_stops [OF wf _ assms(4,5), of pb] that assms(2) show False
      by (simp add: Updater_turn_def Updater_poll_def)
  qed
  assume r: "readable pc"
  obtain s' where "Updater_poll (\<lambda>e. SetSnapshot (fst e) (snd e)) pb env (Inr pc) (h, c) = Inr s'"
    by (rule poll_snapshots [where env = env and pb = pb, OF assms(3) wf r assms(4-6)]) (rule that)
  then have "Updater_turn (getClusters p) (\<lambda>e. SetSnapshot (fst e) (snd e)) pb env (w, h, c) = Some (Inr (w', s'))"
    by (rule turn_poll [OF assms(2)])
  then show "\<exists>s'. Updater_turn (getClusters p) (\<lambda>e. SetSnapshot (fst e) (snd e)) pb env (w, h, c) = Some (Inr (w', s'))" ..
qed

end

interpretation fargate: service_provider "\<lambda>(client, ords). GetClusters client ords" "\<lambda>(client, ords). \<forall>p. is_order (ords p)"
proof
  fix p :: "'b ecs_client \<times> paths" and w w' pc
  assume "case p of (client, ords) \<Rightarrow> \<forall>p. is_order (ords p)"
    and "(case p of (client, ords) \<Rightarrow> GetClusters client ords) w = Some (Inr (w', Inr pc))"
  then show "provider_wf pc"
    by (cases p) (auto intro: local_wf_provider GetClusters_local_wf)
qed

interpretation yaml: service_provider "\<lambda>(fs, p). file_GetClusters fs p" "\<lambda>(fs, p). yaml_maps fs"
  by unfold_locales (auto simp: file_GetClusters_value yaml_maps_def)

end
