(* ===== verification/AwsSession.thy ===== *)
theory AwsSession
  imports Calls "HOL-Library.Word"
begin

text \<open>
  \<open>pkg/provider/fargate/aws.go\<close>: the session of the Fargate provider and the one with an assumed
  role, which no program uses yet. The AWS SDK is the parameter \<open>aws_sdk\<close>: \<open>NewSession\<close> without or
  with static credentials, and the request \<open>AssumeRole\<close> of the token service over a session. A
  field of a response is a pointer that may be nil.
\<close>

record credentials_value =
  AccessKeyID :: string
  cv_SecretAccessKey :: string
  cv_SessionToken :: string

record sts_credentials =
  AccessKeyId :: "string option"
  sc_SecretAccessKey :: "string option"
  sc_SessionToken :: "string option"

record assume_role_input =
  DurationSeconds :: "64 word"
  RoleArn :: string
  RoleSessionName :: string

record assume_role_output =
  Credentials :: "sts_credentials option"

record ('w, 's) aws_sdk =
  NewSession :: "credentials_value option \<Rightarrow> 'w \<Rightarrow> 'w \<times> (go_error + 's)"
  AssumeRole :: "'s \<Rightarrow> assume_role_input \<Rightarrow> 'w \<Rightarrow> 'w \<times> (go_error + assume_role_output)"

definition newSession :: "('w, 's) aws_sdk \<Rightarrow> ('w, 's) calls" where
  "newSession sdk = call_ext (NewSession sdk None)"

definition static_credentials :: "assume_role_output \<Rightarrow> credentials_value go" where
  "static_credentials result =
     go_bind (deref (Credentials result)) (\<lambda>c.
       go_bind (deref (AccessKeyId c)) (\<lambda>accessKey.
         go_bind (deref (sc_SecretAccessKey c)) (\<lambda>secretKey.
           go_bind (deref (sc_SessionToken c)) (\<lambda>token.
             Inr \<lparr>AccessKeyID = accessKey, cv_SecretAccessKey = secretKey, cv_SessionToken = token\<rparr>))))"

definition newSessionWithRole :: "('w, 's) aws_sdk \<Rightarrow> string \<Rightarrow> ('w, 's) calls" where
  "newSessionWithRole sdk role =
     call_bind (newSession sdk) (\<lambda>defaultSession.
       call_bind (call_ext (AssumeRole sdk defaultSession
           \<lparr>DurationSeconds = 900, RoleArn = role, RoleSessionName = ''bent''\<rparr>)) (\<lambda>result.
         call_bind (call_go (static_credentials result)) (\<lambda>creds.
           call_ext (NewSession sdk (Some creds)))))"

text \<open>
  The session of a role is one with exactly the credentials that were issued for the role. A
  response without them is a nil dereference, not an error.
\<close>

lemma static_credentials_Inr:
  "static_credentials result = Inr v \<longleftrightarrow> Credentials result = Some \<lparr>AccessKeyId = Some (AccessKeyID v),
     sc_SecretAccessKey = Some (cv_SecretAccessKey v), sc_SessionToken = Some (cv_SessionToken v)\<rparr>"
  by (cases "Credentials result"; cases v) (auto simp: static_credentials_def go_bind_eq_Inr)

lemma newSessionWithRole_value:
  "newSessionWithRole sdk role w = Some (Inr (w', Inr s)) \<longleftrightarrow>
     (\<exists>d w1 w2 result v. NewSession sdk None w = (w1, Inr d) \<and>
        AssumeRole sdk d \<lparr>DurationSeconds = 900, RoleArn = role, RoleSessionName = ''bent''\<rparr> w1 = (w2, Inr result) \<and>
        Credentials result = Some \<lparr>AccessKeyId = Some (AccessKeyID v),
          sc_SecretAccessKey = Some (cv_SecretAccessKey v), sc_SessionToken = Some (cv_SessionToken v)\<rparr> \<and>
        NewSession sdk (Some v) w2 = (w', Inr s))"
  by (auto simp: newSessionWithRole_def newSession_def call_bind_iff static_credentials_Inr)

lemma newSessionWithRole_nil:
  assumes "NewSession sdk None w = (w1, Inr d)"
    and "AssumeRole sdk d \<lparr>DurationSeconds = 900, RoleArn = role, RoleSessionName = ''bent''\<rparr> w1 = (w2, Inr result)"
    and "Credentials result = None"
  shows "newSessionWithRole sdk role w = Some (Inl NilDereference)"
  using assms by (simp add: newSessionWithRole_def newSession_def call_bind_def call_ext_def call_go_def
      static_credentials_def go_bind_def)

end
