(* ===== verification/Startup.thy ===== *)
theory Startup
  imports Providers ControlPlane AwsSession
begin

text \<open>
  \<open>cmd/bent/main.go\<close>: the choice of the service provider, and the control plane it starts: an
  empty cache that does not wait for complete ADS requests, a server without callbacks, and the
  updater. The values of the flags and the AWS SDK are arguments; an error is the value of the
  panic. The lemmas \<open>turn_reach\<close> and \<open>turn_watch\<close> put a turn of the updater with any service
  provider into the running system.
\<close>

text \<open>A Fargate provider is a session and the ECS client over it.\<close>

datatype 's service = FargateService 's | FileService file_provider

definition fargate_NewProvider :: "('w, 's) aws_sdk \<Rightarrow> ('w, 's service) calls" where
  "fargate_NewProvider sdk = call_bind (newSession sdk) (\<lambda>session. call_ret (FargateService session))"

definition select_provider :: "('w, 's) aws_sdk \<Rightarrow> string \<Rightarrow> string \<Rightarrow> ('w, 's service) calls" where
  "select_provider sdk providerType configFile =
     (if providerType = ''fargate'' then fargate_NewProvider sdk
      else if providerType = ''file'' then
        (case file_NewProvider configFile of Inl err \<Rightarrow> call_err err | Inr p \<Rightarrow> call_ret (FileService p))
      else call_err (InvalidProvider providerType))"

definition bent_main :: "('w, 's) aws_sdk \<Rightarrow> string \<Rightarrow> string \<Rightarrow> ('w, 's service \<times> system) calls" where
  "bent_main sdk providerType configFile =
     call_bind (select_provider sdk providerType configFile) (\<lambda>service.
       call_ret (service, init_system None False))"

text \<open>It starts with one of the two providers, in the initial state of the system, or not at all.\<close>

lemma bent_main_value:
  "bent_main sdk providerType configFile w = Some (Inr (w', Inr (service, s))) \<longleftrightarrow>
     s = init_system None False \<and>
     ((providerType = ''fargate'' \<and> (\<exists>session. NewSession sdk None w = (w', Inr session) \<and> service = FargateService session)) \<or>
      (providerType = ''file'' \<and> w' = w \<and> service = FileService \<lparr>fp_path = configFile\<rparr>))"
  by (auto simp: bent_main_def select_provider_def fargate_NewProvider_def newSession_def file_NewProvider_def call_bind_iff)

lemma bent_main_reach:
  "bent_main sdk providerType configFile w = Some (Inr (w', Inr (service, s))) \<Longrightarrow>
   reach pb None False 0 s \<and> \<not> ads (sys_cache s)"
  using reach_init [of pb None False] by (simp add: bent_main_value init_system_def NewSnapshotCache_def)

text \<open>The services that are registered; the secret service of the server is not among them.\<close>

definition registered :: "stream_method list" where
  "registered = [StreamAggregatedResources, StreamEndpoints, StreamClusters, StreamRoutes, StreamListeners]"

context service_provider
begin

lemma turn_reach:
  assumes "ok p" and "getClusters p w = Some (Inr (w', Inr pc))" and "readable pc"
    and "reach pb cbs b n s" and "n < 2 ^ 64 - 1"
    and "is_order (pe_first env)" and "is_order (pe_second env)" and "\<And>i. set_orders (pe_set env i)"
  shows "\<exists>t. reach pb cbs b (n + length pc + 1) t \<and> sys_streams t = sys_streams s \<and>
    Updater_turn (getClusters p) (\<lambda>e. SetSnapshot (fst e) (snd e)) pb env (w, sys_heap s, sys_cache s) =
      Some (Inr (w', sys_heap t, sys_cache t)) \<and>
    (\<forall>name cs. (name, cs) \<in> set pc \<longrightarrow> name \<noteq> ''ingress'' \<longrightarrow>
       (\<exists>nd i. node_spec pb (global_clusters (pe_first env) pc) (global_vhosts (pe_first env) pc) name cs nd \<and>
          map_of (snapshots (sys_cache t)) name = Some (node_snapshot pb (pe_node env i) nd))) \<and>
    (\<forall>m. m \<notin> fst ` set pc \<longrightarrow> m \<noteq> ''ingress'' \<longrightarrow>
       map_of (snapshots (sys_cache t)) m = map_of (snapshots (sys_cache s)) m)"
proof -
  have inv: "cache_inv (sys_heap s) (sys_cache s)"
    using reach_inv [OF assms(4)] assms(5) by (simp add: id_limit_def)
  have wf: "provider_wf pc" by (rule get_wf [OF assms(1,2)])
  obtain h c where poll: "Updater_poll (\<lambda>e. SetSnapshot (fst e) (snd e)) pb env (Inr pc) (sys_heap s, sys_cache s) = Inr (h, c)"
    and nodes: "\<And>name cs. (name, cs) \<in> set pc \<Longrightarrow> name \<noteq> ''ingress'' \<Longrightarrow>
       \<exists>nd i. node_spec pb (global_clusters (pe_first env) pc) (global_vhosts (pe_first env) pc) name cs nd \<and>
         map_of (snapshots c) name = Some (node_snapshot pb (pe_node env i) nd)"
    and other: "\<And>m. m \<notin> fst ` set pc \<Longrightarrow> m \<noteq> ''ingress'' \<Longrightarrow>
       map_of (snapshots c) m = map_of (snapshots (sys_cache s)) m"
    by (rule poll_snapshots [where env = env and pb = pb, OF inv wf assms(3,6-8)]) (rule that)
  obtain t where t: "reach pb cbs b (n + length pc + 1) t" "sys_heap t = h" "sys_cache t = c" "sys_streams t = sys_streams s"
    using poll_reach [OF assms(4,8,7) poll] by blast
  have "Updater_turn (getClusters p) (\<lambda>e. SetSnapshot (fst e) (snd e)) pb env (w, sys_heap s, sys_cache s) =
      Some (Inr (w', sys_heap t, sys_cache t))"
    using turn_poll [OF assms(2) poll] by (simp add: t)
  with t nodes other show ?thesis by (intro exI [of _ t] conjI) simp_all
qed

text \<open>
  The same turn, seen from the client that waits for the node: the watch is answered with the
  snapshot of the turn, or it stays open because the version is the same.
\<close>

lemma turn_watch:
  assumes "ok p" and "getClusters p w = Some (Inr (w', Inr pc))" and "readable pc"
    and "reach pb cbs b n s" and "n < 2 ^ 64 - 1"
    and "is_order (pe_first env)" and "is_order (pe_second env)" and "\<And>i. set_orders (pe_set env i)"
    and "(name, cs) \<in> set pc" "name \<noteq> ''ingress''" and "open_watch (sys_cache s) name i = Some wa"
  obtains t nd k ords where "reach pb cbs b (n + length pc + 1) t" "sys_streams t = sys_streams s"
    "Updater_turn (getClusters p) (\<lambda>e. SetSnapshot (fst e) (snd e)) pb env (w, sys_heap s, sys_cache s) =
      Some (Inr (w', sys_heap t, sys_cache t))"
    "node_spec pb (global_clusters (pe_first env) pc) (global_vhosts (pe_first env) pc) name cs nd"
    "map_of (snapshots (sys_cache t)) name = Some (node_snapshot pb (pe_node env k) nd)"
    "\<And>j. is_order (ords j)"
    "answered (sys_cache s) (node_snapshot pb (pe_node env k) nd) (w_Request wa) \<Longrightarrow>
      h_chan (sys_heap t) (w_Response wa) = Some (full_chan (reply ords (node_snapshot pb (pe_node env k) nd) (w_Request wa)))"
    "\<not> outdated (node_snapshot pb (pe_node env k) nd) (w_Request wa) \<Longrightarrow> open_watch (sys_cache t) name i = Some wa"
proof -
  have inv: "cache_inv (sys_heap s) (sys_cache s)"
    using reach_inv [OF assms(4)] assms(5) by (simp add: id_limit_def)
  obtain t where t: "reach pb cbs b (n + length pc + 1) t" "sys_streams t = sys_streams s"
      "Updater_turn (getClusters p) (\<lambda>e. SetSnapshot (fst e) (snd e)) pb env (w, sys_heap s, sys_cache s) =
        Some (Inr (w', sys_heap t, sys_cache t))"
      "\<forall>name cs. (name, cs) \<in> set pc \<longrightarrow> name \<noteq> ''ingress'' \<longrightarrow>
         (\<exists>nd i. node_spec pb (global_clusters (pe_first env) pc) (global_vhosts (pe_first env) pc) name cs nd \<and>
            map_of (snapshots (sys_cache t)) name = Some (node_snapshot pb (pe_node env i) nd))"
    using turn_reach [OF assms(1-8)] by blast
  then obtain nd k where nd: "node_spec pb (global_clusters (pe_first env) pc) (global_vhosts (pe_first env) pc) name cs nd"
      "map_of (snapshots (sys_cache t)) name = Some (node_snapshot pb (pe_node env k) nd)"
    using assms(9,10) by blast
  have "Updater_poll (\<lambda>e. SetSnapshot (fst e) (snd e)) pb env (Inr pc) (sys_heap s, sys_cache s) =
      Inr (sys_heap t, sys_cache t)"
    using t(3) assms(2) by (auto simp: Updater_turn_def split: sum.splits)
  from poll_watch [OF inv assms(8,7) get_wf [OF assms(1,2)] this assms(9-11)] nd(2)
  obtain ords where "\<forall>j. is_order (ords j)"
    "answered (sys_cache s) (node_snapshot pb (pe_node env k) nd) (w_Request wa) \<longrightarrow>
      h_chan (sys_heap t) (w_Response wa) = Some (full_chan (reply ords (node_snapshot pb (pe_node env k) nd) (w_Request wa)))"
    "\<not> outdated (node_snapshot pb (pe_node env k) nd) (w_Request wa) \<longrightarrow> open_watch (sys_cache t) name i = Some wa"
    by auto
  with t nd show thesis by (intro that [of t nd k ords]) blast+
qed

end

end
