(* ===== verification/Metadata.thy ===== *)
theory Metadata
  imports FargateSpec
begin

text \<open>
  \<open>cmd/envoy/metadata.go\<close>: the start-up helper of the sidecar. It asks the task metadata
  endpoint for the ARN of its own task, with retries, and prints the node identifier under
  which the sidecar will ask the control plane for its configuration.

  The HTTP client, the JSON package and the clock are outside the program: \<open>metadata_env\<close> is
  their parameter, over a state \<open>'w\<close> of the outside world and a type \<open>'b\<close> of open response bodies.
\<close>

subsection \<open>The metadata\<close>

type_synonym time = int

record limits_response =
  li_CPU :: int64
  li_Memory :: int64

record port_response =
  ContainerPort :: "16 word"
  po_Protocol :: string
  HostPort :: "16 word"

record network =
  NetworkMode :: string
  IPv4Addresses :: "string list"
  IPv6Addresses :: "string list"

record health_status =
  hs_Status :: string
  hs_Since :: "time option"
  hs_ExitCode :: int64
  hs_Output :: string

record container_response =
  cr_ID :: string
  cr_Name :: string
  cr_DockerName :: string
  cr_Image :: string
  cr_ImageID :: string
  cr_Ports :: "port_response list"
  cr_Labels :: "(string, string) gomap"
  cr_DesiredStatus :: string
  cr_KnownStatus :: string
  cr_ExitCode :: "int64 option"
  cr_Limits :: limits_response
  cr_CreatedAt :: "time option"
  cr_StartedAt :: "time option"
  cr_FinishedAt :: "time option"
  cr_Type :: string
  cr_Health :: health_status
  cr_Networks :: "network list"

record task_response =
  tr_Cluster :: string
  TaskARN :: string
  tr_Family :: string
  tr_Revision :: string
  tr_DesiredStatus :: string
  tr_KnownStatus :: string
  tr_Containers :: "container_response list"
  tr_Limits :: limits_response

subsection \<open>Requests\<close>

record 'b http_response =
  StatusCode :: int
  Body :: 'b

record ('w, 'b) metadata_env =
  http_Get :: "string \<Rightarrow> 'w \<Rightarrow> 'w \<times> (go_error + 'b http_response)"
  ReadAll :: "'b \<Rightarrow> 'w \<Rightarrow> 'w \<times> (go_error + bytes)"
  CloseBody :: "'b \<Rightarrow> 'w \<Rightarrow> 'w"
  Sleep :: "int \<Rightarrow> 'w \<Rightarrow> 'w"
  UnmarshalTask :: "bytes \<Rightarrow> go_error + task_response"
  UnmarshalContainer :: "bytes \<Rightarrow> go_error + container_response"

definition v2MetadataEndpoint :: string where "v2MetadataEndpoint = ''http://169.254.170.2/v2/metadata''"
definition maxRetries :: nat where "maxRetries = 4"

text \<open>In nanoseconds.\<close>

definition durationBetweenRetries :: int where "durationBetweenRetries = 2000000000"

text \<open>The body of a response with another status is not closed.\<close>

definition metadataResponseOnce :: "('w, 'b) metadata_env \<Rightarrow> string \<Rightarrow> string \<Rightarrow> 'w \<Rightarrow> 'w \<times> (go_error + bytes)" where
  "metadataResponseOnce env endpoint respType w =
     (case http_Get env endpoint w of
        (w1, Inl err) \<Rightarrow> (w1, Inl (Wrapped (respType @ '': unable to get response'') err))
      | (w1, Inr resp) \<Rightarrow>
          if StatusCode resp \<noteq> 200
          then (w1, Inl (Errorf (respType @ '': incorrect status code  '' @ FormatInt (StatusCode resp))))
          else (case ReadAll env (Body resp) w1 of
              (w2, Inl err) \<Rightarrow>
                (CloseBody env (Body resp) w2, Inl (Wrapped ''task metadata: unable to read response body'' err))
            | (w2, Inr body) \<Rightarrow> (CloseBody env (Body resp) w2, Inr body)))"

text \<open>The loop of \<open>metadataResponse\<close> from attempt \<open>i\<close> on; \<open>err\<close> is the variable of that name.\<close>

function attempts ::
    "('w, 'b) metadata_env \<Rightarrow> string \<Rightarrow> string \<Rightarrow> nat \<Rightarrow> go_error option \<Rightarrow> 'w \<Rightarrow> 'w \<times> bytes option \<times> go_error option" where
  "attempts env endpoint respType i err w =
     (if i < maxRetries
      then (case metadataResponseOnce env endpoint respType w of
          (w1, Inr resp) \<Rightarrow> (w1, Some resp, None)
        | (w1, Inl e) \<Rightarrow> attempts env endpoint respType (Suc i) (Some e) (Sleep env durationBetweenRetries w1))
      else (w, None, err))"
  by pat_completeness auto
termination
  by (relation "measure (\<lambda>(env, endpoint, respType, i, err, w). maxRetries - i)") auto

declare attempts.simps [simp del]

definition metadataResponse ::
    "('w, 'b) metadata_env \<Rightarrow> string \<Rightarrow> string \<Rightarrow> 'w \<Rightarrow> 'w \<times> bytes option \<times> go_error option" where
  "metadataResponse env endpoint respType w = attempts env endpoint respType 0 None w"

definition taskMetadata :: "('w, 'b) metadata_env \<Rightarrow> 'w \<Rightarrow> 'w \<times> (go_error + task_response)" where
  "taskMetadata env w =
     (case metadataResponse env v2MetadataEndpoint ''task metadata'' w of
        (w1, body, Some err) \<Rightarrow> (w1, Inl err)
      | (w1, body, None) \<Rightarrow>
          (w1, case UnmarshalTask env (case body of None \<Rightarrow> [] | Some b \<Rightarrow> b) of
             Inl err \<Rightarrow> Inl (Wrapped ''task metadata: unable to parse response body'' err)
           | Inr task \<Rightarrow> Inr task))"

definition containerMetadata :: "('w, 'b) metadata_env \<Rightarrow> string \<Rightarrow> 'w \<Rightarrow> 'w \<times> (go_error + container_response)" where
  "containerMetadata env cid w =
     (case metadataResponse env (v2MetadataEndpoint @ ''/'' @ cid) ''container metadata'' w of
        (w1, body, Some err) \<Rightarrow> (w1, Inl err)
      | (w1, body, None) \<Rightarrow>
          (w1, case UnmarshalContainer env (case body of None \<Rightarrow> [] | Some b \<Rightarrow> b) of
             Inl err \<Rightarrow> Inl (Wrapped ''container metadata: unable to parse response body'' err)
           | Inr container \<Rightarrow> Inr container))"

text \<open>The exit status and what is printed.\<close>

record outcome =
  ExitStatus :: nat
  Stdout :: string

definition envoy_main :: "('w, 'b) metadata_env \<Rightarrow> 'w \<Rightarrow> 'w \<times> outcome" where
  "envoy_main env w =
     (case taskMetadata env (Sleep env 5000000000 w) of
        (w1, Inl err) \<Rightarrow> (w1, \<lparr>ExitStatus = 1, Stdout = []\<rparr>)
      | (w1, Inr task) \<Rightarrow>
          (w1, case TaskArnToNodeID (TaskARN task) of
             Inl err \<Rightarrow> \<lparr>ExitStatus = 1, Stdout = []\<rparr>
           | Inr nodeID \<Rightarrow> \<lparr>ExitStatus = 0, Stdout = nodeID\<rparr>))"

subsection \<open>The retries\<close>

text \<open>The world before attempt \<open>n\<close>, when the attempts before it have failed.\<close>

fun failed :: "('w, 'b) metadata_env \<Rightarrow> string \<Rightarrow> string \<Rightarrow> nat \<Rightarrow> 'w \<Rightarrow> 'w option" where
  "failed env endpoint respType 0 w = Some w"
| "failed env endpoint respType (Suc n) w =
     (case metadataResponseOnce env endpoint respType w of
        (w1, Inl e) \<Rightarrow> failed env endpoint respType n (Sleep env durationBetweenRetries w1)
      | (w1, Inr resp) \<Rightarrow> None)"

text \<open>After a failed attempt, the first success is one attempt closer.\<close>

lemma failed_shift:
  assumes "metadataResponseOnce env endpoint respType w = (w1, Inl e)"
  shows "(\<exists>n v. Suc i + n < k \<and> failed env endpoint respType n (Sleep env durationBetweenRetries w1) = Some v \<and>
        metadataResponseOnce env endpoint respType v = (w', Inr resp)) \<longleftrightarrow>
      (\<exists>n v. i + n < k \<and> failed env endpoint respType n w = Some v \<and>
        metadataResponseOnce env endpoint respType v = (w', Inr resp))"
    (is "?L \<longleftrightarrow> (\<exists>n v. ?P n v)")
proof
  assume ?L
  then obtain n v where "?P (Suc n) v" using assms by auto
  then show "\<exists>n v. ?P n v" by blast
next
  assume "\<exists>n v. ?P n v"
  then obtain n v where p: "?P n v" by blast
  then obtain m where "n = Suc m" using assms by (cases n) auto
  with p assms show ?L by auto
qed

lemma attempts_success:
  "attempts env endpoint respType i err w = (w', Some resp, None) \<longleftrightarrow>
     (\<exists>n v. i + n < maxRetries \<and> failed env endpoint respType n w = Some v \<and>
        metadataResponseOnce env endpoint respType v = (w', Inr resp))"
proof (induction env endpoint respType i err w rule: attempts.induct)
  case (1 env endpoint respType i err w)
  show ?case
  proof (cases "i < maxRetries")
    case False
    then show ?thesis by (simp add: attempts.simps [of env endpoint respType i])
  next
    case True
    obtain w1 r where once: "metadataResponseOnce env endpoint respType w = (w1, r)" by fastforce
    show ?thesis
    proof (cases r)
      case (Inr b)
      have "failed env endpoint respType n w = Some v \<longleftrightarrow> n = 0 \<and> v = w" for n v
        by (cases n) (auto simp: once Inr)
      then show ?thesis using True by (auto simp: attempts.simps [of env endpoint respType i] once Inr)
    next
      case (Inl e)
      have "attempts env endpoint respType i err w =
          attempts env endpoint respType (Suc i) (Some e) (Sleep env durationBetweenRetries w1)"
        using True by (simp add: attempts.simps [of env endpoint respType i] once Inl)
      then show ?thesis
        using 1 [OF True once [symmetric] Inl] failed_shift [OF once [unfolded Inl]] by simp
    qed
  qed
qed

text \<open>The loop ends in one of two ways; without a success the error is the one of the last attempt.\<close>

lemma attempts_cases:
  "attempts env endpoint respType i err w = r \<Longrightarrow>
     (\<exists>w' resp. r = (w', Some resp, None)) \<or> (maxRetries \<le> i \<and> r = (w, None, err)) \<or>
     (\<exists>v w1 e. i < maxRetries \<and> failed env endpoint respType (maxRetries - i - 1) w = Some v \<and>
        metadataResponseOnce env endpoint respType v = (w1, Inl e) \<and>
        r = (Sleep env durationBetweenRetries w1, None, Some e))"
proof (induction env endpoint respType i err w arbitrary: r rule: attempts.induct)
  case (1 env endpoint respType i err w)
  show ?case
  proof (cases "i < maxRetries")
    case False
    with 1(2) show ?thesis by (simp add: attempts.simps [of env endpoint respType i])
  next
    case True
    obtain w1 q where once: "metadataResponseOnce env endpoint respType w = (w1, q)" by fastforce
    show ?thesis
    proof (cases q)
      case (Inr b)
      with 1(2) True once have "r = (w1, Some b, None)" by (simp add: attempts.simps [of env endpoint respType i])
      then show ?thesis by blast
    next
      case (Inl e)
      let ?w = "Sleep env durationBetweenRetries w1"
      have r: "attempts env endpoint respType (Suc i) (Some e) ?w = r"
        using 1(2) True by (simp add: attempts.simps [of env endpoint respType i] once Inl)
      from 1(1) [OF True once [symmetric] Inl r] show ?thesis
      proof (elim disjE exE conjE)
        assume "maxRetries \<le> Suc i" "r = (?w, None, Some e)"
        with True once Inl show ?thesis by auto
      next
        fix v w1' e'
        assume a: "Suc i < maxRetries" "failed env endpoint respType (maxRetries - Suc i - 1) ?w = Some v"
          "metadataResponseOnce env endpoint respType v = (w1', Inl e')" "r = (Sleep env durationBetweenRetries w1', None, Some e')"
        have "maxRetries - i - 1 = Suc (maxRetries - Suc i - 1)" using a(1) by simp
        with a True once Inl show ?thesis by simp
      qed blast
    qed
  qed
qed

subsection \<open>A metadata service that answers at the third attempt\<close>

text \<open>The world counts the requests.\<close>

definition sample_metadata :: "(nat, unit) metadata_env" where
  "sample_metadata = \<lparr>
     http_Get = (\<lambda>_ n. (Suc n, if n < 2 then Inl (External ''refused'') else Inr \<lparr>StatusCode = 200, Body = ()\<rparr>)),
     ReadAll = (\<lambda>_ n. (n, Inr [1])), CloseBody = (\<lambda>_ n. n), Sleep = (\<lambda>_ n. n),
     UnmarshalTask = (\<lambda>_. Inr \<lparr>tr_Cluster = ''web'', TaskARN = ''arn:aws:ecs:eu-central-1:1:task/web/7f'', tr_Family = [],
       tr_Revision = [], tr_DesiredStatus = [], tr_KnownStatus = [], tr_Containers = [],
       tr_Limits = \<lparr>li_CPU = 0, li_Memory = 0\<rparr>\<rparr>),
     UnmarshalContainer = (\<lambda>_. Inl (External ''none''))\<rparr>"

lemma sample_once:
  "metadataResponseOnce sample_metadata endpoint respType n =
     (if n < 2 then (Suc n, Inl (Wrapped (respType @ '': unable to get response'') (External ''refused'')))
      else (Suc n, Inr [1]))"
  by (simp add: metadataResponseOnce_def sample_metadata_def)

lemma sample_Sleep: "Sleep sample_metadata d n = n"
  by (simp add: sample_metadata_def)

subsection \<open>Properties\<close>

text \<open>
  C24. The metadata request is tried at most four times: it returns the body of the first
  attempt that succeeds, and when all four fail the error of the last one; nothing else can
  happen.
\<close>
theorem metadata_retries:
  "(\<exists>w' resp. metadataResponse env endpoint respType w = (w', Some resp, None) \<and>
      (\<exists>n < 4. \<exists>v. failed env endpoint respType n w = Some v \<and>
         metadataResponseOnce env endpoint respType v = (w', Inr resp))) \<or>
   (\<exists>v w1 e. metadataResponse env endpoint respType w = (Sleep env durationBetweenRetries w1, None, Some e) \<and>
      failed env endpoint respType 3 w = Some v \<and> metadataResponseOnce env endpoint respType v = (w1, Inl e))"
proof -
  have "metadataResponse env endpoint respType w = (w', Some resp, None) \<Longrightarrow>
      \<exists>n < 4. \<exists>v. failed env endpoint respType n w = Some v \<and>
        metadataResponseOnce env endpoint respType v = (w', Inr resp)" for w' resp
    by (auto simp: metadataResponse_def attempts_success maxRetries_def)
  then show ?thesis
    using attempts_cases [of env endpoint respType 0 None w] by (auto simp: metadataResponse_def maxRetries_def)
qed

text \<open>
  C25. The sidecar and the control plane agree on the node: when the helper exits normally, it
  has printed the identifier under which the Fargate provider files any listed task that has
  the ARN of the metadata.
\<close>
theorem sidecar_node_known:
  assumes "envoy_main env u = (u', \<lparr>ExitStatus = 0, Stdout = node\<rparr>)"
    and "taskMetadata env (Sleep env 5000000000 u) = (u', Inr meta)"
    and "add_cluster_tasks client ords cluster lc w = Some (Inr (w', Inr lc'))" and "\<And>p. is_order (ords p)"
    and "ClusterArn cluster = Some arn" and "listTasks client arn w = Some (Inr (v, Inr tasks))"
    and "(def_arn, ts) \<in> set tasks" and "t \<in> set ts" and "TaskArn t = Some (TaskARN meta)"
  shows "node \<in> dom (map_of lc')"
proof -
  have node: "task_node t = Some node"
    using assms(1,2,9) by (simp add: envoy_main_def task_node_def split: sum.splits)
  obtain arn' v' tasks' defs where c: "ClusterArn cluster = Some arn'"
      "listTasks client arn' w = Some (Inr (v', Inr tasks'))" "add_tasks ords defs tasks' lc = Inr lc'"
    using assms(3) by (auto simp: add_cluster_tasks_iff)
  then have a: "add_tasks ords defs tasks lc = Inr lc'" using assms(5,6) by simp
  have wf: "map_wf tasks" using listTasks_grouped [OF assms(6)] by (simp add: grouped_def slices_wf_def)
  have "node \<in> (\<Union>(_, ts) \<in> set tasks. \<Union>t \<in> set ts. set_option (task_node t))"
    using assms(7,8) node by (intro UN_I [of "(def_arn, ts)"]) (auto simp: elem_set)
  then show ?thesis using add_tasks_dom [OF a wf assms(4)] by simp
qed

theorem sidecar_node_known_witness:
  "envoy_main sample_metadata 0 = (3, \<lparr>ExitStatus = 0, Stdout = ''web/7f''\<rparr>) \<and>
   (\<exists>lc'. add_cluster_tasks (sample_client True) (\<lambda>_. id) \<lparr>ClusterArn = Some ''arn:c'', ClusterName = Some ''c''\<rparr> [] () =
      Some (Inr ((), Inr lc')) \<and> ''web/7f'' \<in> dom (map_of lc'))"
proof -
  have m: "metadataResponse sample_metadata v2MetadataEndpoint ''task metadata'' 0 = (3, Some [1], None)"
    by (simp add: metadataResponse_def attempts.simps [of sample_metadata] sample_once sample_Sleep maxRetries_def)
  then obtain meta where t: "taskMetadata sample_metadata (Sleep sample_metadata 5000000000 0) = (3, Inr meta)"
      "TaskARN meta = ''arn:aws:ecs:eu-central-1:1:task/web/7f''"
    by (simp add: taskMetadata_def sample_Sleep) (simp add: sample_metadata_def)
  have main: "envoy_main sample_metadata 0 = (3, \<lparr>ExitStatus = 0, Stdout = ''web/7f''\<rparr>)"
    using t by (simp add: envoy_main_def sample_node)
  show ?thesis
    using main sample_cluster_tasks sidecar_node_known [OF main t(1) sample_cluster_tasks _ _ sample_listTasks, of "''def:1''" "[sample_task]" sample_task] t(2)
    by (simp add: sample_task_def)
qed

end
