(* ===== verification/TraceFwd.thy ===== *)
theory TraceFwd
  imports GoStrings Envoy
begin

text \<open>
  \<open>cmd/trace-fwd/main.go\<close>: the example service that passes a request on to its targets with the
  tracing headers, so that the hops of a request appear as one trace.

  The network, the URL parser and the dump of a request are outside calls (\<open>net\<close>, over a state
  \<open>'w\<close> of the world). \<open>http.Header\<close> is a Go map from canonical names to values; \<open>Header_Get\<close> and
  \<open>Header_Set\<close> are its methods, with the canonicalisation of \<open>net/textproto\<close>.
\<close>

subsection \<open>Headers\<close>

type_synonym header = "(string, string list) gomap"

definition is_lower :: "char \<Rightarrow> bool" where
  "is_lower c \<longleftrightarrow> 97 \<le> (of_char c :: nat) \<and> (of_char c :: nat) \<le> 122"

definition is_upper :: "char \<Rightarrow> bool" where
  "is_upper c \<longleftrightarrow> 65 \<le> (of_char c :: nat) \<and> (of_char c :: nat) \<le> 90"

text \<open>The token characters of RFC 7230.\<close>

definition validHeaderFieldByte :: "char \<Rightarrow> bool" where
  "validHeaderFieldByte c \<longleftrightarrow> is_lower c \<or> is_upper c \<or> is_digit c \<or> c \<in> set ''!#$%&*+-.^_|~'' \<or>
     (of_char c :: nat) = 39 \<or> (of_char c :: nat) = 96"

fun canonical_from :: "bool \<Rightarrow> string \<Rightarrow> string" where
  "canonical_from upper [] = []"
| "canonical_from upper (c # cs) =
     (let c' = (if upper \<and> is_lower c then char_of ((of_char c :: nat) - 32)
                else if \<not> upper \<and> is_upper c then char_of ((of_char c :: nat) + 32) else c)
      in c' # canonical_from (c' = CHR ''-'') cs)"

definition CanonicalMIMEHeaderKey :: "string \<Rightarrow> string" where
  "CanonicalMIMEHeaderKey s = (if list_all validHeaderFieldByte s then canonical_from True s else s)"

definition Header_Get :: "header \<Rightarrow> string \<Rightarrow> string" where
  "Header_Get h key =
     (case map_of h (CanonicalMIMEHeaderKey key) of None \<Rightarrow> [] | Some [] \<Rightarrow> [] | Some (v # vs) \<Rightarrow> v)"

definition Header_Set :: "string \<Rightarrow> string \<Rightarrow> header \<Rightarrow> header" where
  "Header_Set key v h = mput (CanonicalMIMEHeaderKey key) [v] h"

subsection \<open>The service\<close>

definition headersToPropagate :: "string list" where
  "headersToPropagate = [''x-ot-span-context'', ''x-Request-id'', ''x-b3-traceid'', ''x-b3-spanid'',
     ''x-b3-parentspanid'', ''x-b3-sampled'', ''x-b3-flags'', ''uber-trace-id'']"

text \<open>\<open>None\<close> is the end of the process by \<open>log.Fatal\<close>.\<close>

definition parseTargets :: "string \<Rightarrow> string list option" where
  "parseTargets targetFromEnv = (if targetFromEnv = [] then None else Some (Split targetFromEnv '',''))"

definition copy_header :: "header \<Rightarrow> string \<Rightarrow> header \<Rightarrow> header" where
  "copy_header from key to =
     (let header = Header_Get from key in if header \<noteq> [] then Header_Set key header to else to)"

definition copyHeaders :: "header \<Rightarrow> header \<Rightarrow> header" where
  "copyHeaders from to = fold (copy_header from) headersToPropagate to"

record http_request =
  rq_Method :: string
  rq_URL :: string
  rq_Header :: header

record ('w, 'b) net =
  URL_Parse :: "string \<Rightarrow> go_error option"
  Do :: "http_request \<Rightarrow> 'w \<Rightarrow> 'w \<times> (go_error + 'b)"
  net_CloseBody :: "'b \<Rightarrow> 'w \<Rightarrow> 'w"
  DumpRequest :: "http_request \<Rightarrow> 'w \<Rightarrow> 'w \<times> (go_error + string)"

definition NewRequest :: "('w, 'b) net \<Rightarrow> string \<Rightarrow> string \<Rightarrow> go_error + http_request" where
  "NewRequest net meth url =
     (case URL_Parse net url of
        Some err \<Rightarrow> Inl err
      | None \<Rightarrow> Inr \<lparr>rq_Method = meth, rq_URL = url, rq_Header = []\<rparr>)"

definition doRequest :: "('w, 'b) net \<Rightarrow> http_request \<Rightarrow> string \<Rightarrow> 'w \<Rightarrow> 'w \<times> go_error option" where
  "doRequest net r target w =
     (case NewRequest net ''GET'' target of
        Inl err \<Rightarrow> (w, Some err)
      | Inr req \<Rightarrow>
          (case Do net (req\<lparr>rq_Header := copyHeaders (rq_Header r) (rq_Header req)\<rparr>) w of
             (w1, Inl err) \<Rightarrow> (w1, Some err)
           | (w1, Inr body) \<Rightarrow> (net_CloseBody net body w1, None)))"

record response =
  rw_Status :: nat
  rw_Body :: string

fun forward :: "('w, 'b) net \<Rightarrow> http_request \<Rightarrow> string list \<Rightarrow> 'w \<Rightarrow> 'w \<times> go_error option" where
  "forward net r [] w = (w, None)"
| "forward net r (target # targets) w =
     (case doRequest net r target w of
        (w1, Some err) \<Rightarrow> (w1, Some err)
      | (w1, None) \<Rightarrow> forward net r targets w1)"

definition banner :: string where "banner = ''========== your request ==========''"

text \<open>The line breaks around the banner are the character 10.\<close>

definition httpHandler :: "('w, 'b) net \<Rightarrow> string list \<Rightarrow> http_request \<Rightarrow> 'w \<Rightarrow> 'w \<times> response" where
  "httpHandler net targets r w =
     (case forward net r targets w of
        (w1, Some err) \<Rightarrow> (w1, \<lparr>rw_Status = 500, rw_Body = []\<rparr>)
      | (w1, None) \<Rightarrow>
          (case DumpRequest net r w1 of
             (w2, Inl err) \<Rightarrow> (w2, \<lparr>rw_Status = 500, rw_Body = []\<rparr>)
           | (w2, Inr dump) \<Rightarrow>
               (w2, \<lparr>rw_Status = 200, rw_Body = char_of (10 :: nat) # banner @ char_of (10 :: nat) # dump\<rparr>)))"

definition healthz :: "'w \<Rightarrow> 'w \<times> response" where
  "healthz w = (w, \<lparr>rw_Status = 200, rw_Body = []\<rparr>)"

subsection \<open>Copied headers\<close>

lemma copyHeaders_fold:
  "map_of (fold (copy_header from) keys to) k =
     (if \<exists>key \<in> set keys. CanonicalMIMEHeaderKey key = k \<and> Header_Get from key \<noteq> []
      then Some [hd (the (map_of from k))] else map_of to k)"
proof (induction keys arbitrary: to)
  case (Cons key keys)
  have "Header_Get from key = hd (the (map_of from (CanonicalMIMEHeaderKey key)))" if "Header_Get from key \<noteq> []"
    using that by (auto simp: Header_Get_def split: option.splits list.splits)
  then have "map_of (copy_header from key to) k =
      (if CanonicalMIMEHeaderKey key = k \<and> Header_Get from key \<noteq> [] then Some [hd (the (map_of from k))] else map_of to k)"
    by (auto simp: copy_header_def Let_def Header_Set_def)
  then show ?case by (auto simp: Cons.IH)
qed simp

lemma copyHeaders_lookup:
  "map_of (copyHeaders from to) k =
     (if \<exists>key \<in> set headersToPropagate. CanonicalMIMEHeaderKey key = k \<and> Header_Get from key \<noteq> []
      then Some [hd (the (map_of from k))] else map_of to k)"
  by (simp add: copyHeaders_def copyHeaders_fold)

lemma Header_Get_copy:
  assumes "key \<in> set headersToPropagate"
  shows "Header_Get (copyHeaders from to) key =
    (if Header_Get from key \<noteq> [] then Header_Get from key else Header_Get to key)"
proof -
  let ?k = "CanonicalMIMEHeaderKey key"
  have same: "Header_Get from key' = Header_Get from key" if "CanonicalMIMEHeaderKey key' = ?k" for key'
    using that by (simp add: Header_Get_def)
  show ?thesis
  proof (cases "Header_Get from key = []")
    case True
    have "Header_Get from key' = []" if "CanonicalMIMEHeaderKey key' = ?k" for key'
      using same [OF that] True by (rule trans)
    then have "\<not> (\<exists>key \<in> set headersToPropagate. CanonicalMIMEHeaderKey key = ?k \<and> Header_Get from key \<noteq> [])"
      by blast
    then have "map_of (copyHeaders from to) ?k = map_of to ?k" by (simp only: copyHeaders_lookup if_False)
    with True show ?thesis by (simp add: Header_Get_def)
  next
    case False
    then have "map_of (copyHeaders from to) ?k = Some [hd (the (map_of from ?k))]"
      unfolding copyHeaders_lookup using assms by (intro if_P) blast
    moreover have "hd (the (map_of from ?k)) = Header_Get from key"
      using False by (auto simp: Header_Get_def split: option.splits list.splits)
    ultimately show ?thesis using False by (simp add: Header_Get_def)
  qed
qed

subsection \<open>Requests on the wire\<close>

text \<open>The same network with a record of the requests it was asked to send and how each of them ended.\<close>

type_synonym sent_request = "http_request \<times> go_error option"

definition recording :: "('w, 'b) net \<Rightarrow> ('w \<times> sent_request list, 'b) net" where
  "recording net = \<lparr>URL_Parse = URL_Parse net,
     Do = (\<lambda>req (w, sent). let (w1, res) = Do net req w
            in ((w1, sent @ [(req, case res of Inl err \<Rightarrow> Some err | Inr _ \<Rightarrow> None)]), res)),
     net_CloseBody = (\<lambda>body (w, sent). (net_CloseBody net body w, sent)),
     DumpRequest = (\<lambda>req (w, sent). let (w1, res) = DumpRequest net req w in ((w1, sent), res))\<rparr>"

definition forwarded :: "http_request \<Rightarrow> string \<Rightarrow> http_request" where
  "forwarded r target = \<lparr>rq_Method = ''GET'', rq_URL = target, rq_Header = copyHeaders (rq_Header r) []\<rparr>"

text \<open>The requests of targets that all answered.\<close>

definition answered_all :: "http_request \<Rightarrow> string list \<Rightarrow> sent_request list" where
  "answered_all r targets = map (\<lambda>t. (forwarded r t, None)) targets"

lemma answered_all_simps [simp]:
  "answered_all r [] = []" "answered_all r (t # ts) = (forwarded r t, None) # answered_all r ts"
  by (simp_all add: answered_all_def)

lemma doRequest_recording:
  assumes "doRequest (recording net) r target (w, sent) = ((w', sent'), err)"
  obtains (url) e where "URL_Parse net target = Some e" "err = Some e" "sent' = sent"
  | (failed) e where "URL_Parse net target = None" "err = Some e" "sent' = sent @ [(forwarded r target, Some e)]"
  | (answered) "URL_Parse net target = None" "err = None" "sent' = sent @ [(forwarded r target, None)]"
proof (cases "URL_Parse net target")
  case (Some e)
  then have "doRequest (recording net) r target (w, sent) = ((w, sent), Some e)"
    by (simp add: doRequest_def NewRequest_def recording_def)
  with assms show thesis by (intro url [OF Some]) simp_all
next
  case None
  obtain w1 res where d: "Do net (forwarded r target) w = (w1, res)" by fastforce
  show thesis
  proof (cases res)
    case (Inl e)
    have "doRequest (recording net) r target (w, sent) = ((w1, sent @ [(forwarded r target, Some e)]), Some e)"
      using None d Inl by (simp add: doRequest_def NewRequest_def recording_def forwarded_def)
    with assms show thesis by (intro failed [OF None, of e]) auto
  next
    case (Inr body)
    have "doRequest (recording net) r target (w, sent) =
        ((net_CloseBody net body w1, sent @ [(forwarded r target, None)]), None)"
      using None d Inr by (simp add: doRequest_def NewRequest_def recording_def forwarded_def)
    with assms show thesis by (intro answered [OF None]) simp_all
  qed
qed

text \<open>The loop over the targets: it ends without an error, or at the first target that fails.\<close>

definition stops_at :: "('w, 'b) net \<Rightarrow> http_request \<Rightarrow> string list \<Rightarrow> nat \<Rightarrow> sent_request list \<Rightarrow> bool" where
  "stops_at net r targets k sent \<longleftrightarrow> k < length targets \<and> (\<forall>i < k. URL_Parse net (targets ! i) = None) \<and>
     (if URL_Parse net (targets ! k) = None
      then \<exists>err. sent = answered_all r (take k targets) @ [(forwarded r (targets ! k), Some err)]
      else sent = answered_all r (take k targets))"

lemma stops_at_Suc:
  "URL_Parse net t = None \<Longrightarrow> stops_at net r ts k sent \<Longrightarrow>
     stops_at net r (t # ts) (Suc k) ((forwarded r t, None) # sent)"
  by (auto simp: stops_at_def less_Suc_eq_0_disj)

lemma forward_recording:
  assumes "forward (recording net) r targets (w, sent) = ((w', sent'), err)"
  shows "\<exists>new. sent' = sent @ new \<and>
    (case err of
       None \<Rightarrow> (\<forall>t \<in> set targets. URL_Parse net t = None) \<and> new = answered_all r targets
     | Some e \<Rightarrow> \<exists>k. stops_at net r targets k new)"
  using assms
proof (induction targets arbitrary: w sent)
  case Nil
  then show ?case by simp
next
  case (Cons t ts)
  obtain w1 sent1 err1 where d: "doRequest (recording net) r t (w, sent) = ((w1, sent1), err1)" by (metis surj_pair)
  from d show ?case
  proof (cases rule: doRequest_recording)
    case (url e)
    then have "stops_at net r (t # ts) 0 []" by (simp add: stops_at_def)
    then show ?thesis using Cons.prems by (auto simp: d url(2,3))
  next
    case (failed e)
    then have "stops_at net r (t # ts) 0 [(forwarded r t, Some e)]" by (simp add: stops_at_def)
    then show ?thesis using Cons.prems by (auto simp: d failed(2,3))
  next
    case answered
    then have "forward (recording net) r ts (w1, sent1) = ((w', sent'), err)" using Cons.prems d by simp
    from Cons.IH [OF this] obtain new where "sent' = sent @ (forwarded r t, None) # new"
      and new: "case err of None \<Rightarrow> (\<forall>t \<in> set ts. URL_Parse net t = None) \<and> new = answered_all r ts
        | Some e \<Rightarrow> \<exists>k. stops_at net r ts k new"
      by (auto simp: answered(3))
    then show ?thesis
      using answered(1) by (cases err) (auto dest: stops_at_Suc [OF answered(1)])
  qed
qed

subsection \<open>Properties\<close>

text \<open>
  C26. The tracing headers survive every hop: each of the eight headers of a request arrives at
  the next service with its value when the request is passed on, whatever the case of its
  name, also over two hops, and no other header is passed on.
\<close>
theorem trace_headers_survive:
  "(\<forall>key \<in> set headersToPropagate.
      Header_Get (copyHeaders h []) key = Header_Get h key \<and>
      Header_Get (copyHeaders (copyHeaders h []) []) key = Header_Get h key) \<and>
   fst ` set (copyHeaders h []) \<subseteq> CanonicalMIMEHeaderKey ` set headersToPropagate"
proof -
  have "Header_Get [] key = []" for key by (simp add: Header_Get_def)
  moreover have "k \<in> CanonicalMIMEHeaderKey ` set headersToPropagate" if "k \<in> fst ` set (copyHeaders h [])" for k
  proof -
    have "map_of (copyHeaders h []) k \<noteq> None" using that by (simp add: map_of_eq_None_iff)
    then show ?thesis by (auto simp: copyHeaders_lookup split: if_splits)
  qed
  ultimately show ?thesis by (auto simp: Header_Get_copy)
qed

theorem trace_headers_survive_witness:
  "Header_Get (copyHeaders [(''X-Request-Id'', [''42''])] []) ''x-Request-id'' = ''42''"
proof -
  have "Header_Get [(''X-Request-Id'', [''42''])] ''x-Request-id'' = ''42''" by code_simp
  moreover have "''x-Request-id'' \<in> set headersToPropagate" by (simp add: headersToPropagate_def)
  ultimately show ?thesis using trace_headers_survive [of "[(''X-Request-Id'', [''42''])]"] by metis
qed

text \<open>
  C27. The handler passes a request on to its targets one after the other, as GET requests with
  the tracing headers, and stops at the first failure. When every target has answered, the answer
  is 200 with the dump of the request, or 500 when the dump fails. Otherwise there is a first
  target whose URL cannot be parsed or whose request fails: the targets before it have answered,
  those after it are sent nothing, and the answer is 500.
\<close>
theorem handler_forwards:
  assumes "httpHandler (recording net) targets r (w, []) = ((w', sent), resp)"
  shows "((\<forall>t \<in> set targets. URL_Parse net t = None) \<and> sent = map (\<lambda>t. (forwarded r t, None)) targets \<and>
      (\<exists>w1 res. DumpRequest net r w1 = (w', res) \<and>
         resp = (case res of Inl _ \<Rightarrow> \<lparr>rw_Status = 500, rw_Body = []\<rparr>
           | Inr dump \<Rightarrow> \<lparr>rw_Status = 200, rw_Body = char_of (10 :: nat) # banner @ char_of (10 :: nat) # dump\<rparr>))) \<or>
    (\<exists>k < length targets. resp = \<lparr>rw_Status = 500, rw_Body = []\<rparr> \<and> (\<forall>i < k. URL_Parse net (targets ! i) = None) \<and>
      (if URL_Parse net (targets ! k) = None
       then \<exists>err. sent = map (\<lambda>t. (forwarded r t, None)) (take k targets) @ [(forwarded r (targets ! k), Some err)]
       else sent = map (\<lambda>t. (forwarded r t, None)) (take k targets)))"
proof -
  obtain w1 sent1 err where f: "forward (recording net) r targets (w, []) = ((w1, sent1), err)" by (metis surj_pair)
  note rec = forward_recording [OF f]
  show ?thesis
  proof (cases err)
    case (Some e)
    then have "sent = sent1" "resp = \<lparr>rw_Status = 500, rw_Body = []\<rparr>" using assms f by (simp_all add: httpHandler_def)
    then show ?thesis
      using rec Some unfolding stops_at_def answered_all_def by (intro disjI2) auto
  next
    case None
    obtain w2 res where d: "DumpRequest net r w1 = (w2, res)" by fastforce
    have "w' = w2 \<and> sent = sent1 \<and> resp = (case res of Inl _ \<Rightarrow> \<lparr>rw_Status = 500, rw_Body = []\<rparr>
        | Inr dump \<Rightarrow> \<lparr>rw_Status = 200, rw_Body = char_of (10 :: nat) # banner @ char_of (10 :: nat) # dump\<rparr>)"
      using assms f None d by (cases res) (auto simp: httpHandler_def recording_def)
    then show ?thesis
      using rec None d unfolding answered_all_def by (intro disjI1) auto
  qed
qed

theorem handler_forwards_witness:
  "\<exists>w' err resp. httpHandler (recording \<lparr>URL_Parse = \<lambda>_. None,
      Do = \<lambda>req w. (w, if rq_URL req = ''http://b'' then Inl (External ''refused'') else Inr ()),
      net_CloseBody = \<lambda>_ w. w, DumpRequest = \<lambda>_ w. (w, Inr [])\<rparr>) [''http://a'', ''http://b'', ''http://c'']
      \<lparr>rq_Method = ''POST'', rq_URL = ''/'', rq_Header = []\<rparr> ((), []) =
    ((w', [(forwarded \<lparr>rq_Method = ''POST'', rq_URL = ''/'', rq_Header = []\<rparr> ''http://a'', None),
           (forwarded \<lparr>rq_Method = ''POST'', rq_URL = ''/'', rq_Header = []\<rparr> ''http://b'', Some err)]), resp) \<and>
    rw_Status resp = 500"
proof -
  let ?net = "\<lparr>URL_Parse = \<lambda>_. None, Do = \<lambda>req w. (w, if rq_URL req = ''http://b'' then Inl (External ''refused'') else Inr ()),
    net_CloseBody = \<lambda>_ w. w, DumpRequest = \<lambda>_ w. (w, Inr [])\<rparr> :: (unit, unit) net"
  let ?r = "\<lparr>rq_Method = ''POST'', rq_URL = ''/'', rq_Header = []\<rparr>"
  obtain w' sent resp where h: "httpHandler (recording ?net) [''http://a'', ''http://b'', ''http://c''] ?r ((), []) = ((w', sent), resp)"
    by (metis surj_pair)
  have s: "sent = [(forwarded ?r ''http://a'', None), (forwarded ?r ''http://b'', Some (External ''refused''))]"
    using h by (simp add: httpHandler_def doRequest_def NewRequest_def recording_def forwarded_def)
  from handler_forwards [OF h] have "rw_Status resp = 500" by (auto simp: s)
  then show ?thesis using h s by blast
qed

end
