(* ===== verification/Handler.thy ===== *)
theory Handler
  imports System "HOL-Library.Sublist"
begin

text \<open>
  \<open>handler\<close> of \<open>pkg/server/server.go\<close>: every stream has two goroutines. The reader
  loops over \<open>stream.Recv\<close> and passes what it gets on to \<open>process\<close> over the unbuffered
  channel \<open>reqCh\<close>; it closes the channel at the first error and gives up once
  \<open>handler\<close> has set \<open>reqStop\<close> after \<open>process\<close> returned.

  The state of a reader is a \<open>handler\<close>, its statements are \<open>handler_recv\<close> (a return of
  \<open>stream.Recv\<close>, whose result is up to the client) and \<open>handler_check\<close> (the two tests
  after it). A send on \<open>reqCh\<close> happens together with its receive: \<open>handler_take\<close>. The
  relation \<open>ctl_step\<close> is \<open>sys_step\<close> with the readers in it: its streams only take
  requests that their own reader passes on. \<open>h_results\<close> and \<open>h_taken\<close> are history
  variables: all results of \<open>stream.Recv\<close>, and what \<open>process\<close> received from \<open>reqCh\<close>.
\<close>

subsection \<open>The reader of a stream\<close>

datatype reader =
    Receiving
  | Checking "go_error + discovery_request option"
  | Sending "discovery_request option"
  | Exited

record handler =
  h_reader :: reader
  h_closed :: bool
  h_stop :: "32 word"
  h_results :: "(go_error + discovery_request option) list"
  h_taken :: "discovery_request option option list"

definition new_handler :: handler where
  "new_handler = \<lparr>h_reader = Receiving, h_closed = False, h_stop = 0, h_results = [], h_taken = []\<rparr>"

text \<open>\<open>req, err := stream.Recv()\<close> returns \<open>x\<close>.\<close>

definition handler_recv :: "go_error + discovery_request option \<Rightarrow> handler \<Rightarrow> handler option" where
  "handler_recv x h =
     (case h_reader h of
        Receiving \<Rightarrow> Some (h\<lparr>h_reader := Checking x, h_results := h_results h @ [x]\<rparr>)
      | _ \<Rightarrow> None)"

text \<open>\<open>if atomic.LoadInt32(&reqStop) != 0\<close>, \<open>if err != nil\<close>.\<close>

definition handler_check :: "handler \<Rightarrow> handler option" where
  "handler_check h =
     (case h_reader h of
        Checking x \<Rightarrow> Some
          (if h_stop h \<noteq> 0 then h\<lparr>h_reader := Exited\<rparr>
           else case x of
             Inl err \<Rightarrow> h\<lparr>h_closed := True, h_reader := Exited\<rparr>
           | Inr req \<Rightarrow> h\<lparr>h_reader := Sending req\<rparr>)
      | _ \<Rightarrow> None)"

text \<open>
  \<open>reqCh <- req\<close> meets \<open>req, more := <-reqCh\<close>: what \<open>process\<close> receives, \<open>None\<close> when the
  channel has been closed.
\<close>

definition handler_take :: "handler \<Rightarrow> (discovery_request option option \<times> handler) option" where
  "handler_take h =
     (case h_reader h of
        Sending req \<Rightarrow> Some (Some req, h\<lparr>h_reader := Receiving, h_taken := h_taken h @ [Some req]\<rparr>)
      | _ \<Rightarrow> if h_closed h then Some (None, h\<lparr>h_taken := h_taken h @ [None]\<rparr>) else None)"

text \<open>\<open>atomic.StoreInt32(&reqStop, 1)\<close>.\<close>

definition handler_stop :: "handler \<Rightarrow> handler" where
  "handler_stop h = h\<lparr>h_stop := 1\<rparr>"

subsection \<open>The system with its readers\<close>

record control =
  ct_sys :: system
  ct_handlers :: "handler list"

definition init_control :: "callbacks option \<Rightarrow> bool \<Rightarrow> control" where
  "init_control cbs b = \<lparr>ct_sys = init_system cbs b, ct_handlers = []\<rparr>"

definition put_handler :: "nat \<Rightarrow> handler \<Rightarrow> control \<Rightarrow> control" where
  "put_handler i h ct = ct\<lparr>ct_handlers := (ct_handlers ct)[i := h]\<rparr>"

text \<open>
  The steps of the streams and of the updater that the readers have no part in. A stream's
  index is that of its reader.
\<close>

inductive other_step :: "protobuf \<Rightarrow> system \<Rightarrow> system \<Rightarrow> bool" for pb where
  other_response:
    "i < length (sys_streams s) \<Longrightarrow> running (sys_streams s ! i) \<Longrightarrow>
     st_pending (sys_streams s ! i) = None \<Longrightarrow>
     on_response pb (sys_callbacks s) cancelWatch t res (sys_heap s, sys_cache s, sys_streams s ! i) = Some r \<Longrightarrow>
     other_step pb s (put_stream i r s)"
| other_create:
    "i < length (sys_streams s) \<Longrightarrow> running (sys_streams s ! i) \<Longrightarrow>
     st_pending (sys_streams s ! i) = Some p \<Longrightarrow> legal_orders e \<Longrightarrow>
     create_request (\<lambda>e. CreateWatch (fst e) (snd e)) e (sys_heap s, sys_cache s, sys_streams s ! i) = Inr r \<Longrightarrow>
     other_step pb s (put_stream i r s)"
| other_publish:
    "snapshot_wf snap \<Longrightarrow> is_order word \<Longrightarrow> \<forall>i j. is_order (ords i j) \<Longrightarrow>
     SetSnapshot word ords n snap (sys_heap s, sys_cache s) = Inr (h, c) \<Longrightarrow>
     other_step pb s (s\<lparr>sys_heap := h, sys_cache := c, sys_published := (n, snap) # sys_published s\<rparr>)"
| other_clear:
    "other_step pb s (s\<lparr>sys_cache := ClearSnapshot n (sys_cache s)\<rparr>)"

inductive ctl_step :: "protobuf \<Rightarrow> control \<Rightarrow> control \<Rightarrow> bool" for pb where
  ctl_open:
    "process_start cancelWatch (stream_type m) (sys_server (ct_sys ct), sys_cache (ct_sys ct)) = (srv, c, st) \<Longrightarrow>
     ctl_step pb ct (ct\<lparr>ct_sys := (ct_sys ct)\<lparr>sys_server := srv, sys_cache := c,
         sys_streams := sys_streams (ct_sys ct) @ [st]\<rparr>,
       ct_handlers := ct_handlers ct @ [new_handler]\<rparr>)"
| ctl_recv:
    "i < length (ct_handlers ct) \<Longrightarrow> handler_recv x (ct_handlers ct ! i) = Some h \<Longrightarrow>
     ctl_step pb ct (put_handler i h ct)"
| ctl_check:
    "i < length (ct_handlers ct) \<Longrightarrow> handler_check (ct_handlers ct ! i) = Some h \<Longrightarrow>
     ctl_step pb ct (put_handler i h ct)"
| ctl_take:
    "i < length (sys_streams (ct_sys ct)) \<Longrightarrow> running (sys_streams (ct_sys ct) ! i) \<Longrightarrow>
     st_pending (sys_streams (ct_sys ct) ! i) = None \<Longrightarrow>
     handler_take (ct_handlers ct ! i) = Some (incoming, h) \<Longrightarrow>
     begin_request (sys_callbacks (ct_sys ct)) cancelWatch incoming
       (sys_cache (ct_sys ct), sys_streams (ct_sys ct) ! i) = r \<Longrightarrow>
     ctl_step pb ct (put_handler i h (ct\<lparr>ct_sys := put_stream i (sys_heap (ct_sys ct), r) (ct_sys ct)\<rparr>))"
| ctl_stop:
    "i < length (ct_handlers ct) \<Longrightarrow> \<not> running (sys_streams (ct_sys ct) ! i) \<Longrightarrow>
     ctl_step pb ct (put_handler i (handler_stop (ct_handlers ct ! i)) ct)"
| ctl_other:
    "other_step pb (ct_sys ct) s \<Longrightarrow> ctl_step pb ct (ct\<lparr>ct_sys := s\<rparr>)"

inductive ctl_reach :: "protobuf \<Rightarrow> callbacks option \<Rightarrow> bool \<Rightarrow> nat \<Rightarrow> control \<Rightarrow> bool"
  for pb cbs b where
  ctl_init: "ctl_reach pb cbs b 0 (init_control cbs b)"
| ctl_next: "ctl_reach pb cbs b n ct \<Longrightarrow> ctl_step pb ct ct' \<Longrightarrow> ctl_reach pb cbs b (Suc n) ct'"

lemma put_handler_fields [simp]:
  "ct_sys (put_handler i h ct) = ct_sys ct"
  "ct_handlers (put_handler i h ct) = (ct_handlers ct)[i := h]"
  by (simp_all add: put_handler_def)

subsection \<open>Every run is a run of the system\<close>

lemma other_step_sys: "other_step pb s t \<Longrightarrow> sys_step pb s t"
  by (induction rule: other_step.induct)
    (rule sys_step.response sys_step.create sys_step.publish sys_step.clear; assumption)+

lemma ctl_step_sys:
  assumes "ctl_step pb ct ct'"
  shows "ct_sys ct' = ct_sys ct \<or> sys_step pb (ct_sys ct) (ct_sys ct')"
  using assms
proof cases
  case (ctl_open m srv c st)
  then show ?thesis using sys_step.open_stream [OF ctl_open(2), of pb] by simp
next
  case (ctl_take i incoming h r)
  then show ?thesis using sys_step.request [OF ctl_take(2-4) ctl_take(6), of pb] by simp
next
  case (ctl_other s)
  then show ?thesis using other_step_sys by simp
qed simp_all

lemma ctl_reach_sys: "ctl_reach pb cbs b n ct \<Longrightarrow> \<exists>m \<le> n. reach pb cbs b m (ct_sys ct)"
proof (induction rule: ctl_reach.induct)
  case ctl_init
  then show ?case using reach_init [of pb cbs b] by (auto simp: init_control_def)
next
  case (ctl_next n ct ct')
  then obtain m where m: "m \<le> n" "reach pb cbs b m (ct_sys ct)" by blast
  from ctl_step_sys [OF ctl_next.hyps(2)] show ?case
  proof
    assume "ct_sys ct' = ct_sys ct"
    then show ?thesis using m by (intro exI [of _ m]) simp
  next
    assume "sys_step pb (ct_sys ct) (ct_sys ct')"
    then show ?thesis using m by (intro exI [of _ "Suc m"]) (simp add: reach_step)
  qed
qed

subsection \<open>What the readers pass on\<close>

lemma recv_loop_append:
  "(\<forall>x \<in> set xs. \<not> isl x) \<Longrightarrow> recv_loop (xs @ ys) = recv_loop xs @ recv_loop ys"
  by (induction xs rule: recv_loop.induct) auto

lemma recv_loop_mono: "prefix (recv_loop xs) (recv_loop (xs @ ys))"
  by (induction xs rule: recv_loop.induct) auto

text \<open>The results that the reader holds and \<open>process\<close> has not seen.\<close>

fun in_flight :: "reader \<Rightarrow> bool \<Rightarrow> discovery_request option option list" where
  "in_flight Receiving closed = []"
| "in_flight (Checking x) closed = recv_loop [x]"
| "in_flight (Sending req) closed = [Some req]"
| "in_flight Exited closed = (if closed then [None] else [])"

lemma in_flight_le: "length (in_flight r closed) \<le> 1"
proof (cases r)
  case (Checking x)
  then show ?thesis by (cases x) simp_all
qed simp_all

fun held :: "reader \<Rightarrow> (go_error + discovery_request option) list" where
  "held (Checking x) = [x]"
| "held _ = []"

text \<open>A running stream has processed exactly the requests it took, each once and in order.\<close>

definition processed :: "'k stream \<Rightarrow> discovery_request option option list \<Rightarrow> bool" where
  "processed st taken \<longleftrightarrow> (\<exists>rs. taken = map (\<lambda>r. Some (Some r)) rs \<and>
     st_received st = map (effective_request st) rs)"

definition handler_inv :: "'k stream \<Rightarrow> handler \<Rightarrow> bool" where
  "handler_inv st h \<longleftrightarrow>
     (h_reader h \<noteq> Exited \<longrightarrow> \<not> h_closed h \<and>
        (\<exists>xs. h_results h = xs @ held (h_reader h) \<and> (\<forall>x \<in> set xs. \<not> isl x))) \<and>
     prefix (h_taken h) (recv_loop (h_results h)) \<and>
     (running st \<longrightarrow> h_stop h = 0 \<and> processed st (h_taken h) \<and>
        recv_loop (h_results h) = h_taken h @ in_flight (h_reader h) (h_closed h))"

lemma handler_inv_new: "st_received st = [] \<Longrightarrow> handler_inv st new_handler"
  by (simp add: handler_inv_def new_handler_def processed_def)

lemma handler_inv_recv:
  assumes "handler_inv st h" and "handler_recv x h = Some h'"
  shows "handler_inv st h'"
proof -
  have h: "h_reader h = Receiving" "h' = h\<lparr>h_reader := Checking x, h_results := h_results h @ [x]\<rparr>"
    using assms(2) by (auto simp: handler_recv_def split: reader.splits)
  then have ok: "\<forall>x \<in> set (h_results h). \<not> isl x" using assms(1) by (simp add: handler_inv_def)
  from recv_loop_append [OF ok] show ?thesis
    using assms(1) h ok prefix_order.trans [OF _ recv_loop_mono] by (auto simp: handler_inv_def)
qed

lemma handler_inv_check:
  assumes "handler_inv st h" and "handler_check h = Some h'"
  shows "handler_inv st h'"
proof -
  obtain x where x: "h_reader h = Checking x"
    using assms(2) by (auto simp: handler_check_def split: reader.splits)
  then show ?thesis
    using assms by (cases x) (auto simp: handler_inv_def handler_check_def split: if_splits)
qed

lemma handler_inv_stop: "handler_inv st h \<Longrightarrow> \<not> running st \<Longrightarrow> handler_inv st (handler_stop h)"
  by (simp add: handler_inv_def handler_stop_def)

lemma handler_inv_env:
  assumes "handler_inv st h" and "running st' \<Longrightarrow> running st"
    and "st_received st' = st_received st" "st_type st' = st_type st"
  shows "handler_inv st' h"
proof -
  have "effective_request st' = effective_request st" using assms(4) by (auto simp: effective_request_def)
  then show ?thesis using assms by (simp add: handler_inv_def processed_def)
qed

lemma begin_request_processed:
  assumes "begin_request cbs cancel incoming (c, st) = (c', st')" and "running st'"
  obtains req where "incoming = Some (Some req)" "st_type st' = st_type st"
    "st_received st' = st_received st @ [effective_request st req]"
  using assms(1)
proof (cases rule: begin_request_cases)
  case (finished res st1)
  then show ?thesis using assms(2) by (simp add: finish_def)
qed (use that in simp)+

lemma handler_inv_take:
  assumes inv: "handler_inv st h" and "running st" and take: "handler_take h = Some (incoming, h')"
    and step: "begin_request cbs cancel incoming (c, st) = (c', st')"
  shows "handler_inv st' h'"
proof -
  have h': "h_results h' = h_results h" "h_closed h' = h_closed h" "h_stop h' = h_stop h"
      "h_taken h' = h_taken h @ [incoming]" "h_taken h @ [incoming] = recv_loop (h_results h)"
      "in_flight (h_reader h') (h_closed h) = (if incoming = None then [None] else [])"
      "h_reader h' \<noteq> Exited \<longrightarrow> \<not> h_closed h' \<and>
        (\<exists>xs. h_results h' = xs @ held (h_reader h') \<and> (\<forall>x \<in> set xs. \<not> isl x))"
    using inv take \<open>running st\<close> by (auto simp: handler_take_def handler_inv_def split: reader.splits if_splits)
  have "processed st' (h_taken h') \<and> incoming \<noteq> None" if "running st'"
  proof -
    from step that obtain req where req: "incoming = Some (Some req)" "st_type st' = st_type st"
        "st_received st' = st_received st @ [effective_request st req]" by (rule begin_request_processed)
    moreover obtain rs where "h_taken h = map (\<lambda>r. Some (Some r)) rs" "st_received st = map (effective_request st) rs"
      using inv \<open>running st\<close> by (auto simp: handler_inv_def processed_def)
    moreover have "effective_request st' = effective_request st" using req(2) by (auto simp: effective_request_def)
    ultimately show ?thesis by (auto simp: processed_def h' intro!: exI [of _ "rs @ [req]"])
  qed
  then show ?thesis
    using h' inv \<open>running st\<close> by (auto simp: handler_inv_def)
qed

lemma send_response_received:
  "send_response pb cbs res resp u st = (r, st') \<Longrightarrow> st_received st' = st_received st \<and> st_type st' = st_type st"
  by (erule send_response_cases) simp_all

lemma on_response_received:
  assumes "on_response pb cbs cancel t res (h, c, st) = Some (h', c', st')"
  shows "st_received st' = st_received st \<and> st_type st' = st_type st"
  using assms
  by (auto simp: on_response_def finish_def split: option.splits prod.splits received.splits sum.splits
      dest!: send_response_received)

lemma create_request_received:
  "create_request createWatch e (h, c, st) = Inr (h', c', st') \<Longrightarrow>
   st_received st' = st_received st \<and> st_type st' = st_type st \<and> st_result st' = st_result st"
  by (erule create_request_cases) simp_all

text \<open>The other steps neither add a request to a stream nor start it again.\<close>

lemma other_step_streams:
  assumes "other_step pb s t"
  shows "length (sys_streams t) = length (sys_streams s) \<and> (\<forall>i < length (sys_streams s).
    (running (sys_streams t ! i) \<longrightarrow> running (sys_streams s ! i)) \<and>
    st_received (sys_streams t ! i) = st_received (sys_streams s ! i) \<and>
    st_type (sys_streams t ! i) = st_type (sys_streams s ! i))"
  using assms
proof cases
  case (other_response i u res r)
  then show ?thesis
    by (cases r) (auto simp: nth_list_update dest: on_response_received)
next
  case (other_create i p e r)
  then show ?thesis
    by (cases r) (auto simp: nth_list_update dest: create_request_received)
qed simp_all

definition readers_inv :: "control \<Rightarrow> bool" where
  "readers_inv ct \<longleftrightarrow> length (ct_handlers ct) = length (sys_streams (ct_sys ct)) \<and>
     (\<forall>i < length (ct_handlers ct). handler_inv (sys_streams (ct_sys ct) ! i) (ct_handlers ct ! i))"

lemma process_start_received:
  "process_start cancel u (s, c) = (s', c', st) \<Longrightarrow> st_received st = []"
  by (auto simp: process_start_def Let_def finish_def log_call_def split: option.splits)

lemma readers_inv_at:
  "readers_inv ct \<Longrightarrow> i < length (ct_handlers ct) \<Longrightarrow> handler_inv (sys_streams (ct_sys ct) ! i) (ct_handlers ct ! i)"
  by (simp add: readers_inv_def)

lemma readers_inv_put:
  "readers_inv ct \<Longrightarrow> handler_inv (sys_streams (ct_sys ct) ! i) h \<Longrightarrow> readers_inv (put_handler i h ct)"
  unfolding readers_inv_def put_handler_fields by (metis length_list_update nth_list_update_eq nth_list_update_neq)

lemma readers_inv_step:
  assumes inv: "readers_inv ct" and "ctl_step pb ct ct'"
  shows "readers_inv ct'"
  using assms(2)
proof cases
  case (ctl_open m srv c st)
  then show ?thesis
    using inv handler_inv_new [OF process_start_received [OF ctl_open(2)]]
    by (auto simp: readers_inv_def nth_append less_Suc_eq)
next
  case (ctl_recv i x h)
  then show ?thesis using readers_inv_put [OF inv handler_inv_recv [OF readers_inv_at [OF inv ctl_recv(2)] ctl_recv(3)]] by simp
next
  case (ctl_check i h)
  then show ?thesis using readers_inv_put [OF inv handler_inv_check [OF readers_inv_at [OF inv ctl_check(2)] ctl_check(3)]] by simp
next
  case (ctl_take i incoming h r)
  obtain c st where r: "r = (c, st)" by (cases r)
  have "handler_inv st h"
    using handler_inv_take [OF _ ctl_take(3,5)] ctl_take(2,6) inv unfolding r readers_inv_def by fastforce
  then show ?thesis
    using inv ctl_take by (auto simp: readers_inv_def nth_list_update r)
next
  case (ctl_stop i)
  then show ?thesis using readers_inv_put [OF inv handler_inv_stop [OF readers_inv_at [OF inv ctl_stop(2)]]] by simp
next
  case (ctl_other s)
  then show ?thesis
    using inv other_step_streams [OF ctl_other(2)] handler_inv_env by (fastforce simp: readers_inv_def)
qed

lemma ctl_reach_inv: "ctl_reach pb cbs b n ct \<Longrightarrow> readers_inv ct"
proof (induction rule: ctl_reach.induct)
  case ctl_init
  show ?case by (simp add: readers_inv_def init_control_def init_system_def)
next
  case (ctl_next n ct ct')
  then show ?case by (auto intro: readers_inv_step)
qed

subsection \<open>Readers that stay behind\<close>

text \<open>
  A reader that is about to hand over a request when \<open>process\<close> has returned waits for a
  receiver that never comes: \<open>reqStop\<close> is only tested before the send.
\<close>

definition stuck :: "nat \<Rightarrow> control \<Rightarrow> bool" where
  "stuck i ct \<longleftrightarrow> i < length (ct_handlers ct) \<and> i < length (sys_streams (ct_sys ct)) \<and>
     \<not> running (sys_streams (ct_sys ct) ! i) \<and> (\<exists>req. h_reader (ct_handlers ct ! i) = Sending req)"

lemma stuck_step:
  assumes "stuck i ct" and "ctl_step pb ct ct'"
  shows "stuck i ct'"
  using assms(2)
proof cases
  case (ctl_take j incoming h r)
  then have "j \<noteq> i" using assms(1) by (auto simp: stuck_def)
  then show ?thesis using assms(1) ctl_take by (cases r) (auto simp: stuck_def)
next
  case (ctl_other s)
  then show ?thesis using assms(1) other_step_streams [OF ctl_other(2)] by (auto simp: stuck_def)
qed (use assms(1) in \<open>auto simp: stuck_def nth_list_update nth_append handler_recv_def handler_check_def
    handler_stop_def split: reader.splits\<close>)

lemma stuck_forever: "(ctl_step pb)\<^sup>*\<^sup>* ct ct' \<Longrightarrow> stuck i ct \<Longrightarrow> stuck i ct'"
  by (induction rule: rtranclp_induct) (auto intro: stuck_step)

text \<open>A reader that is still in \<open>stream.Recv\<close> when \<open>handler\<close> returns gives up after it.\<close>

lemma stopped_reader_exits:
  assumes "h_reader h = Receiving" and "h_stop h \<noteq> 0"
  shows "\<exists>h1 h2. handler_recv x h = Some h1 \<and> handler_check h1 = Some h2 \<and>
    h_reader h2 = Exited \<and> h_closed h2 = h_closed h"
  using assms by (simp add: handler_recv_def handler_check_def)

subsection \<open>Requests in order\<close>

text \<open>
  A run that leaves a reader behind: the client sends a nil message, which ends \<open>process\<close>,
  and a request that arrives before \<open>reqStop\<close> is set.
\<close>

definition sample_reader :: "reader \<Rightarrow> (go_error + discovery_request option) list \<Rightarrow> discovery_request option option list \<Rightarrow> handler" where
  "sample_reader r xs ts = \<lparr>h_reader = r, h_closed = False, h_stop = 0, h_results = xs, h_taken = ts\<rparr>"

definition sample_ended :: system where
  "sample_ended = sample_opened\<lparr>sys_streams :=
     [(sample_stream zero_watches None [])\<lparr>st_result := Some (Some (Status Unavailable ''empty request''))\<rparr>]\<rparr>"

definition sample_control :: "system \<Rightarrow> handler \<Rightarrow> control" where
  "sample_control s h = \<lparr>ct_sys = s, ct_handlers = [h]\<rparr>"

definition sample_left :: control where
  "sample_left = sample_control sample_ended
     (sample_reader (Sending (Some sample_request)) [Inr None, Inr (Some sample_request)] [Some None])"

lemma sample_control_open:
  "ctl_step pb (init_control None False) (sample_control sample_opened new_handler)"
proof -
  have "process_start cancelWatch (stream_type StreamRoutes)
      (sys_server (init_system None False), sys_cache (init_system None False)) =
      (\<lparr>srv_callbacks = None, srv_streamCount = 1\<rparr>, sys_cache (init_system None False), sample_stream zero_watches None [])"
    by (simp add: process_start_def init_system_def NewServer_def sample_stream_def)
  then show ?thesis
    using ctl_open [of StreamRoutes "init_control None False" _ _ _ pb]
    by (simp add: sample_control_def init_control_def sample_opened_def init_system_def)
qed

lemma sample_control_take:
  "ctl_step pb (sample_control sample_opened (sample_reader (Sending None) [Inr None] []))
     (sample_control sample_ended (sample_reader Receiving [Inr None] [Some None]))"
proof -
  let ?ct = "sample_control sample_opened (sample_reader (Sending None) [Inr None] [])"
  have take: "handler_take (ct_handlers ?ct ! 0) = Some (Some None, sample_reader Receiving [Inr None] [Some None])"
    by (simp add: sample_control_def handler_take_def sample_reader_def)
  have step: "begin_request (sys_callbacks (ct_sys ?ct)) cancelWatch (Some None)
      (sys_cache (ct_sys ?ct), sys_streams (ct_sys ?ct) ! 0) =
      (sys_cache sample_opened, sys_streams sample_ended ! 0)"
    by (simp add: begin_request_def finish_def Cancel_def call_cancel_def sample_ended_def sample_defs
        zero_watches_def log_call_def sample_control_def)
  from ctl_take [OF _ _ _ take step] show ?thesis
    by (simp add: sample_control_def put_handler_def put_stream_def
        sample_ended_def sample_opened_def sample_stream_def init_system_def)
qed

lemma sample_control_recv:
  "ctl_step pb (sample_control s (sample_reader Receiving xs ts))
     (sample_control s (sample_reader (Checking x) (xs @ [x]) ts))"
  using ctl_recv [of 0 "sample_control s (sample_reader Receiving xs ts)" x _ pb]
  by (simp add: sample_control_def handler_recv_def sample_reader_def put_handler_def)

lemma sample_control_check:
  "ctl_step pb (sample_control s (sample_reader (Checking (Inr q)) xs ts))
     (sample_control s (sample_reader (Sending q) xs ts))"
  using ctl_check [of 0 "sample_control s (sample_reader (Checking (Inr q)) xs ts)" _ pb]
  by (simp add: sample_control_def handler_check_def sample_reader_def put_handler_def)

lemma sample_left_reach: "ctl_reach pb None False 6 sample_left"
proof -
  have "ctl_reach pb None False 1 (sample_control sample_opened (sample_reader Receiving [] []))"
    using ctl_next [OF ctl_init sample_control_open] by (simp add: sample_reader_def new_handler_def)
  from ctl_next [OF this sample_control_recv [of _ _ _ _ "Inr None"]]
  have "ctl_reach pb None False 2 (sample_control sample_opened (sample_reader (Checking (Inr None)) [Inr None] []))"
    by (simp add: numeral_2_eq_2)
  note ctl_next [OF ctl_next [OF this sample_control_check] sample_control_take]
  from ctl_next [OF ctl_next [OF this sample_control_recv] sample_control_check]
  show ?thesis by (simp add: sample_left_def)
qed

text \<open>
  C40. Between the network and the stream loop no request is lost, repeated or reordered: with
  the two goroutines of every stream, each run is still a run of the system of streams; the
  stream takes from its channel exactly what the client sent, in order and up to the first
  error, and while it runs it has processed every request it took and only the one message
  the reader holds is missing. But a reader that holds a request when the stream has ended
  stays blocked for ever.
\<close>
theorem requests_in_order:
  assumes "ctl_reach pb cbs b n ct" and "i < length (ct_handlers ct)"
  shows "(\<exists>m \<le> n. reach pb cbs b m (ct_sys ct)) \<and>
    prefix (h_taken (ct_handlers ct ! i)) (recv_loop (h_results (ct_handlers ct ! i))) \<and>
    (running (sys_streams (ct_sys ct) ! i) \<longrightarrow>
       (\<exists>rs. h_taken (ct_handlers ct ! i) = map (\<lambda>r. Some (Some r)) rs \<and>
         st_received (sys_streams (ct_sys ct) ! i) = map (effective_request (sys_streams (ct_sys ct) ! i)) rs) \<and>
       length (recv_loop (h_results (ct_handlers ct ! i))) \<le> Suc (length (h_taken (ct_handlers ct ! i)))) \<and>
    (\<not> running (sys_streams (ct_sys ct) ! i) \<and> (\<exists>req. h_reader (ct_handlers ct ! i) = Sending req) \<longrightarrow>
       (\<forall>ct'. (ctl_step pb)\<^sup>*\<^sup>* ct ct' \<longrightarrow> (\<exists>req. h_reader (ct_handlers ct' ! i) = Sending req)))"
proof (intro conjI)
  note inv = ctl_reach_inv [OF assms(1)]
  note h = readers_inv_at [OF inv assms(2)]
  show "\<exists>m \<le> n. reach pb cbs b m (ct_sys ct)" by (rule ctl_reach_sys [OF assms(1)])
  show "prefix (h_taken (ct_handlers ct ! i)) (recv_loop (h_results (ct_handlers ct ! i)))"
    using h by (simp add: handler_inv_def)
  show "running (sys_streams (ct_sys ct) ! i) \<longrightarrow>
       (\<exists>rs. h_taken (ct_handlers ct ! i) = map (\<lambda>r. Some (Some r)) rs \<and>
         st_received (sys_streams (ct_sys ct) ! i) = map (effective_request (sys_streams (ct_sys ct) ! i)) rs) \<and>
       length (recv_loop (h_results (ct_handlers ct ! i))) \<le> Suc (length (h_taken (ct_handlers ct ! i)))"
    using h in_flight_le by (auto simp: handler_inv_def processed_def)
  have "stuck i ct" if "\<not> running (sys_streams (ct_sys ct) ! i)" "\<exists>req. h_reader (ct_handlers ct ! i) = Sending req"
    using that inv assms(2) by (simp add: stuck_def readers_inv_def)
  then show "\<not> running (sys_streams (ct_sys ct) ! i) \<and> (\<exists>req. h_reader (ct_handlers ct ! i) = Sending req) \<longrightarrow>
       (\<forall>ct'. (ctl_step pb)\<^sup>*\<^sup>* ct ct' \<longrightarrow> (\<exists>req. h_reader (ct_handlers ct' ! i) = Sending req))"
    using stuck_forever unfolding stuck_def by blast
qed

theorem requests_in_order_witness:
  "h_taken (ct_handlers sample_left ! 0) = [Some None] \<and>
   prefix [Some None] (recv_loop [Inr None, Inr (Some sample_request)]) \<and>
   (\<exists>req. h_reader (ct_handlers (put_handler 0 (handler_stop (ct_handlers sample_left ! 0)) sample_left) ! 0) = Sending req)"
proof -
  have left: "0 < length (ct_handlers sample_left)"
    "\<not> running (sys_streams (ct_sys sample_left) ! 0)" "\<exists>req. h_reader (ct_handlers sample_left ! 0) = Sending req"
    "h_taken (ct_handlers sample_left ! 0) = [Some None]"
    "h_results (ct_handlers sample_left ! 0) = [Inr None, Inr (Some sample_request)]"
    by (simp_all add: sample_left_def sample_control_def sample_ended_def sample_stream_def sample_reader_def)
  have "(ctl_step protobuf_sample)\<^sup>*\<^sup>* sample_left (put_handler 0 (handler_stop (ct_handlers sample_left ! 0)) sample_left)"
    by (intro r_into_rtranclp ctl_stop left)
  then show ?thesis
    using requests_in_order [OF sample_left_reach [of protobuf_sample] left(1)] left(2-) by metis
qed

end
