(* ===== verification/Locks.thy ===== *)
theory Locks
  imports Cache "HOL-Library.Product_Lexorder"
begin

text \<open>
  The mutexes of \<open>pkg/cache/simple.go\<close> and \<open>pkg/cache/status.go\<close>: \<open>cache.mu\<close> and one \<open>info.mu\<close>
  for each status object, both of type \<open>sync.RWMutex\<close>. The other theories take a cache operation
  for one step of the system; this one justifies it. Every operation has the sequence of its calls
  of \<open>Lock\<close>, \<open>Unlock\<close>, \<open>RLock\<close> and \<open>RUnlock\<close> (deferred calls come last), which depends on the branch
  the operation takes. Any number of goroutines run such sequences in any interleaving.

  The comment of \<open>statusInfo\<close> says that one should not acquire the mutex of the parent cache after
  acquiring its own. That is an order on mutexes, and every operation acquires in ascending order
  (\<open>disciplined\<close>), so the goroutines never deadlock, not even with writers that wait.
\<close>

subsection \<open>Mutexes and their order\<close>

text \<open>\<open>InfoMu i\<close> is the mutex of the status object \<open>i\<close>.\<close>

datatype mutex = CacheMu | InfoMu nat

instantiation mutex :: linorder
begin

fun less_mutex :: "mutex \<Rightarrow> mutex \<Rightarrow> bool" where
  "less_mutex m CacheMu = False"
| "less_mutex CacheMu (InfoMu j) = True"
| "less_mutex (InfoMu i) (InfoMu j) = (i < j)"

definition less_eq_mutex :: "mutex \<Rightarrow> mutex \<Rightarrow> bool" where
  "less_eq_mutex m n = (m < n \<or> m = n)"

instance
proof
  fix x y z :: mutex
  show "x < y \<longleftrightarrow> x \<le> y \<and> \<not> y \<le> x"
    by (cases x; cases y) (auto simp: less_eq_mutex_def)
  show "x \<le> x" by (simp add: less_eq_mutex_def)
  show "x \<le> y \<Longrightarrow> y \<le> z \<Longrightarrow> x \<le> z"
    by (cases x; cases y; cases z) (auto simp: less_eq_mutex_def)
  show "x \<le> y \<Longrightarrow> y \<le> x \<Longrightarrow> x = y"
    by (cases x; cases y) (auto simp: less_eq_mutex_def)
  show "x \<le> y \<or> y \<le> x"
    by (cases x; cases y) (auto simp: less_eq_mutex_def)
qed

end

subsection \<open>What the operations lock\<close>

text \<open>
  \<open>Lock\<close> of a \<open>sync.RWMutex\<close> works in two steps: it announces the writer, which keeps new readers
  and other writers out, and then waits for the readers that are still inside.
\<close>

datatype lock_step = Announce mutex | Enter mutex | Unlock mutex | RLock mutex | RUnlock mutex

definition Lock :: "mutex \<Rightarrow> lock_step list" where
  "Lock m = [Announce m, Enter m]"

text \<open>
  \<open>obj node\<close> is the status object that the operation finds in (or puts into) \<open>cache.status\<close> for
  the node.
\<close>

definition SetSnapshot_locks :: "(string \<Rightarrow> nat) \<Rightarrow> string \<Rightarrow> snapshot_cache \<Rightarrow> lock_step list" where
  "SetSnapshot_locks obj node cache =
     Lock CacheMu @
     (if mhas (status cache) node then Lock (InfoMu (obj node)) @ [Unlock (InfoMu (obj node))] else []) @
     [Unlock CacheMu]"

definition ClearSnapshot_locks :: "lock_step list" where
  "ClearSnapshot_locks = Lock CacheMu @ [Unlock CacheMu]"

definition CreateWatch_locks :: "(string \<Rightarrow> nat) \<Rightarrow> discovery_request \<Rightarrow> snapshot_cache \<Rightarrow> lock_step list" where
  "CreateWatch_locks obj request cache =
     (let node = nodeID request;
          info = InfoMu (obj node);
          snap = (case map_of (snapshots cache) node of Some s \<Rightarrow> s | None \<Rightarrow> zero_snapshot);
          version = GetVersion (Some snap) (req_TypeUrl request)
      in Lock CacheMu @ Lock info @ [Unlock info] @
         (if \<not> mhas (snapshots cache) node \<or> req_VersionInfo request = version
          then Lock info @ [Unlock info] else []) @
         [Unlock CacheMu])"

fun cancelWatch_locks :: "(string \<Rightarrow> nat) \<Rightarrow> cancel \<Rightarrow> snapshot_cache \<Rightarrow> lock_step list" where
  "cancelWatch_locks obj (CancelWatch node watchID) cache =
     Lock CacheMu @
     (if mhas (status cache) node then Lock (InfoMu (obj node)) @ [Unlock (InfoMu (obj node))] else []) @
     [Unlock CacheMu]"

definition Fetch_locks :: "lock_step list" where
  "Fetch_locks = [RLock CacheMu, RUnlock CacheMu]"

definition GetStatusInfo_locks :: "lock_step list" where
  "GetStatusInfo_locks = [RLock CacheMu, RUnlock CacheMu]"

definition GetStatusKeys_locks :: "lock_step list" where
  "GetStatusKeys_locks = [RLock CacheMu, RUnlock CacheMu]"

text \<open>\<open>GetNode\<close>, \<open>GetNumWatches\<close> and \<open>GetLastWatchRequestTime\<close> of a status object.\<close>

definition getter_locks :: "nat \<Rightarrow> lock_step list" where
  "getter_locks info = [RLock (InfoMu info), RUnlock (InfoMu info)]"

datatype cache_call =
    CallSetSnapshot string
  | CallClearSnapshot
  | CallCreateWatch discovery_request
  | CallCancel cancel
  | CallFetch
  | CallGetStatusInfo
  | CallGetStatusKeys
  | CallGetter nat

text \<open>A call in the state \<open>cache\<close> it finds once it holds \<open>cache.mu\<close>.\<close>

fun call_locks :: "(string \<Rightarrow> nat) \<times> snapshot_cache \<times> cache_call \<Rightarrow> lock_step list" where
  "call_locks (obj, cache, CallSetSnapshot node) = SetSnapshot_locks obj node cache"
| "call_locks (obj, cache, CallClearSnapshot) = ClearSnapshot_locks"
| "call_locks (obj, cache, CallCreateWatch request) = CreateWatch_locks obj request cache"
| "call_locks (obj, cache, CallCancel k) = cancelWatch_locks obj k cache"
| "call_locks (obj, cache, CallFetch) = Fetch_locks"
| "call_locks (obj, cache, CallGetStatusInfo) = GetStatusInfo_locks"
| "call_locks (obj, cache, CallGetStatusKeys) = GetStatusKeys_locks"
| "call_locks (obj, cache, CallGetter info) = getter_locks info"

subsection \<open>Goroutines\<close>

datatype lock_mode = Waiting | Writing | Reading

record goroutine =
  g_held :: "(mutex \<times> lock_mode) list"
  g_todo :: "lock_step list"

definition announced :: "mutex \<Rightarrow> goroutine \<Rightarrow> bool" where
  "announced m g \<longleftrightarrow> (m, Waiting) \<in> set (g_held g) \<or> (m, Writing) \<in> set (g_held g)"

definition reads :: "mutex \<Rightarrow> goroutine \<Rightarrow> bool" where
  "reads m g \<longleftrightarrow> (m, Reading) \<in> set (g_held g)"

fun can_step :: "goroutine list \<Rightarrow> lock_step \<Rightarrow> bool" where
  "can_step gs (Announce m) = (\<forall>g \<in> set gs. \<not> announced m g)"
| "can_step gs (RLock m) = (\<forall>g \<in> set gs. \<not> announced m g)"
| "can_step gs (Enter m) = (\<forall>g \<in> set gs. \<not> reads m g)"
| "can_step gs (Unlock m) = True"
| "can_step gs (RUnlock m) = True"

fun do_step :: "lock_step \<Rightarrow> (mutex \<times> lock_mode) list \<Rightarrow> (mutex \<times> lock_mode) list" where
  "do_step (Announce m) hs = (m, Waiting) # hs"
| "do_step (Enter m) hs = (m, Writing) # remove1 (m, Waiting) hs"
| "do_step (RLock m) hs = (m, Reading) # hs"
| "do_step (Unlock m) hs = remove1 (m, Writing) hs"
| "do_step (RUnlock m) hs = remove1 (m, Reading) hs"

definition run_goroutine :: "nat \<Rightarrow> goroutine list \<Rightarrow> goroutine list option" where
  "run_goroutine i gs =
     (if i < length gs then
        case g_todo (gs ! i) of
          [] \<Rightarrow> None
        | p # ps \<Rightarrow>
            if can_step gs p then Some (gs[i := \<lparr>g_held = do_step p (g_held (gs ! i)), g_todo = ps\<rparr>]) else None
      else None)"

text \<open>\<open>lock_reach progs k gs\<close>: goroutines with these sequences can be in the state \<open>gs\<close> after \<open>k\<close> steps.\<close>

inductive lock_reach :: "lock_step list list \<Rightarrow> nat \<Rightarrow> goroutine list \<Rightarrow> bool" for progs where
  lock_init: "lock_reach progs 0 (map (\<lambda>ps. \<lparr>g_held = [], g_todo = ps\<rparr>) progs)"
| lock_next: "lock_reach progs k gs \<Longrightarrow> run_goroutine i gs = Some gs' \<Longrightarrow> lock_reach progs (Suc k) gs'"

subsection \<open>The discipline\<close>

fun disciplined :: "(mutex \<times> lock_mode) list \<Rightarrow> lock_step list \<Rightarrow> bool" where
  "disciplined hs [] = (hs = [])"
| "disciplined hs (Announce m # ps) = ((\<forall>h \<in> set hs. fst h < m) \<and> disciplined ((m, Waiting) # hs) ps)"
| "disciplined hs (RLock m # ps) = ((\<forall>h \<in> set hs. fst h < m) \<and> disciplined ((m, Reading) # hs) ps)"
| "disciplined hs (Enter m # ps) =
     (case hs of
        [] \<Rightarrow> False
      | h # hs' \<Rightarrow> h = (m, Waiting) \<and> (\<forall>h \<in> set hs'. fst h < m) \<and> disciplined ((m, Writing) # hs') ps)"
| "disciplined hs (Unlock m # ps) =
     (case hs of [] \<Rightarrow> False | h # hs' \<Rightarrow> h = (m, Writing) \<and> disciplined hs' ps)"
| "disciplined hs (RUnlock m # ps) =
     (case hs of [] \<Rightarrow> False | h # hs' \<Rightarrow> h = (m, Reading) \<and> disciplined hs' ps)"

lemma cancelWatch_disciplined: "disciplined [] (cancelWatch_locks obj k cache)"
  by (cases k) (simp add: Lock_def)

lemma call_locks_disciplined: "disciplined [] (call_locks call)"
  by (cases call rule: call_locks.cases)
    (auto simp: SetSnapshot_locks_def ClearSnapshot_locks_def CreateWatch_locks_def Fetch_locks_def
      GetStatusInfo_locks_def GetStatusKeys_locks_def getter_locks_def Lock_def Let_def cancelWatch_disciplined)

lemma disciplined_step: "disciplined hs (p # ps) \<Longrightarrow> disciplined (do_step p hs) ps"
  by (cases p) (auto split: list.splits)

subsection \<open>Progress\<close>

text \<open>
  What a goroutine waits for: a mutex and how far it got with it. A goroutine that is blocked
  waits for one whose own next mutex is greater, or the same with a greater stage.
\<close>

fun wait_key :: "lock_step \<Rightarrow> mutex \<times> nat" where
  "wait_key (Announce m) = (m, 0)"
| "wait_key (RLock m) = (m, 0)"
| "wait_key (Enter m) = (m, 1)"
| "wait_key (Unlock m) = (m, 0)"
| "wait_key (RUnlock m) = (m, 0)"

lemma holder_waits_above:
  assumes "disciplined hs (p # ps)" and "(m, mode) \<in> set hs" and "\<forall>l. p \<noteq> Unlock l \<and> p \<noteq> RUnlock l"
  shows "(m, if mode = Reading then 1 else 0) < wait_key p"
  using assms by (cases p) (auto split: list.splits)

lemma blocked_waits:
  assumes "\<And>g. g \<in> set gs \<Longrightarrow> disciplined (g_held g) (g_todo g)" and "\<not> can_step gs p"
    and blocked: "\<And>g q qs. g \<in> set gs \<Longrightarrow> g_todo g = q # qs \<Longrightarrow> \<not> can_step gs q"
  shows "\<exists>g \<in> set gs. \<exists>q qs. g_todo g = q # qs \<and> wait_key p < wait_key q"
proof -
  have above: "\<exists>q qs. g_todo g = q # qs \<and> (m, if mode = Reading then 1 else 0) < wait_key q"
    if g: "g \<in> set gs" "(m, mode) \<in> set (g_held g)" for g m mode
  proof (cases "g_todo g")
    case Nil
    then show ?thesis using assms(1) [OF g(1)] g(2) by simp
  next
    case (Cons q qs)
    then have "\<forall>l. q \<noteq> Unlock l \<and> q \<noteq> RUnlock l" using blocked [OF g(1)] by force
    then show ?thesis using holder_waits_above [OF _ g(2)] assms(1) [OF g(1)] Cons by simp
  qed
  have ann: "\<exists>g \<in> set gs. \<exists>q qs. g_todo g = q # qs \<and> (m, 0) < wait_key q"
    if "\<exists>g \<in> set gs. announced m g" for m
    using that above unfolding announced_def by fastforce
  from assms(2) show ?thesis
  proof (cases p)
    case (Enter m)
    then show ?thesis using assms(2) above [of _ m Reading] by (fastforce simp: reads_def)
  qed (use assms(2) ann in auto)
qed

lemma progress:
  assumes "\<And>g. g \<in> set gs \<Longrightarrow> disciplined (g_held g) (g_todo g)" and "g \<in> set gs" and "g_todo g \<noteq> []"
  shows "\<exists>i gs'. run_goroutine i gs = Some gs'"
proof (rule ccontr)
  assume stuck: "\<nexists>i gs'. run_goroutine i gs = Some gs'"
  have blocked: "\<not> can_step gs q" if g: "g \<in> set gs" "g_todo g = q # qs" for g q qs
  proof -
    obtain i where "i < length gs" "gs ! i = g" using g(1) by (metis in_set_conv_nth)
    then have "can_step gs q \<Longrightarrow> run_goroutine i gs \<noteq> None" using g(2) by (simp add: run_goroutine_def)
    then show ?thesis using stuck by blast
  qed
  define keys where "keys = {wait_key q | g q qs. g \<in> set gs \<and> g_todo g = q # qs}"
  have "keys \<subseteq> (\<lambda>g. wait_key (hd (g_todo g))) ` set gs" by (force simp: keys_def)
  then have fin: "finite keys" by (rule finite_subset) simp
  obtain q0 qs0 where "g_todo g = q0 # qs0" using assms(3) by (auto simp: neq_Nil_conv)
  then have "wait_key q0 \<in> keys" using assms(2) unfolding keys_def by blast
  then have "keys \<noteq> {}" by blast
  then have "Max keys \<in> keys" using fin by simp
  then obtain g q qs where g: "g \<in> set gs" "g_todo g = q # qs" "wait_key q = Max keys" by (auto simp: keys_def)
  have "\<exists>g \<in> set gs. \<exists>q' qs'. g_todo g = q' # qs' \<and> wait_key q < wait_key q'"
    by (rule blocked_waits) (erule assms(1), rule blocked [OF g(1,2)], erule (1) blocked)
  then obtain g' q' qs' where "g' \<in> set gs" "g_todo g' = q' # qs'" "wait_key q < wait_key q'" by blast
  moreover from this have "wait_key q' \<le> Max keys" using fin by (intro Max_ge) (auto simp: keys_def)
  ultimately show False using g(3) by simp
qed

subsection \<open>Mutual exclusion and the end of a run\<close>

definition exclusive :: "goroutine list \<Rightarrow> bool" where
  "exclusive gs \<longleftrightarrow> (\<forall>i < length gs. \<forall>j < length gs. \<forall>m. i \<noteq> j \<longrightarrow>
     (announced m (gs ! i) \<longrightarrow> \<not> announced m (gs ! j)) \<and>
     ((m, Writing) \<in> set (g_held (gs ! i)) \<longrightarrow> \<not> reads m (gs ! j)))"

lemma run_goroutine_cases:
  assumes "run_goroutine i gs = Some gs'"
  obtains p ps where "i < length gs" "g_todo (gs ! i) = p # ps" "can_step gs p"
    "gs' = gs[i := \<lparr>g_held = do_step p (g_held (gs ! i)), g_todo = ps\<rparr>]"
  using assms by (auto simp: run_goroutine_def split: if_splits list.splits)

text \<open>What a step adds to the mutexes a goroutine holds.\<close>

lemma do_step_held:
  assumes "disciplined hs (p # ps)" and "h = \<lparr>g_held = do_step p hs, g_todo = ps\<rparr>" and "g_held g = hs"
  shows "announced m h \<Longrightarrow> announced m g \<or> p = Announce m"
    "(m, Writing) \<in> set (g_held h) \<Longrightarrow> (m, Writing) \<in> set (g_held g) \<or> p = Enter m"
    "reads m h \<Longrightarrow> reads m g \<or> p = RLock m"
    "p = Enter m \<Longrightarrow> announced m g"
  using assms by (cases p; auto simp: announced_def reads_def split: list.splits)+

lemma exclusive_step:
  assumes "exclusive gs" and "\<And>g. g \<in> set gs \<Longrightarrow> disciplined (g_held g) (g_todo g)"
    and "run_goroutine i gs = Some gs'"
  shows "exclusive gs'"
proof -
  obtain p ps where i: "i < length gs" "g_todo (gs ! i) = p # ps" and p: "can_step gs p"
    and gs': "gs' = gs[i := \<lparr>g_held = do_step p (g_held (gs ! i)), g_todo = ps\<rparr>]"
    using assms(3) by (rule run_goroutine_cases)
  let ?g = "gs ! i" and ?h = "\<lparr>g_held = do_step p (g_held (gs ! i)), g_todo = ps\<rparr>"
  have "disciplined (g_held ?g) (p # ps)" using assms(2) [OF nth_mem [OF i(1)]] i(2) by simp
  note held = do_step_held [OF this refl refl]
  have one: "(announced m ?h \<longrightarrow> \<not> announced m (gs ! j)) \<and> ((m, Writing) \<in> set (g_held ?h) \<longrightarrow> \<not> reads m (gs ! j)) \<and>
      ((m, Writing) \<in> set (g_held (gs ! j)) \<longrightarrow> \<not> reads m ?h)" if j: "j < length gs" "j \<noteq> i" for j m
  proof -
    have ex: "announced m ?g \<longrightarrow> \<not> announced m (gs ! j)" "(m, Writing) \<in> set (g_held ?g) \<longrightarrow> \<not> reads m (gs ! j)"
        "(m, Writing) \<in> set (g_held (gs ! j)) \<longrightarrow> \<not> reads m ?g"
      using assms(1) i(1) j unfolding exclusive_def by blast+
    have "gs ! j \<in> set gs" using j(1) by simp
    then have "p = Announce m \<longrightarrow> \<not> announced m (gs ! j)" "p = Enter m \<longrightarrow> \<not> reads m (gs ! j)"
        "p = RLock m \<longrightarrow> (m, Writing) \<notin> set (g_held (gs ! j))"
      using p by (auto simp: announced_def)
    then show ?thesis using ex held [of m] by blast
  qed
  show ?thesis
    unfolding exclusive_def gs'
  proof (intro allI impI)
    fix j k m assume jk: "j < length (gs[i := ?h])" "k < length (gs[i := ?h])" "j \<noteq> k"
    show "(announced m (gs[i := ?h] ! j) \<longrightarrow> \<not> announced m (gs[i := ?h] ! k)) \<and>
        ((m, Writing) \<in> set (g_held (gs[i := ?h] ! j)) \<longrightarrow> \<not> reads m (gs[i := ?h] ! k))"
    proof (cases "j = i \<or> k = i")
      case True
      then show ?thesis using one [of j m] one [of k m] jk i(1) by auto
    next
      case False
      then show ?thesis using assms(1) jk unfolding exclusive_def by simp
    qed
  qed
qed

definition steps_left :: "goroutine list \<Rightarrow> nat" where
  "steps_left gs = sum_list (map (\<lambda>g. length (g_todo g)) gs)"

lemma steps_left_step:
  assumes "run_goroutine i gs = Some gs'"
  shows "steps_left gs = Suc (steps_left gs')"
proof -
  obtain p ps where i: "i < length gs" "g_todo (gs ! i) = p # ps"
    and gs': "gs' = gs[i := \<lparr>g_held = do_step p (g_held (gs ! i)), g_todo = ps\<rparr>]"
    using assms by (rule run_goroutine_cases)
  have "gs = take i gs @ gs ! i # drop (Suc i) gs" using i(1) by (rule id_take_nth_drop)
  then have "steps_left gs = steps_left (take i gs @ gs ! i # drop (Suc i) gs)" by simp
  then show ?thesis using i by (simp add: gs' upd_conv_take_nth_drop steps_left_def)
qed

lemma lock_reach_inv:
  assumes "lock_reach progs k gs" and "\<And>ps. ps \<in> set progs \<Longrightarrow> disciplined [] ps"
  shows "(\<forall>g \<in> set gs. disciplined (g_held g) (g_todo g)) \<and> exclusive gs \<and>
    k + steps_left gs = sum_list (map length progs)"
  using assms(1)
proof induction
  case lock_init
  then show ?case using assms(2) by (auto simp: exclusive_def announced_def steps_left_def comp_def)
next
  case (lock_next k gs i gs')
  then have d: "\<And>g. g \<in> set gs \<Longrightarrow> disciplined (g_held g) (g_todo g)" by blast
  obtain p ps where "i < length gs" "g_todo (gs ! i) = p # ps"
    and gs': "gs' = gs[i := \<lparr>g_held = do_step p (g_held (gs ! i)), g_todo = ps\<rparr>]"
    using lock_next.hyps(2) by (rule run_goroutine_cases)
  then have "disciplined (do_step p (g_held (gs ! i))) ps"
    using d [of "gs ! i"] disciplined_step by simp
  then have "\<forall>g \<in> set gs'. disciplined (g_held g) (g_todo g)"
    using d set_update_subset_insert [of gs i] unfolding gs' by fastforce
  then show ?case
    using exclusive_step [OF _ d lock_next.hyps(2)] steps_left_step [OF lock_next.hyps(2)] lock_next.IH by simp
qed

text \<open>
  C31. The two kinds of mutexes of the cache never deadlock: any number of cache operations and
  status queries that run concurrently, each in whatever branch, complete after exactly as many
  lock steps as they have together, because as long as one of them is not done some goroutine can
  take a step. A writer has its mutex to itself. So a cache operation is atomic for the others,
  as the model of the system assumes.
\<close>
theorem locks_never_deadlock:
  assumes "lock_reach (map call_locks calls) k gs"
  shows "k + sum_list (map (\<lambda>g. length (g_todo g)) gs) = sum_list (map (\<lambda>call. length (call_locks call)) calls) \<and>
    ((\<exists>g \<in> set gs. g_todo g \<noteq> []) \<longrightarrow> (\<exists>i gs'. run_goroutine i gs = Some gs')) \<and>
    (\<forall>i < length gs. \<forall>j < length gs. \<forall>m mode. i \<noteq> j \<longrightarrow> (m, Writing) \<in> set (g_held (gs ! i)) \<longrightarrow>
       (m, mode) \<notin> set (g_held (gs ! j)))"
proof -
  have "disciplined [] ps" if "ps \<in> set (map call_locks calls)" for ps
    using that call_locks_disciplined by auto
  note inv = lock_reach_inv [OF assms this]
  then have d: "\<And>g. g \<in> set gs \<Longrightarrow> disciplined (g_held g) (g_todo g)" by blast
  have "(m, mode) \<notin> set (g_held (gs ! j))"
    if "i < length gs" "j < length gs" "i \<noteq> j" "(m, Writing) \<in> set (g_held (gs ! i))" for i j m mode
  proof -
    have "announced m (gs ! i)" using that(4) by (simp add: announced_def)
    then have "\<not> announced m (gs ! j)" "\<not> reads m (gs ! j)"
      using inv that unfolding exclusive_def by blast+
    then show ?thesis by (cases mode) (simp_all add: announced_def reads_def)
  qed
  moreover have "k + sum_list (map (\<lambda>g. length (g_todo g)) gs) = sum_list (map (\<lambda>call. length (call_locks call)) calls)"
    using inv by (simp add: steps_left_def comp_def)
  moreover have "\<exists>i gs'. run_goroutine i gs = Some gs'" if "\<exists>g \<in> set gs. g_todo g \<noteq> []"
    using that progress [OF d] by blast
  ultimately show ?thesis by blast
qed

text \<open>A writer that has announced itself waits for a reader that is inside.\<close>

theorem locks_never_deadlock_witness:
  "\<exists>i gs'. run_goroutine i [\<lparr>g_held = [(CacheMu, Reading)], g_todo = [RUnlock CacheMu]\<rparr>,
     \<lparr>g_held = [(CacheMu, Waiting)], g_todo = [Enter CacheMu, Unlock CacheMu]\<rparr>] = Some gs'"
proof -
  let ?calls = "[(\<lambda>_. 0, NewSnapshotCache False, CallFetch), (\<lambda>_. 0, NewSnapshotCache False, CallClearSnapshot)]"
  let ?g1 = "\<lparr>g_held = [(CacheMu, Reading)], g_todo = [RUnlock CacheMu]\<rparr>"
    and ?g2 = "\<lparr>g_held = [(CacheMu, Waiting)], g_todo = [Enter CacheMu, Unlock CacheMu]\<rparr>"
  let ?start = "map (\<lambda>ps. \<lparr>g_held = [], g_todo = ps\<rparr>) (map call_locks ?calls)"
  have start: "?start = [\<lparr>g_held = [], g_todo = [RLock CacheMu, RUnlock CacheMu]\<rparr>,
      \<lparr>g_held = [], g_todo = [Announce CacheMu, Enter CacheMu, Unlock CacheMu]\<rparr>]"
    by (simp add: Fetch_locks_def ClearSnapshot_locks_def Lock_def)
  have "run_goroutine 0 ?start = Some [?g1, \<lparr>g_held = [], g_todo = [Announce CacheMu, Enter CacheMu, Unlock CacheMu]\<rparr>]"
    unfolding start by (simp add: run_goroutine_def announced_def)
  moreover have "run_goroutine 1 [?g1, \<lparr>g_held = [], g_todo = [Announce CacheMu, Enter CacheMu, Unlock CacheMu]\<rparr>] = Some [?g1, ?g2]"
    by (simp add: run_goroutine_def announced_def)
  ultimately have "lock_reach (map call_locks ?calls) (Suc (Suc 0)) [?g1, ?g2]"
    using lock_next [OF lock_next [OF lock_init]] by blast
  from locks_never_deadlock [OF this] show ?thesis by simp
qed

end
