(* ===== verification/WellKnown.thy ===== *)
theory WellKnown
  imports Resource
begin

text \<open>
  \<open>pkg/util/wellknown.go\<close>: the names under which Envoy registers its extensions. \<open>Resource\<close> has
  the ones the programs use; this theory completes the groups. Within a group the names are
  distinct, so a name selects one extension; between groups they are not
  (\<open>shared_ext_authz\<close>).
\<close>

subsection \<open>HTTP filter names\<close>

definition Buffer :: string where "Buffer = ''envoy.buffer''"
definition CORS :: string where "CORS = ''envoy.cors''"
definition Dynamo :: string where "Dynamo = ''envoy.http_dynamo_filter''"
definition GRPCHTTP1Bridge :: string where "GRPCHTTP1Bridge = ''envoy.grpc_http1_bridge''"
definition GRPCJSONTranscoder :: string where "GRPCJSONTranscoder = ''envoy.grpc_json_transcoder''"
definition GRPCWeb :: string where "GRPCWeb = ''envoy.grpc_web''"
definition Gzip :: string where "Gzip = ''envoy.gzip''"
definition IPTagging :: string where "IPTagging = ''envoy.ip_tagging''"
definition HTTPRateLimit :: string where "HTTPRateLimit = ''envoy.rate_limit''"
definition Lua :: string where "Lua = ''envoy.lua''"
definition Squash :: string where "Squash = ''envoy.squash''"

definition http_filter_names :: "string list" where
  "http_filter_names = [Buffer, CORS, Dynamo, Fault, GRPCHTTP1Bridge, GRPCJSONTranscoder,
     GRPCWeb, Gzip, IPTagging, HTTPRateLimit, Router, HealthCheck, Lua, Squash,
     HTTPExternalAuthorization]"

subsection \<open>Network filter names\<close>

definition ClientSSLAuth :: string where "ClientSSLAuth = ''envoy.client_ssl_auth''"
definition Echo :: string where "Echo = ''envoy.echo''"
definition RateLimit :: string where "RateLimit = ''envoy.ratelimit''"
definition MongoProxy :: string where "MongoProxy = ''envoy.mongo_proxy''"
definition ThriftProxy :: string where "ThriftProxy = ''envoy.filters.network.thrift_proxy''"
definition RedisProxy :: string where "RedisProxy = ''envoy.redis_proxy''"
definition MySQLProxy :: string where "MySQLProxy = ''envoy.filters.network.mysql_proxy''"
definition ExternalAuthorization :: string where "ExternalAuthorization = ''envoy.ext_authz''"

definition network_filter_names :: "string list" where
  "network_filter_names = [ClientSSLAuth, Echo, HTTPConnectionManager, TCPProxy, RateLimit,
     MongoProxy, ThriftProxy, RedisProxy, MySQLProxy, ExternalAuthorization]"

subsection \<open>Listener filter names\<close>

definition OriginalDestination :: string where "OriginalDestination = ''envoy.listener.original_dst''"
definition ProxyProtocol :: string where "ProxyProtocol = ''envoy.listener.proxy_protocol''"
definition TLSInspector :: string where "TLSInspector = ''envoy.listener.tls_inspector''"

definition listener_filter_names :: "string list" where
  "listener_filter_names = [OriginalDestination, ProxyProtocol, TLSInspector]"

subsection \<open>Tracing provider names\<close>

definition Lightstep :: string where "Lightstep = ''envoy.lightstep''"
definition Zipkin :: string where "Zipkin = ''envoy.zipkin''"
definition DynamicOT :: string where "DynamicOT = ''envoy.dynamic.ot''"

definition tracing_provider_names :: "string list" where
  "tracing_provider_names = [Lightstep, Zipkin, DynamicOT]"

subsection \<open>Stats sink names\<close>

definition Statsd :: string where "Statsd = ''envoy.statsd''"
definition DogStatsd :: string where "DogStatsd = ''envoy.dog_statsd''"
definition MetricsService :: string where "MetricsService = ''envoy.metrics_service''"

definition stats_sink_names :: "string list" where
  "stats_sink_names = [Statsd, DogStatsd, MetricsService]"

subsection \<open>Access log sink names\<close>

definition HTTPGRPCAccessLog :: string where "HTTPGRPCAccessLog = ''envoy.http_grpc_access_log''"

definition access_log_sink_names :: "string list" where
  "access_log_sink_names = [FileAccessLog, HTTPGRPCAccessLog]"

subsection \<open>Distinct names\<close>

lemmas well_known_defs =
  http_filter_names_def network_filter_names_def listener_filter_names_def
  tracing_provider_names_def stats_sink_names_def access_log_sink_names_def Buffer_def CORS_def
  Dynamo_def Fault_def GRPCHTTP1Bridge_def GRPCJSONTranscoder_def GRPCWeb_def Gzip_def
  IPTagging_def HTTPRateLimit_def Router_def HealthCheck_def Lua_def Squash_def
  HTTPExternalAuthorization_def ClientSSLAuth_def Echo_def HTTPConnectionManager_def
  TCPProxy_def RateLimit_def MongoProxy_def ThriftProxy_def RedisProxy_def MySQLProxy_def
  ExternalAuthorization_def OriginalDestination_def ProxyProtocol_def TLSInspector_def
  Lightstep_def Zipkin_def DynamicOT_def Statsd_def DogStatsd_def MetricsService_def
  FileAccessLog_def HTTPGRPCAccessLog_def

lemma well_known_distinct:
  "distinct http_filter_names"
  "distinct network_filter_names"
  "distinct listener_filter_names"
  "distinct tracing_provider_names"
  "distinct stats_sink_names"
  "distinct access_log_sink_names"
  by (simp_all add: well_known_defs)

lemma shared_ext_authz: "set http_filter_names \<inter> set network_filter_names = {ExternalAuthorization}"
  by (simp add: well_known_defs)

end
