(* ===== verification/Spec2Isabelle.thy ===== *)
theory Spec2Isabelle
  imports ControlPlane CacheSpec Startup Metadata TraceFwd Handler Locks WellKnown
begin

text \<open>
  bent is a control plane for Envoy. Every ten seconds its updater (\<open>pkg/provider/updater.go\<close>)
  asks a service provider for the clusters of every node, builds Envoy's endpoints, clusters,
  routes and listeners for each node, and puts them with a version into the snapshot cache
  (\<open>pkg/cache\<close>). The xDS server (\<open>pkg/server\<close>) runs one \<open>process\<close> loop for each client stream:
  a request opens a watch in the cache, which is answered at once or when the next snapshot with
  another version is set, and the stream sends the answer. The providers are the Fargate
  provider, which reads ECS (\<open>pkg/provider/fargate\<close>), and the file provider
  (\<open>pkg/provider/file\<close>). Two more programs belong to it: the helper that tells a sidecar its
  node identifier (\<open>cmd/envoy/metadata.go\<close>) and an example service that forwards requests with
  their tracing headers (\<open>cmd/trace-fwd/main.go\<close>).

  \<^bold>\<open>Theories and sources.\<close>
  \<^item> \<open>Prelude\<close>, \<open>GoStrings\<close>, \<open>Chan\<close>, \<open>Md5\<close>, \<open>Md5Vectors\<close>, \<open>Calls\<close>: what the programs use of Go and its standard
    library. A computation that can panic or block has type \<open>'a go\<close>; an error result is a sum; a
    map is a list of pairs with distinct keys, and a loop over it takes the order as an
    argument, so that a theorem for all orders holds for every run; integers are words of
    their width; a channel is a cell of a heap; \<open>Md5Vectors\<close> evaluates the hash on two inputs;
    \<open>Calls\<close> is the monad of code that calls services.
  \<^item> \<open>Envoy\<close>, \<open>Resource\<close>, \<open>WellKnown\<close>: the messages, \<open>pkg/util\<close>, \<open>pkg/cache/resource.go\<close>,
    \<open>snapshot.go\<close>.
  \<^item> \<open>CacheInterface\<close>, \<open>Cache\<close>, \<open>CacheSpec\<close>, \<open>Locks\<close>: \<open>pkg/cache/cache.go\<close>, \<open>status.go\<close>,
    \<open>simple.go\<close>. The interface that the server is written against is the locale
    \<open>config_watcher\<close>; the snapshot cache interprets it. \<open>CacheSpec\<close> relates the cache to an
    abstract one, \<open>Locks\<close> has the calls of the mutexes that each operation makes.
  \<^item> \<open>Server\<close>, \<open>Streams\<close>, \<open>System\<close>, \<open>Delivery\<close>, \<open>Handler\<close>: \<open>pkg/server/server.go\<close>. \<open>Server\<close>
    has the stream loop over any watcher and \<open>Streams\<close> its invariants; \<open>System\<close> has the streams,
    the cache and the updater as a step relation with the invariants of its runs, \<open>Delivery\<close> what
    clients receive, and \<open>Handler\<close> adds the reader goroutine of each stream with \<open>reqCh\<close> and
    \<open>reqStop\<close>.
  \<^item> \<open>Annotations\<close>, \<open>ListenerBuilder\<close>, \<open>NodeBuilder\<close>, \<open>Updater\<close>, \<open>Publish\<close>: \<open>provider.go\<close>,
    \<open>cluster.go\<close>, \<open>endpoint.go\<close>, \<open>util.go\<close>, \<open>listener.go\<close>, \<open>node.go\<close>, \<open>updater.go\<close> of \<open>pkg/provider\<close>,
    and what a turn of the updater does to a cache that meets the locale \<open>snapshot_sink\<close>.
  \<^item> \<open>Fargate\<close>, \<open>TaskEndpoints\<close>, \<open>FargateSpec\<close>, \<open>FileProvider\<close>, \<open>Providers\<close>: the two providers;
    the interface \<open>ServiceProvider\<close> is the locale \<open>service_provider\<close>, interpreted on both.
  \<^item> \<open>ControlPlane\<close>, \<open>Startup\<close>, \<open>AwsSession\<close>: the updater beside the server, what a turn does to
    a waiting client, \<open>cmd/bent/main.go\<close> and \<open>aws.go\<close>.
  \<^item> \<open>Metadata\<close>, \<open>TraceFwd\<close>: the other two programs.

  \<^bold>\<open>State.\<close> A \<open>system\<close> has the heap of channels, the cache, the server, the list of streams
  and, as a history, the published snapshots. A step is one critical section of the cache
  mutex or one turn of a stream's loop; a request takes two, because the mutex is free between
  the call of the old cancel function and \<open>CreateWatch\<close>. The deferred \<open>Cancel\<close> of a stream is one
  step although each of its up to five cancel functions takes the mutex anew: between two of
  them the stream takes no other action, and another operation can at most answer a watch that
  the stream no longer reads. \<open>reach pb cbs b n s\<close> says that the system, started with callbacks
  \<open>cbs\<close> and ADS mode \<open>b\<close>, can be in state \<open>s\<close> after \<open>n\<close> steps.

  \<^bold>\<open>What is shown.\<close> C1 to C6 and C15: no cache operation blocks, every open watch has one
  running owner, what a client receives was published for its node, a new snapshot reaches a
  waiting client, nonces are distinct and stale ones ignored, a stream that ends, in whichever
  way, releases what it holds. C14: from a change of the configuration file to the response on
  the wire or the error of the encoder. C13, C30: the unary fetch with all its outcomes and the
  first request. C40: the readers. C31: the mutexes never deadlock, which
  justifies that an operation is one step. C10 to C12, C38: the cache on its own. C32 to C36:
  annotations and builders. C7 to C9, C37, C39: the turn of the updater, its listeners, its versions
  and its panic. C16 to C23, C28, C29: the providers and their turns, from the listed tasks and
  the decoded file to the cache. C24 to C27: the helper and the forwarder.

  \<^bold>\<open>Bounds.\<close> Watches are numbered by a 64-bit counter, so the theorems about runs assume fewer
  than \<open>2 ^ 64 - 1\<close> steps; after that many watches an identifier could be handed out twice. No
  definition has fuel: loops are structural or have a measure, and the listings that follow
  the next tokens of ECS are partial functions that return exactly when the chain of tokens
  ends (C18, C23). The endless loop of \<open>Updater.Run\<close> is a sequence of turns.

  \<^bold>\<open>Parameters.\<close> Protobuf encoding and decoding (\<open>protobuf\<close>), the ECS client
  (\<open>ecs_client\<close>), the file system with the YAML decoder (\<open>file_system\<close>), the HTTP clients
  (\<open>metadata_env\<close>, \<open>net\<close>), the callbacks of the server and the AWS SDK (\<open>aws_sdk\<close>) are arguments.
  What is needed of them is a named hypothesis: \<open>hcm_roundtrip\<close> (a connection manager packed into
  an \<open>Any\<close> message is read back; C8, C37), \<open>yaml_maps\<close> (a decoded mapping has distinct keys; C14,
  C29). C4 speaks of a response that the encoder accepts; C13 and C14 have its errors as
  outcomes. The callbacks are functions of what they are given: they return an error or not, and
  do not change the request or response that they get by pointer.

  \<^bold>\<open>Not modelled.\<close> Logging; flags, the gRPC and HTTP servers and the request multiplexer, which
  are library calls; the waits of \<open>time.After\<close> and \<open>time.Sleep\<close>, which change no state;
  \<open>NewUpdater\<close>, which stores its two arguments; Go interfaces other than the three that are
  locales (\<open>NodeHash\<close> is not used); the test fixtures of \<open>pkg/test\<close>. \<open>StreamSecrets\<close> is in the
  model of the server although \<open>main\<close> does not register its service.
\<close>

section \<open>The running control plane\<close>

text \<open>
  C1. No cache operation blocks or panics: in every state the control plane can reach in
  fewer than 2^64 - 1 steps, setting a snapshot and creating a watch return a result. They
  run under the cache mutex and send on the watch channels, so a send on a full channel would
  stop every stream and the updater.
\<close>
theorem operations_return:
  assumes "reach pb cbs b n s" and "n < 2 ^ 64 - 1"
  shows "(\<forall>word ords node snap. is_order word \<longrightarrow> (\<forall>i j. is_order (ords i j)) \<longrightarrow> snapshot_wf snap \<longrightarrow>
            (\<exists>h c. SetSnapshot word ords node snap (sys_heap s, sys_cache s) = Inr (h, c))) \<and>
         (\<forall>now ords req. (\<forall>j. is_order (ords j)) \<longrightarrow>
            (\<exists>h c ch k. CreateWatch now ords req (sys_heap s, sys_cache s) = Inr ((h, c), ch, k)))"
proof -
  have n: "n < id_limit" using assms(2) by (simp add: id_limit_def)
  note inv = reach_inv [OF assms(1) less_imp_le [OF n]]
  have left: "ids_left (sys_cache s)"
    using reach_ids [OF assms(1) n] by (simp only: ids_left_limit)
  show ?thesis
    using SetSnapshot_inv [OF inv] CreateWatch_inv [OF inv left] by meson
qed

theorem operations_return_witness:
  "(\<exists>h c. SetSnapshot rev (\<lambda>_ _. id) ''web'' sample_snapshot
      (sys_heap sample_watching, sys_cache sample_watching) = Inr (h, c)) \<and>
   (\<exists>h c ch k. CreateWatch 7 (\<lambda>_. rev) sample_request
      (sys_heap sample_watching, sys_cache sample_watching) = Inr ((h, c), ch, k))"
  using operations_return [OF sample_reach(1) [of protobuf_sample]] sample_snapshot_facts(1) by simp

text \<open>
  C2. Watches never leak: an open watch of the cache belongs to exactly one stream, that
  stream is still running, and it listens on the watch's channel. So when a client goes away,
  none of its watches stays behind in the cache.
\<close>
theorem open_watch_owned:
  assumes "reach pb cbs b n s" and "n < 2 ^ 64 - 1" and "open_watch (sys_cache s) node i = Some w"
  shows "\<exists>j < length (sys_streams s). running (sys_streams s ! j) \<and>
    (\<exists>t. get_cancel t (st_values (sys_streams s ! j)) = Some (CancelWatch node i) \<and>
         get_chan t (st_values (sys_streams s ! j)) = Some (w_Response w)) \<and>
    (\<forall>m < length (sys_streams s). holds (sys_streams s ! m) (CancelWatch node i) \<longrightarrow> m = j)"
proof -
  have safe: "safe n s" using reach_safe [OF assms(1)] assms(2) by (simp add: id_limit_def)
  have open_k: "watching_chan (sys_cache s) (CancelWatch node i) = Some (w_Response w)"
    using assms(3) by simp
  then obtain j where j: "j < length (sys_streams s)" "running (sys_streams s ! j)"
      "holds (sys_streams s ! j) (CancelWatch node i)"
    using safe_held [OF safe, of "CancelWatch node i"] by (auto simp: in_set_conv_nth)
  moreover obtain t where "get_cancel t (st_values (sys_streams s ! j)) = Some (CancelWatch node i)"
    using j(3) by (auto simp: holds_def)
  moreover from this have "get_chan t (st_values (sys_streams s ! j)) = Some (w_Response w)"
    using safe_stream [OF safe nth_mem [OF j(1)]] open_k unfolding sc.stream_inv_def by blast
  ultimately show ?thesis using safe_owner [OF safe] by blast
qed

theorem open_watch_owned_witness:
  "\<exists>j < length (sys_streams sample_watching). running (sys_streams sample_watching ! j) \<and>
    (\<exists>t. get_cancel t (st_values (sys_streams sample_watching ! j)) = Some (CancelWatch ''web'' 1) \<and>
         get_chan t (st_values (sys_streams sample_watching ! j)) = Some 0) \<and>
    (\<forall>m < length (sys_streams sample_watching).
       holds (sys_streams sample_watching ! m) (CancelWatch ''web'' 1) \<longrightarrow> m = j)"
proof -
  have "open_watch (sys_cache sample_watching) ''web'' 1 = Some \<lparr>w_Request = sample_request, w_Response = 0\<rparr>"
    by (simp add: sample_watching_def sample_status_def open_watch_def)
  from open_watch_owned [OF sample_reach(1) [of protobuf_sample] _ this] show ?thesis by simp
qed

text \<open>
  C3. Every response a client receives is genuine: it answers a request that came in on the
  same stream, carries that request's type URL, and its version and resources are those of a
  snapshot published for the node of the request, restricted to the resource names asked for.
  It is only sent when its version differs from the one the client has.
\<close>
theorem sent_responses_genuine:
  assumes "reach pb cbs b n s" and "n < 2 ^ 64 - 1" and "st \<in> set (sys_streams s)" and "out \<in> set (st_sent st)"
  shows "\<exists>req snap rs. req \<in> set (st_received st) \<and> (nodeID req, snap) \<in> set (sys_published s) \<and>
    dr_TypeUrl out = req_TypeUrl req \<and> dr_VersionInfo out = GetVersion (Some snap) (req_TypeUrl req) \<and>
    dr_VersionInfo out \<noteq> req_VersionInfo req \<and>
    set rs = {r. \<exists>x. map_of (GetResources (Some snap) (req_TypeUrl req)) x = Some r \<and>
      (req_ResourceNames req = [] \<or> x \<in> set (req_ResourceNames req))} \<and>
    marshal_all pb (req_TypeUrl req) rs = Inr (dr_Resources out)"
proof -
  have "honest pb s" using reach_honest [OF assms(1)] assms(2) by (simp add: id_limit_def)
  then have "delivered pb (sys_published s) (st_received st) out"
    using assms(3,4) by (auto simp: honest_def honest_stream_def)
  then obtain v where v: "genuine (sys_published s) v" "rsp_Request v \<in> set (st_received st)"
      "encodes pb (req_TypeUrl (rsp_Request v)) v out"
    by (auto simp: delivered_def)
  obtain snap where "(nodeID (rsp_Request v), snap) \<in> set (sys_published s)"
      "rsp_Version v = GetVersion (Some snap) (req_TypeUrl (rsp_Request v))"
      "rsp_Version v \<noteq> req_VersionInfo (rsp_Request v)"
      "set (rsp_Resources v) = {r. \<exists>x. map_of (GetResources (Some snap) (req_TypeUrl (rsp_Request v))) x = Some r \<and>
        (req_ResourceNames (rsp_Request v) = [] \<or> x \<in> set (req_ResourceNames (rsp_Request v)))}"
    using genuine_resources [OF v(1)] reach_published_wf [OF assms(1)] by fast
  then show ?thesis
    using v(2,3) unfolding encodes_def
    by (intro exI [of _ "rsp_Request v"] exI [of _ snap] exI [of _ "rsp_Resources v"] conjI) simp_all
qed

theorem sent_responses_genuine_witness:
  "\<exists>req snap rs. req \<in> set [sample_request] \<and> (nodeID req, snap) \<in> set (sys_published sample_sent) \<and>
    dr_TypeUrl sample_out = req_TypeUrl req \<and> dr_VersionInfo sample_out = GetVersion (Some snap) (req_TypeUrl req) \<and>
    dr_VersionInfo sample_out \<noteq> req_VersionInfo req \<and>
    set rs = {r. \<exists>x. map_of (GetResources (Some snap) (req_TypeUrl req)) x = Some r \<and>
      (req_ResourceNames req = [] \<or> x \<in> set (req_ResourceNames req))} \<and>
    marshal_all protobuf_sample (req_TypeUrl req) rs = Inr (dr_Resources sample_out)"
  using sent_responses_genuine [OF sample_sent_reach, of "sys_streams sample_sent ! 0" sample_out]
  by (simp add: sample_sent_stream)

text \<open>
  C4. Publishing reaches the client: when a snapshot is set for a node that has an open watch
  with another version, and the names match in ADS mode, then the stream that owns the watch
  finds the answer in its channel. Its next turn on that channel sends the new version and
  the marshalled resources under the next nonce, whatever else the server is doing.
\<close>
theorem publish_reaches_client:
  assumes "reach pb cbs b n s" and "n < 2 ^ 64 - 1" and "open_watch (sys_cache s) node i = Some w"
    and "answered (sys_cache s) snap (w_Request w)"
    and "snapshot_wf snap" and "is_order word" and "\<forall>i j. is_order (ords i j)"
    and "SetSnapshot word ords node snap (sys_heap s, sys_cache s) = Inr (h, c)"
    and "marshal_all pb (req_TypeUrl (w_Request w)) (rsp_Resources (reply (ords i) snap (w_Request w))) = Inr data"
  shows "\<exists>j t h' st'. j < length (sys_streams s) \<and> running (sys_streams s ! j) \<and>
    get_cancel t (st_values (sys_streams s ! j)) = Some (CancelWatch node i) \<and>
    on_response pb (sys_callbacks s) cancelWatch t None (h, c, sys_streams s ! j) = Some (h', c, st') \<and>
    running st' \<and>
    st_sent st' = st_sent (sys_streams s ! j) @
      [\<lparr>dr_VersionInfo = GetVersion (Some snap) (req_TypeUrl (w_Request w)), dr_Resources = data,
        dr_TypeUrl = req_TypeUrl (w_Request w),
        dr_Nonce = FormatInt (sint (st_nonce (sys_streams s ! j) + 1))\<rparr>]"
proof -
  have n: "n \<le> id_limit" using assms(2) by (simp add: id_limit_def)
  note inv = reach_inv [OF assms(1) n]
  obtain j t where j: "j < length (sys_streams s)" "running (sys_streams s ! j)"
      "get_cancel t (st_values (sys_streams s ! j)) = Some (CancelWatch node i)"
      "get_chan t (st_values (sys_streams s ! j)) = Some (w_Response w)"
    and ty: "req_TypeUrl (w_Request w) = type_url t"
    by (rule watch_stream [OF assms(1) n assms(3)])
  have "set_snapshot_post ords node snap (sys_heap s) (sys_cache s) h c"
    using SetSnapshot_inv [OF inv assms(5,6), of ords node] assms(7,8) by auto
  then have full: "h_chan h (w_Response w) = Some (full_chan (reply (ords i) snap (w_Request w)))"
    using assms(3,4) by (auto simp: set_snapshot_post_def)
  from on_response_full [OF j(4) full j(2) assms(9) [unfolded ty]] show ?thesis
    using j by (intro exI [of _ j] exI [of _ t]) (simp add: ty)
qed

theorem publish_reaches_client_witness:
  "\<exists>j t h' st'. j < length (sys_streams sample_watching) \<and> running (sys_streams sample_watching ! j) \<and>
    get_cancel t (st_values (sys_streams sample_watching ! j)) = Some (CancelWatch ''web'' 1) \<and>
    on_response protobuf_sample (sys_callbacks sample_watching) cancelWatch t None
      (sys_heap sample_published, sys_cache sample_published, sys_streams sample_watching ! j) =
      Some (h', sys_cache sample_published, st') \<and> running st' \<and>
    st_sent st' = st_sent (sys_streams sample_watching ! j) @
      [\<lparr>dr_VersionInfo = ''v1'', dr_Resources = [\<lparr>any_TypeUrl = RouteType, any_Value = []\<rparr>],
        dr_TypeUrl = RouteType, dr_Nonce = FormatInt (sint (st_nonce (sys_streams sample_watching ! j) + 1))\<rparr>]"
proof -
  let ?w = "\<lparr>w_Request = sample_request, w_Response = 0\<rparr>"
  have w: "open_watch (sys_cache sample_watching) ''web'' 1 = Some ?w"
    by (simp add: sample_watching_def sample_status_def open_watch_def)
  have a: "answered (sys_cache sample_watching) sample_snapshot (w_Request ?w)"
    by (simp add: answered_def outdated_def names_match_def sample_request_def sample_snapshot_facts)
  have d: "marshal_all protobuf_sample (req_TypeUrl (w_Request ?w))
      (rsp_Resources (reply (\<lambda>_. id) sample_snapshot (w_Request ?w))) =
      Inr [\<lparr>any_TypeUrl = RouteType, any_Value = []\<rparr>]"
    by (simp add: reply_def createResponse_def sample_request_def sample_snapshot_facts mrange_def protobuf_sample_def)
  have "\<forall>i j. is_order ((\<lambda>_ _. id) (i :: int64) (j :: nat) :: string order)" by simp
  from publish_reaches_client [OF sample_reach(1) [of protobuf_sample] _ w a sample_snapshot_facts(1) _ this
      sample_SetSnapshot d]
  show ?thesis by (simp add: sample_snapshot_facts sample_request_def)
qed

text \<open>
  C5. Nonces: the responses sent on a stream carry the nonces 1, 2, 3 and so on, so no two of
  them share one.
\<close>
theorem stream_nonces:
  assumes "reach pb cbs b n s" and "n < 2 ^ 64 - 1" and "st \<in> set (sys_streams s)"
    and "length (st_sent st) < 2 ^ 63"
  shows "map dr_Nonce (st_sent st) = map (\<lambda>k. FormatInt (int k)) [1..<length (st_sent st) + 1] \<and>
    distinct (map dr_Nonce (st_sent st))"
proof -
  have "honest pb s" using reach_honest [OF assms(1)] assms(2) by (simp add: id_limit_def)
  then have "nonces_ok st" using assms(3) by (auto simp: honest_def honest_stream_def)
  then have "map dr_Nonce (st_sent st) = map (\<lambda>k. FormatInt (int k)) [1..<length (st_sent st) + 1]"
    by (rule nonces_decimal [OF _ assms(4)])
  moreover have "inj_on (\<lambda>k. FormatInt (int k)) A" for A
    by (rule inj_onI) (auto dest: FormatInt_inj)
  ultimately show ?thesis by (simp add: distinct_map)
qed

theorem stream_nonces_witness:
  "map dr_Nonce [sample_out] = map (\<lambda>k. FormatInt (int k)) [1..<1 + 1] \<and> distinct (map dr_Nonce [sample_out])"
  using stream_nonces [OF sample_sent_reach, of "sys_streams sample_sent ! 0"]
  by (simp add: sample_sent_stream)

text \<open>
  C6. Stale requests are ignored: once a response of a type was sent on a running stream, a
  request of that type with any other nonce than the latest one of that type changes neither
  the cache nor the watches of the stream, so a client that lags behind cannot cancel a newer
  watch.
\<close>
theorem stale_request_ignored:
  assumes "reach pb cbs b n s" and "n < 2 ^ 64 - 1" and "i < length (sys_streams s)"
    and "running (sys_streams s ! i)" and "latest_nonce t (st_sent (sys_streams s ! i)) \<noteq> []"
    and "req_TypeUrl req = type_url t"
    and "req_ResponseNonce req \<noteq> latest_nonce t (st_sent (sys_streams s ! i))"
    and "case sys_callbacks s of None \<Rightarrow> True | Some cb \<Rightarrow> OnStreamRequest cb (st_id (sys_streams s ! i)) req = None"
  shows "begin_request (sys_callbacks s) cancelWatch (Some (Some req)) (sys_cache s, sys_streams s ! i) =
    (sys_cache s, note_request (sys_callbacks s) req (sys_streams s ! i))"
proof -
  have "honest pb s" using reach_honest [OF assms(1)] assms(2) by (simp add: id_limit_def)
  then have "nonces_ok (sys_streams s ! i)" using honestD(2) assms(3) by (simp add: honest_stream_def)
  then have "get_nonce t (st_values (sys_streams s ! i)) = latest_nonce t (st_sent (sys_streams s ! i))"
    using assms(4) by (simp add: nonces_ok_def)
  then have "select_watch req (st_values (sys_streams s ! i)) = None"
    using assms(5-7) by (simp add: select_watch_None)
  then show ?thesis
    using assms(6,8) by (simp add: begin_request_def Let_def split: option.splits)
qed

theorem stale_request_ignored_witness:
  "begin_request None cancelWatch (Some (Some sample_request)) (sys_cache sample_sent, sys_streams sample_sent ! 0) =
    (sys_cache sample_sent, note_request None sample_request (sys_streams sample_sent ! 0))"
proof -
  have "sys_callbacks sample_sent = None"
    by (simp add: sample_sent_def sample_published_def sample_watching_def sample_opened_def)
  moreover have "latest_nonce TRoute [sample_out] = ''1''"
    by (simp add: latest_nonce_def sample_out_def)
  ultimately show ?thesis
    using stale_request_ignored [OF sample_sent_reach, of 0 TRoute sample_request]
    by (simp add: sample_sent_stream sample_request_def)
qed

text \<open>
  C7. A turn of the updater: in every reachable state it publishes, for each node of the
  provider and without blocking, a snapshot of the configuration that \<open>node_spec\<close> demands
  (global clusters on the ingress port, local clusters, the two routes with one virtual host
  per name, the two listeners), it leaves other nodes alone, keeps the streams, and ends in a
  reachable state again. The node \<open>ingress\<close> always gets the generated ingress node, which
  overwrites a provider node of that name.
\<close>
theorem poll_publishes:
  assumes "reach pb cbs b n s" and "n < 2 ^ 64 - 1" and "provider_wf pc" and "readable pc"
    and "is_order (pe_first env)" and "is_order (pe_second env)" and "\<And>i. set_orders (pe_set env i)"
  shows "\<exists>t. reach pb cbs b (n + length pc + 1) t \<and> sys_streams t = sys_streams s \<and>
    Updater_poll (\<lambda>e. SetSnapshot (fst e) (snd e)) pb env (Inr pc) (sys_heap s, sys_cache s) =
      Inr (sys_heap t, sys_cache t) \<and>
    (\<forall>name cs. (name, cs) \<in> set pc \<longrightarrow> name \<noteq> ''ingress'' \<longrightarrow>
       (\<exists>nd i. node_spec pb (global_clusters (pe_first env) pc) (global_vhosts (pe_first env) pc) name cs nd \<and>
          map_of (snapshots (sys_cache t)) name = Some (node_snapshot pb (pe_node env i) nd))) \<and>
    (\<exists>nd i. ingress_node pb (global_clusters (pe_first env) pc) (global_vhosts (pe_first env) pc) = Inr nd \<and>
       map_of (snapshots (sys_cache t)) ''ingress'' = Some (node_snapshot pb (pe_node env i) nd)) \<and>
    (\<forall>m. m \<notin> fst ` set pc \<longrightarrow> m \<noteq> ''ingress'' \<longrightarrow>
       map_of (snapshots (sys_cache t)) m = map_of (snapshots (sys_cache s)) m)"
proof -
  have inv: "cache_inv (sys_heap s) (sys_cache s)"
    using reach_inv [OF assms(1)] assms(2) by (simp add: id_limit_def)
  obtain h c where poll: "Updater_poll (\<lambda>e. SetSnapshot (fst e) (snd e)) pb env (Inr pc) (sys_heap s, sys_cache s)
        = Inr (h, c)"
    and nodes: "\<And>name cs. (name, cs) \<in> set pc \<Longrightarrow> name \<noteq> ''ingress'' \<Longrightarrow>
       \<exists>nd i. node_spec pb (global_clusters (pe_first env) pc) (global_vhosts (pe_first env) pc) name cs nd \<and>
         map_of (snapshots c) name = Some (node_snapshot pb (pe_node env i) nd)"
    and ingress: "\<exists>nd i. ingress_node pb (global_clusters (pe_first env) pc) (global_vhosts (pe_first env) pc) = Inr nd \<and>
       map_of (snapshots c) ''ingress'' = Some (node_snapshot pb (pe_node env i) nd)"
    and other: "\<And>m. m \<notin> fst ` set pc \<Longrightarrow> m \<noteq> ''ingress'' \<Longrightarrow>
       map_of (snapshots c) m = map_of (snapshots (sys_cache s)) m"
    by (rule poll_snapshots [where env = env and pb = pb, OF inv assms(3-7)]) (rule that)
  obtain t where t: "reach pb cbs b (n + length pc + 1) t" "sys_heap t = h" "sys_cache t = c"
      "sys_streams t = sys_streams s"
    using poll_reach [OF assms(1,7,6) poll] by blast
  show ?thesis
    using t poll nodes ingress other by (intro exI [of _ t] conjI) simp_all
qed

theorem poll_publishes_witness:
  "\<exists>t nd i. reach protobuf_sample None False 5 t \<and>
    node_spec protobuf_sample (global_clusters id sample_clusters) (global_vhosts id sample_clusters) ''n1'' [sample_cluster] nd \<and>
    map_of (snapshots (sys_cache t)) ''n1'' = Some (node_snapshot protobuf_sample (pe_node sample_env i) nd)"
proof -
  have "pe_first sample_env = id" by (simp add: sample_env_def)
  with poll_publishes [OF sample_reach(1) _ sample_clusters_facts(1,2,4,5,3)]
  show ?thesis by (fastforce simp: sample_clusters_def)
qed

text \<open>The cache after stream number \<open>i\<close> has ended: its watches are closed and nothing else has changed.\<close>

definition released :: "system \<Rightarrow> nat \<Rightarrow> rheap \<Rightarrow> snapshot_cache \<Rightarrow> bool" where
  "released s i h c \<longleftrightarrow> cache_inv h c \<and> snapshots c = snapshots (sys_cache s) \<and>
     (\<forall>node j. watching_chan c (CancelWatch node j) =
        (if holds (sys_streams s ! i) (CancelWatch node j) then None else watching_chan (sys_cache s) (CancelWatch node j)))"

text \<open>
  C15. The end of a stream, in all its ways and with the error of each: the input ends, a nil request,
  an ADS request without a type, an error of a callback (\<open>request_end\<close>), a closed watch channel, a
  resource that cannot be marshalled, a failing \<open>Send\<close> (\<open>response_end\<close>). Whichever ends it, in every
  reachable state, exactly the watches that the stream holds are closed in the cache. A stream
  that \<open>OnStreamOpen\<close> refuses has not touched the cache.
\<close>
theorem stream_end_releases:
  assumes "reach pb cbs b n s" and "n < 2 ^ 64 - 1" and "i < length (sys_streams s)"
    and "running (sys_streams s ! i)" and "st_pending (sys_streams s ! i) = None"
  shows "(\<forall>incoming c st'. begin_request (sys_callbacks s) cancelWatch incoming (sys_cache s, sys_streams s ! i) = (c, st') \<longrightarrow>
      st_result st' = request_end (sys_callbacks s) (sys_streams s ! i) incoming \<and>
      (\<not> running st' \<longrightarrow> released s i (sys_heap s) c)) \<and>
    (\<forall>t ch res h c st'. get_chan t (st_values (sys_streams s ! i)) = Some ch \<longrightarrow>
      on_response pb (sys_callbacks s) cancelWatch t res (sys_heap s, sys_cache s, sys_streams s ! i) = Some (h, c, st') \<longrightarrow>
      st_result st' = response_end pb t res (fst (recv ch (sys_heap s))) \<and>
      (\<not> running st' \<longrightarrow> released s i h c)) \<and>
    (\<forall>u srv c st'. process_start cancelWatch u (sys_server s, sys_cache s) = (srv, c, st') \<longrightarrow>
      c = sys_cache s \<and> (\<forall>k. \<not> holds st' k))"
proof -
  let ?st = "sys_streams s ! i"
  have inv: "cache_inv (sys_heap s) (sys_cache s)"
    using reach_inv [OF assms(1)] assms(2) by (simp add: id_limit_def)
  have sinv: "sc.stream_inv (sys_heap s) (sys_cache s) ?st"
    using safe_stream [OF reach_safe [OF assms(1)] nth_mem [OF assms(3)]] assms(2) by (simp add: id_limit_def)
  have released: "released s i h c"
    if "sc.turn_ok (sys_heap s) (sys_cache s) ?st h c st'" "fewer_watches (sys_cache s) c" "\<not> running st'" for h c st'
    using that sc.turn_releases [OF that(1) assms(4) that(3)]
    unfolding released_def sc.turn_ok_def fewer_watches_def by blast
  have req: "st_result st' = request_end (sys_callbacks s) ?st incoming \<and> (\<not> running st' \<longrightarrow> released s i (sys_heap s) c)"
    if step: "begin_request (sys_callbacks s) cancelWatch incoming (sys_cache s, ?st) = (c, st')" for incoming c st'
    using begin_request_end [OF step assms(4)] begin_request_content [OF step]
      released [OF sc.begin_request_inv [OF inv sinv assms(5) step]] by blast
  have resp: "st_result st' = response_end pb t res (fst (recv ch (sys_heap s))) \<and> (\<not> running st' \<longrightarrow> released s i h c)"
    if ch: "get_chan t (st_values ?st) = Some ch"
      and step: "on_response pb (sys_callbacks s) cancelWatch t res (sys_heap s, sys_cache s, ?st) = Some (h, c, st')"
    for t ch res h c st'
  proof -
    have "fewer_watches (sys_cache s) c" by (rule on_response_content [OF step])
    then show ?thesis
      using on_response_end [OF step assms(4) ch] released [OF sc.on_response_inv [OF inv sinv step]] by blast
  qed
  have start: "c = sys_cache s \<and> (\<forall>k. \<not> holds st' k)"
    if "process_start cancelWatch u (sys_server s, sys_cache s) = (srv, c, st')" for u srv c st'
    using process_start_fields(1,6) [OF that] by blast
  show ?thesis using req resp start by simp
qed

theorem stream_end_releases_witness:
  "\<exists>c st. begin_request None cancelWatch None (sys_cache sample_watching, sys_streams sample_watching ! 0) = (c, st) \<and>
    st_result st = Some None \<and> watching_chan c (CancelWatch ''web'' 1) = None"
proof -
  have st: "sys_callbacks sample_watching = None" "holds (sys_streams sample_watching ! 0) (CancelWatch ''web'' 1)"
      "running (sys_streams sample_watching ! 0)" "st_pending (sys_streams sample_watching ! 0) = None"
      "0 < length (sys_streams sample_watching)"
    by (simp_all add: sample_watching_def sample_opened_def sample_stream_def sample_watches_def holds_iff)
  obtain c st where step: "begin_request None cancelWatch None (sys_cache sample_watching, sys_streams sample_watching ! 0) = (c, st)"
    by fastforce
  have "(3 :: nat) < 2 ^ 64 - 1" by simp
  note over = stream_end_releases [OF sample_reach(1) [of protobuf_sample] this st(5,3,4), THEN conjunct1, rule_format, unfolded st(1), OF step]
  show ?thesis
    using over step st(2) by (intro exI [of _ c] exI [of _ st]) (simp add: request_end_def released_def del: watching_chan.simps)
qed

text \<open>
  C28. A turn of the updater with the Fargate provider: when the account can be read, every task
  with a valid ARN that the service lists is a node of the cache afterwards. Its configuration is
  the one that \<open>node_spec\<close> demands for the services that \<open>findEndpoints\<close> finds for a listed task of
  that node (C19). Apart from \<open>ingress\<close> no other node changes; the turn is a run of the system and
  keeps all streams. When the provider returns an error, the turn changes nothing.
\<close>
theorem fargate_turn:
  assumes "reach pb cbs b n s" and "n < 2 ^ 64 - 1"
    and "GetClusters client ords w = Some (Inr (w', Inr pc))" and "\<And>p. is_order (ords p)" and "readable pc"
    and "is_order (pe_first env)" and "is_order (pe_second env)" and "\<And>i. set_orders (pe_set env i)"
  shows "(\<exists>t listed. read_account client ords w = Some (Inr (w', Inr listed)) \<and>
      reach pb cbs b (n + length pc + 1) t \<and> sys_streams t = sys_streams s \<and>
      Updater_turn (GetClusters client ords) (\<lambda>e. SetSnapshot (fst e) (snd e)) pb env (w, sys_heap s, sys_cache s) =
        Some (Inr (w', sys_heap t, sys_cache t)) \<and>
      (\<forall>task defs node. lists_task listed task defs \<longrightarrow> task_node task = Some node \<longrightarrow> node \<noteq> ''ingress'' \<longrightarrow>
         (\<exists>cs nd i. from_task listed node cs \<and>
            node_spec pb (global_clusters (pe_first env) pc) (global_vhosts (pe_first env) pc) node cs nd \<and>
            map_of (snapshots (sys_cache t)) node = Some (node_snapshot pb (pe_node env i) nd))) \<and>
      (\<forall>m. (\<nexists>task defs. lists_task listed task defs \<and> task_node task = Some m) \<longrightarrow> m \<noteq> ''ingress'' \<longrightarrow>
         map_of (snapshots (sys_cache t)) m = map_of (snapshots (sys_cache s)) m)) \<and>
    (\<forall>v v' err x. GetClusters client ords v = Some (Inr (v', Inl err)) \<longrightarrow>
       Updater_turn (GetClusters client ords) (\<lambda>e. SetSnapshot (fst e) (snd e)) pb env (v, x) = Some (Inr (v', x)))"
proof -
  obtain listed where read: "read_account client ords w = Some (Inr (w', Inr listed))" "fst ` set pc = task_nodes listed"
      "\<And>node cs. (node, cs) \<in> set pc \<Longrightarrow> from_task listed node cs"
    by (rule GetClusters_read [OF assms(3,4)]) (rule that)
  obtain t where t: "reach pb cbs b (n + length pc + 1) t" "sys_streams t = sys_streams s"
      "Updater_turn (GetClusters client ords) (\<lambda>e. SetSnapshot (fst e) (snd e)) pb env (w, sys_heap s, sys_cache s) =
        Some (Inr (w', sys_heap t, sys_cache t))"
    and nodes: "\<And>node cs. (node, cs) \<in> set pc \<Longrightarrow> node \<noteq> ''ingress'' \<Longrightarrow>
       \<exists>nd i. node_spec pb (global_clusters (pe_first env) pc) (global_vhosts (pe_first env) pc) node cs nd \<and>
          map_of (snapshots (sys_cache t)) node = Some (node_snapshot pb (pe_node env i) nd)"
    and other: "\<And>m. m \<notin> task_nodes listed \<Longrightarrow> m \<noteq> ''ingress'' \<Longrightarrow>
       map_of (snapshots (sys_cache t)) m = map_of (snapshots (sys_cache s)) m"
    using fargate.turn_reach [of "(client, ords)" w w' pc, OF _ _ assms(5,1,2,6-8)] assms(3,4) read(2) by auto
  have task: "\<exists>cs nd i. from_task listed node cs \<and>
      node_spec pb (global_clusters (pe_first env) pc) (global_vhosts (pe_first env) pc) node cs nd \<and>
      map_of (snapshots (sys_cache t)) node = Some (node_snapshot pb (pe_node env i) nd)"
    if "lists_task listed task defs" "task_node task = Some node" "node \<noteq> ''ingress''" for task defs node
  proof -
    have "node \<in> fst ` set pc" using that(1,2) by (auto simp: read(2) task_nodes_def)
    then obtain cs where "(node, cs) \<in> set pc" by force
    then show ?thesis using nodes [OF _ that(3)] read(3) by blast
  qed
  have "Updater_turn (GetClusters client ords) (\<lambda>e. SetSnapshot (fst e) (snd e)) pb env (v, x) = Some (Inr (v', x))"
    if "GetClusters client ords v = Some (Inr (v', Inl err))" for v v' err x
    using fargate.turn_error [of "(client, ords)" v v' err] that by simp
  moreover have "map_of (snapshots (sys_cache t)) m = map_of (snapshots (sys_cache s)) m"
    if "\<nexists>task defs. lists_task listed task defs \<and> task_node task = Some m" "m \<noteq> ''ingress''" for m
    by (rule other [OF _ that(2)]) (use that(1) in \<open>simp add: task_nodes_def\<close>)
  ultimately show ?thesis
    using read(1) t task by (intro conjI exI [of _ t] exI [of _ listed] allI impI)
qed

theorem fargate_turn_witness:
  "\<exists>(t :: system) cs nd i. Updater_turn (GetClusters (sample_client True) (\<lambda>_. id)) (\<lambda>e. SetSnapshot (fst e) (snd e)) protobuf_sample
      sample_env ((), sys_heap sample_watching, sys_cache sample_watching) = Some (Inr ((), sys_heap t, sys_cache t)) \<and>
    from_task [([(''def:1'', [sample_task])], [(''def:1'', Some sample_definition)])] ''web/7f'' cs \<and>
    map_of (snapshots (sys_cache t)) ''web/7f'' = Some (node_snapshot protobuf_sample (pe_node sample_env i) nd)"
proof -
  let ?listed = "[([(''def:1'', [sample_task])], [(''def:1'', Some sample_definition)])]"
  have r: "readable [(''web/7f'', clusters_from id sample_services)]"
    by (simp add: readable_def clusters_from_def sample_services_def mrange_def expected_status_def annotation_names range_stops_def)
  have "lists_task ?listed sample_task [(''def:1'', Some sample_definition)]" "task_node sample_task = Some ''web/7f''"
    by (simp_all add: lists_task_def task_node_def sample_task_def sample_node)
  note task = this
  have "(3 :: nat) < 2 ^ 64 - 1" and ids: "\<And>p. is_order ((\<lambda>_ :: nat list. id) p)" by simp_all
  note turn = fargate_turn [OF sample_reach(1) [of protobuf_sample] this(1) sample_GetClusters ids r
      sample_clusters_facts(4,5,3), THEN conjunct1]
  then obtain t :: system and listed where "read_account (sample_client True) (\<lambda>_. id) () = Some (Inr ((), Inr listed))"
    and t: "Updater_turn (GetClusters (sample_client True) (\<lambda>_. id)) (\<lambda>e. SetSnapshot (fst e) (snd e)) protobuf_sample
      sample_env ((), sys_heap sample_watching, sys_cache sample_watching) = Some (Inr ((), sys_heap t, sys_cache t))"
    and nodes: "\<forall>task defs node. lists_task listed task defs \<longrightarrow> task_node task = Some node \<longrightarrow> node \<noteq> ''ingress'' \<longrightarrow>
       (\<exists>cs nd i. from_task listed node cs \<and>
         node_spec protobuf_sample (global_clusters (pe_first sample_env) [(''web/7f'', clusters_from id sample_services)])
           (global_vhosts (pe_first sample_env) [(''web/7f'', clusters_from id sample_services)]) node cs nd \<and>
         map_of (snapshots (sys_cache t)) node = Some (node_snapshot protobuf_sample (pe_node sample_env i) nd))"
    by (elim exE conjE) (rule that; assumption)
  then have listed: "listed = ?listed" by (simp add: sample_read_account)
  have "''web/7f'' \<noteq> ''ingress''" by simp
  from nodes [rule_format, unfolded listed, OF task this] t show ?thesis by blast
qed

text \<open>
  C29. A turn of the updater with the file provider: the nodes of the file are published with the
  configuration that \<open>node_spec\<close> demands; a file that cannot be read or parsed leaves the cache
  as it is, so clients keep the last configuration.
\<close>
theorem file_turn:
  assumes "reach pb cbs b n s" and "n < 2 ^ 64 - 1" and "yaml_maps fs"
    and "ReadFile fs (fp_path p) w = (w', Inr content)" and "Unmarshal fs content = (None, cfg)" and "readable (Nodes cfg)"
    and "is_order (pe_first env)" and "is_order (pe_second env)" and "\<And>i. set_orders (pe_set env i)"
  shows "(\<exists>t. reach pb cbs b (n + length (Nodes cfg) + 1) t \<and> sys_streams t = sys_streams s \<and>
      Updater_turn (file_GetClusters fs p) (\<lambda>e. SetSnapshot (fst e) (snd e)) pb env (w, sys_heap s, sys_cache s) =
        Some (Inr (w', sys_heap t, sys_cache t)) \<and>
      (\<forall>name cs. (name, cs) \<in> set (Nodes cfg) \<longrightarrow> name \<noteq> ''ingress'' \<longrightarrow>
         (\<exists>nd i. node_spec pb (global_clusters (pe_first env) (Nodes cfg)) (global_vhosts (pe_first env) (Nodes cfg)) name cs nd \<and>
            map_of (snapshots (sys_cache t)) name = Some (node_snapshot pb (pe_node env i) nd)))) \<and>
    (\<forall>v v' err x. ReadFile fs (fp_path p) v = (v', Inl err) \<or>
         (\<exists>bytes cfg'. ReadFile fs (fp_path p) v = (v', Inr bytes) \<and> Unmarshal fs bytes = (Some err, cfg')) \<longrightarrow>
       Updater_turn (file_GetClusters fs p) (\<lambda>e. SetSnapshot (fst e) (snd e)) pb env (v, x) = Some (Inr (v', x)))"
proof -
  have g: "file_GetClusters fs p w = Some (Inr (w', Inr (Nodes cfg)))"
    using assms(4,5) by (simp add: file_GetClusters_value)
  have "Updater_turn (file_GetClusters fs p) (\<lambda>e. SetSnapshot (fst e) (snd e)) pb env (v, x) = Some (Inr (v', x))"
    if "ReadFile fs (fp_path p) v = (v', Inl err) \<or>
         (\<exists>bytes cfg'. ReadFile fs (fp_path p) v = (v', Inr bytes) \<and> Unmarshal fs bytes = (Some err, cfg'))" for v v' err x
  proof -
    have "file_GetClusters fs p v = Some (Inr (v', Inl err))" using that by (auto simp: file_GetClusters_iff)
    then show ?thesis using yaml.turn_error [of "(fs, p)" v v' err] by simp
  qed
  moreover obtain t where "reach pb cbs b (n + length (Nodes cfg) + 1) t" "sys_streams t = sys_streams s"
      "Updater_turn (file_GetClusters fs p) (\<lambda>e. SetSnapshot (fst e) (snd e)) pb env (w, sys_heap s, sys_cache s) =
        Some (Inr (w', sys_heap t, sys_cache t))"
      "\<And>name cs. (name, cs) \<in> set (Nodes cfg) \<Longrightarrow> name \<noteq> ''ingress'' \<Longrightarrow>
         \<exists>nd i. node_spec pb (global_clusters (pe_first env) (Nodes cfg)) (global_vhosts (pe_first env) (Nodes cfg)) name cs nd \<and>
           map_of (snapshots (sys_cache t)) name = Some (node_snapshot pb (pe_node env i) nd)"
    using yaml.turn_reach [of "(fs, p)" w w' "Nodes cfg", OF _ _ assms(6,1,2,7-9)] assms(3) g by auto
  ultimately show ?thesis by (intro conjI exI [of _ t] allI impI)
qed

theorem file_turn_witness:
  "\<exists>t. reach protobuf_sample None False 5 t \<and>
    Updater_turn (file_GetClusters \<lparr>ReadFile = \<lambda>_ w. (w, Inr []), Unmarshal = \<lambda>_. (None, \<lparr>Nodes = sample_clusters\<rparr>)\<rparr>
        \<lparr>fp_path = ''config.yaml''\<rparr>) (\<lambda>e. SetSnapshot (fst e) (snd e)) protobuf_sample sample_env
      ((), sys_heap sample_watching, sys_cache sample_watching) = Some (Inr ((), sys_heap t, sys_cache t)) \<and>
    mhas (snapshots (sys_cache t)) ''n1''"
proof -
  let ?fs = "\<lparr>ReadFile = \<lambda>_ w. (w, Inr []), Unmarshal = \<lambda>_. (None, \<lparr>Nodes = sample_clusters\<rparr>)\<rparr> :: unit file_system"
  have "yaml_maps ?fs" by (simp add: yaml_maps_def sample_clusters_facts)
  from file_turn [OF sample_reach(1) _ this _ _ _ sample_clusters_facts(4,5,3), of "\<lparr>fp_path = ''config.yaml''\<rparr>" "()" "()" "[]"
      "\<lparr>Nodes = sample_clusters\<rparr>"]
  show ?thesis using sample_clusters_facts(2) by (fastforce simp: sample_clusters_def)
qed

section \<open>Requests\<close>

text \<open>
  C30. The first request of a client, which has no version yet, is answered at once: when the
  updater has published the node, creating the watch returns a channel that already holds the
  resources asked for, with the version of the node, and leaves no watch behind.
\<close>
theorem first_request_answered:
  assumes "reach pb cbs b n s" and "n < 2 ^ 64 - 1" and "\<not> ads (sys_cache s)"
    and "map_of (snapshots (sys_cache s)) (nodeID req) = Some (node_snapshot pb ords nd)"
    and "req_TypeUrl req \<in> set [EndpointType, ClusterType, RouteType, ListenerType]" and "req_VersionInfo req = []"
    and "\<And>j. is_order (cords j)"
  shows "\<exists>h c ch resp. CreateWatch now cords req (sys_heap s, sys_cache s) = Inr ((h, c), ch, None) \<and>
    h_chan h ch = Some (full_chan resp) \<and> rsp_Request resp = req \<and>
    rsp_Version resp = computeVersion pb (Node_Endpoints (ords 0) nd) \<and>
    set (rsp_Resources resp) = {r. \<exists>x. map_of (GetResources (Some (node_snapshot pb ords nd)) (req_TypeUrl req)) x = Some r \<and>
      (req_ResourceNames req = [] \<or> x \<in> set (req_ResourceNames req))} \<and>
    (\<forall>m i. open_watch c m i = open_watch (sys_cache s) m i)"
proof -
  have lim: "n < id_limit" using assms(2) by (simp add: id_limit_def)
  note inv = reach_inv [OF assms(1) less_imp_le [OF lim]]
  have left: "ids_left (sys_cache s)" using reach_ids [OF assms(1) lim] by (simp only: ids_left_limit)
  let ?snap = "node_snapshot pb ords nd"
  note ver = node_snapshot_version [OF assms(5), of pb ords nd]
  have "GetVersion (Some ?snap) (req_TypeUrl req) \<noteq> []"
    unfolding ver using length_computeVersion [of pb "Node_Endpoints (ords 0) nd"] by auto
  then have out: "outdated ?snap req" "answered (sys_cache s) ?snap req"
    using assms(3,6) by (simp_all add: outdated_def answered_def names_match_def)
  obtain h c ch k where w: "CreateWatch now cords req (sys_heap s, sys_cache s) = Inr ((h, c), ch, k)"
      "create_watch_post cords req (sys_heap s) (sys_cache s) h c ch k"
    using CreateWatch_inv [OF inv left, of cords now req] assms(7) by blast
  then have p: "k = None" "h_chan h ch = Some (full_chan (reply cords ?snap req))"
      "\<forall>m i. open_watch c m i = open_watch (sys_cache s) m i"
    using out assms(4) by (auto simp: create_watch_post_def)
  show ?thesis
    using w(1) p reply_fields [of cords ?snap req] reply_resources [where ords = cords, OF assms(7) wf_node_snapshot [of pb ords nd], of req] ver
    by (intro exI [of _ h] exI [of _ c] exI [of _ ch] exI [of _ "reply cords ?snap req"]) simp
qed

theorem first_request_answered_witness:
  "\<exists>(s :: system) h c ch resp. CreateWatch 7 (\<lambda>_. rev) \<lparr>req_VersionInfo = [], req_Node = Some \<lparr>cn_Id = ''n'', cn_Cluster = []\<rparr>,
      req_ResourceNames = [], req_TypeUrl = ClusterType, req_ResponseNonce = []\<rparr> (sys_heap s, sys_cache s) = Inr ((h, c), ch, None) \<and>
    h_chan h ch = Some (full_chan resp) \<and> rsp_Version resp = computeVersion protobuf_sample (Node_Endpoints id (NewNode ''n''))"
proof -
  let ?req = "\<lparr>req_VersionInfo = [], req_Node = Some \<lparr>cn_Id = ''n'', cn_Cluster = []\<rparr>,
      req_ResourceNames = [], req_TypeUrl = ClusterType, req_ResponseNonce = []\<rparr> :: discovery_request"
  obtain s where "reach protobuf_sample None False 1 s" "\<not> ads (sys_cache s)"
      "map_of (snapshots (sys_cache s)) (nodeID ?req) = Some (node_snapshot protobuf_sample (\<lambda>_. id) (NewNode ''n''))"
    by (rule sample_published_node [of protobuf_sample]) (simp add: nodeID_def)
  from first_request_answered [OF this(1) _ this(2,3), of "\<lambda>_. rev" 7] obtain h c ch resp where
    "CreateWatch 7 (\<lambda>_. rev) ?req (sys_heap s, sys_cache s) = Inr ((h, c), ch, None)" "h_chan h ch = Some (full_chan resp)"
    "rsp_Version resp = computeVersion protobuf_sample (Node_Endpoints id (NewNode ''n''))" by auto
  then show ?thesis by blast
qed

text \<open>
  C13. What a unary fetch of any of the five types can return, without callbacks, as the program
  starts the server, and for any serialiser: a node that was never published and a client whose
  version is current get an error that says so. A client that is behind gets the resources asked
  for, each as it is marshalled, with the version of the snapshot; when one of these resources
  cannot be marshalled it gets that error instead. A nil request is refused.
\<close>
theorem fetch_answered:
  assumes "cache_inv h c" and "is_order ord"
  shows "(case map_of (snapshots c) (nodeID req) of
      None \<Rightarrow> fetch_typed pb None (\<lambda>r. Fetch ord r c) t (Some req) = ((None, Some (MissingSnapshot (nodeID req))), [])
    | Some snap \<Rightarrow>
        if GetVersion (Some snap) (type_url t) = req_VersionInfo req
        then fetch_typed pb None (\<lambda>r. Fetch ord r c) t (Some req) = ((None, Some VersionUpToDate), [])
        else \<exists>rs. set rs = {r. \<exists>x. map_of (GetResources (Some snap) (type_url t)) x = Some r \<and>
            (req_ResourceNames req = [] \<or> x \<in> set (req_ResourceNames req))} \<and>
          ((\<exists>anys. list_all2 (\<lambda>r a. \<exists>d. pb_Marshal pb r = Inr d \<and> a = \<lparr>any_TypeUrl = type_url t, any_Value = d\<rparr>) rs anys \<and>
              fetch_typed pb None (\<lambda>r. Fetch ord r c) t (Some req) =
                ((Some \<lparr>dr_VersionInfo = GetVersion (Some snap) (type_url t), dr_Resources = anys,
                    dr_TypeUrl = type_url t, dr_Nonce = []\<rparr>, None), [])) \<or>
           (\<exists>r \<in> set rs. \<exists>err. pb_Marshal pb r = Inl err \<and>
              fetch_typed pb None (\<lambda>r. Fetch ord r c) t (Some req) = ((None, Some err), [])))) \<and>
    fetch_typed pb None (\<lambda>r. Fetch ord r c) t None = ((None, Some (Status Unavailable ''empty request'')), [])"
proof -
  let ?req = "req\<lparr>req_TypeUrl := type_url t\<rparr>"
  have node: "nodeID ?req = nodeID req" by (simp add: nodeID_def)
  have err: "fetch_typed pb None (\<lambda>r. Fetch ord r c) t (Some req) = ((None, Some e), [])"
    if "Fetch ord ?req c = Inl e" for e
    using that by (simp add: fetch_typed_def server_Fetch_def)
  have nil: "fetch_typed pb None (\<lambda>r. Fetch ord r c) t None = ((None, Some (Status Unavailable ''empty request'')), [])"
    by (simp add: fetch_typed_def)
  have answer: "\<exists>rs. set rs = {r. \<exists>x. map_of (GetResources (Some snap) (type_url t)) x = Some r \<and>
        (req_ResourceNames req = [] \<or> x \<in> set (req_ResourceNames req))} \<and>
      fetch_typed pb None (\<lambda>r. Fetch ord r c) t (Some req) = (case marshal_all pb (type_url t) rs of
          Inl e \<Rightarrow> ((None, Some e), [])
        | Inr anys \<Rightarrow> ((Some \<lparr>dr_VersionInfo = GetVersion (Some snap) (type_url t), dr_Resources = anys,
            dr_TypeUrl = type_url t, dr_Nonce = []\<rparr>, None), []))"
    if snap: "map_of (snapshots c) (nodeID req) = Some snap"
      and behind: "GetVersion (Some snap) (type_url t) \<noteq> req_VersionInfo req" for snap
  proof -
    let ?resp = "reply (\<lambda>_. ord) snap ?req"
    have wf: "snapshot_wf snap" using assms(1) snap by (simp add: cache_inv_def cache_wf_def)
    have "Fetch ord ?req c = Inr ?resp"
      using snap behind by (simp add: Fetch_def Let_def node reply_def)
    then show ?thesis
      using reply_resources [where ords = "\<lambda>_. ord", OF assms(2) wf, of ?req]
      by (intro exI [of _ "rsp_Resources ?resp"])
        (cases "marshal_all pb (type_url t) (rsp_Resources ?resp)";
          simp add: fetch_typed_def server_Fetch_def Let_def server_createResponse_def)
  qed
  show ?thesis
  proof (cases "map_of (snapshots c) (nodeID req)")
    case None
    then show ?thesis using err nil by (simp add: Fetch_def node)
  next
    case (Some snap)
    show ?thesis
    proof (cases "GetVersion (Some snap) (type_url t) = req_VersionInfo req")
      case True
      then show ?thesis using Some err nil by (simp add: Fetch_def node Let_def)
    next
      case False
      from answer [OF Some False] obtain rs where rs: "set rs = {r. \<exists>x. map_of (GetResources (Some snap) (type_url t)) x = Some r \<and>
            (req_ResourceNames req = [] \<or> x \<in> set (req_ResourceNames req))}"
        and out: "fetch_typed pb None (\<lambda>r. Fetch ord r c) t (Some req) = (case marshal_all pb (type_url t) rs of
            Inl e \<Rightarrow> ((None, Some e), [])
          | Inr anys \<Rightarrow> ((Some \<lparr>dr_VersionInfo = GetVersion (Some snap) (type_url t), dr_Resources = anys,
              dr_TypeUrl = type_url t, dr_Nonce = []\<rparr>, None), []))" by blast
      have "(\<exists>anys. list_all2 (\<lambda>r a. \<exists>d. pb_Marshal pb r = Inr d \<and> a = \<lparr>any_TypeUrl = type_url t, any_Value = d\<rparr>) rs anys \<and>
              fetch_typed pb None (\<lambda>r. Fetch ord r c) t (Some req) =
                ((Some \<lparr>dr_VersionInfo = GetVersion (Some snap) (type_url t), dr_Resources = anys,
                    dr_TypeUrl = type_url t, dr_Nonce = []\<rparr>, None), [])) \<or>
           (\<exists>r \<in> set rs. \<exists>err. pb_Marshal pb r = Inl err \<and>
              fetch_typed pb None (\<lambda>r. Fetch ord r c) t (Some req) = ((None, Some err), []))"
      proof (cases "marshal_all pb (type_url t) rs")
        case (Inl e)
        with marshal_all_Inl [OF this] show ?thesis by (auto simp: out)
      next
        case (Inr anys)
        with marshal_all_Inr [OF this] show ?thesis by (auto simp: out)
      qed
      with rs show ?thesis
        unfolding Some option.case if_not_P [OF False] by (intro conjI exI [of _ rs]) (rule nil | assumption)+
    qed
  qed
qed

theorem fetch_answered_witness:
  "fetch_typed protobuf_sample None (\<lambda>r. Fetch rev r (NewSnapshotCache False)) TCluster (Some sample_request) =
     ((None, Some (MissingSnapshot ''web'')), []) \<and>
   (\<exists>c out. fetch_typed protobuf_sample None (\<lambda>r. Fetch rev r c) TRoute (Some sample_request) = ((Some out, None), []) \<and>
     dr_TypeUrl out = RouteType \<and> dr_VersionInfo out = ''v1'')"
proof -
  let ?c = "sys_cache sample_published"
  have snap: "map_of (snapshots ?c) (nodeID sample_request) = Some sample_snapshot"
    by (simp add: sample_published_def sample_request_def nodeID_def)
  have ver: "GetVersion (Some sample_snapshot) (type_url TRoute) = ''v1''" "req_VersionInfo sample_request = []"
    by (simp_all add: sample_snapshot_def sample_request_def GetVersion_def NewSnapshot_def NewResources_def)
  have total: "pb_Marshal protobuf_sample r \<noteq> Inl err" for r err by (simp add: protobuf_sample_def)
  have "(4 :: nat) \<le> id_limit" by (simp add: id_limit_def)
  from reach_inv [OF sample_reach(2) this] have inv: "cache_inv (sys_heap sample_published) ?c" .
  have "\<exists>out. fetch_typed protobuf_sample None (\<lambda>r. Fetch rev r ?c) TRoute (Some sample_request) = ((Some out, None), []) \<and>
      dr_TypeUrl out = RouteType \<and> dr_VersionInfo out = ''v1''"
    using fetch_answered [OF inv is_order_rev, where req = sample_request and pb = protobuf_sample and t = TRoute] ver total by (fastforce simp: snap)
  moreover have "fetch_typed protobuf_sample None (\<lambda>r. Fetch rev r (NewSnapshotCache False)) TCluster (Some sample_request) =
      ((None, Some (MissingSnapshot ''web'')), [])"
    using fetch_answered [OF NewSnapshotCache_inv is_order_rev, where req = sample_request and pb = protobuf_sample and t = TCluster]
    by (simp add: NewSnapshotCache_def sample_request_def nodeID_def)
  ultimately show ?thesis by blast
qed

section \<open>From the configuration file to the client\<close>

text \<open>
  C14. A change of the configuration file reaches the clients, outside the ADS mode, which the
  program never uses: when the updater reads a file with a node that a client waits for, the turn
  publishes what the file says about the node. If the version changed, the client's stream can
  go on at once. It sends exactly the resources asked for of that configuration, marshalled, with
  their version and the next nonce; when one of them cannot be marshalled, it sends nothing and
  ends with that error. If the version did not change, the client goes on waiting.
\<close>
theorem config_change_reaches_client:
  assumes "reach pb cbs b n s" and "n < 2 ^ 64 - 1" and "\<not> ads (sys_cache s)" and "yaml_maps fs"
    and "ReadFile fs (fp_path p) w = (w', Inr content)" and "Unmarshal fs content = (None, cfg)" and "readable (Nodes cfg)"
    and "is_order (pe_first env)" and "is_order (pe_second env)" and "\<And>i. set_orders (pe_set env i)"
    and "(name, cs) \<in> set (Nodes cfg)" and "name \<noteq> ''ingress''"
    and "open_watch (sys_cache s) name i = Some wa"
    and "req_TypeUrl (w_Request wa) \<in> set [EndpointType, ClusterType, RouteType, ListenerType]"
  shows "\<exists>t nd k. reach pb cbs b (n + length (Nodes cfg) + 1) t \<and>
    Updater_turn (file_GetClusters fs p) (\<lambda>e. SetSnapshot (fst e) (snd e)) pb env (w, sys_heap s, sys_cache s) =
      Some (Inr (w', sys_heap t, sys_cache t)) \<and>
    node_spec pb (global_clusters (pe_first env) (Nodes cfg)) (global_vhosts (pe_first env) (Nodes cfg)) name cs nd \<and>
    (if computeVersion pb (Node_Endpoints (pe_node env k 0) nd) = req_VersionInfo (w_Request wa)
     then open_watch (sys_cache t) name i = Some wa
     else \<exists>j < length (sys_streams t). \<exists>ty h' c' st' rs.
       get_cancel ty (st_values (sys_streams t ! j)) = Some (CancelWatch name i) \<and>
       on_response pb (sys_callbacks t) cancelWatch ty None (sys_heap t, sys_cache t, sys_streams t ! j) =
         Some (h', c', st') \<and>
       set rs = {r. \<exists>x. map_of (GetResources (Some (node_snapshot pb (pe_node env k) nd)) (req_TypeUrl (w_Request wa))) x = Some r \<and>
         (req_ResourceNames (w_Request wa) = [] \<or> x \<in> set (req_ResourceNames (w_Request wa)))} \<and>
       (case marshal_all pb (req_TypeUrl (w_Request wa)) rs of
          Inr data \<Rightarrow> running st' \<and> c' = sys_cache t \<and>
            st_sent st' = st_sent (sys_streams t ! j) @ [\<lparr>
              dr_VersionInfo = computeVersion pb (Node_Endpoints (pe_node env k 0) nd), dr_Resources = data,
              dr_TypeUrl = req_TypeUrl (w_Request wa), dr_Nonce = FormatInt (sint (st_nonce (sys_streams t ! j) + 1))\<rparr>]
        | Inl err \<Rightarrow> (\<exists>r \<in> set rs. pb_Marshal pb r = Inl err) \<and> st_result st' = Some (Some err) \<and>
            st_sent st' = st_sent (sys_streams t ! j)))"
proof -
  have n: "n \<le> id_limit" using assms(2) by (simp add: id_limit_def)
  have g: "file_GetClusters fs p w = Some (Inr (w', Inr (Nodes cfg)))"
    using assms(5,6) by (simp add: file_GetClusters_value)
  obtain t nd k ords where t: "reach pb cbs b (n + length (Nodes cfg) + 1) t" "sys_streams t = sys_streams s"
      "Updater_turn (file_GetClusters fs p) (\<lambda>e. SetSnapshot (fst e) (snd e)) pb env (w, sys_heap s, sys_cache s) =
        Some (Inr (w', sys_heap t, sys_cache t))"
      "node_spec pb (global_clusters (pe_first env) (Nodes cfg)) (global_vhosts (pe_first env) (Nodes cfg)) name cs nd"
    and ords: "\<And>j. is_order (ords j)"
    and full: "answered (sys_cache s) (node_snapshot pb (pe_node env k) nd) (w_Request wa) \<Longrightarrow>
      h_chan (sys_heap t) (w_Response wa) = Some (full_chan (reply ords (node_snapshot pb (pe_node env k) nd) (w_Request wa)))"
    and same: "\<not> outdated (node_snapshot pb (pe_node env k) nd) (w_Request wa) \<Longrightarrow> open_watch (sys_cache t) name i = Some wa"
    by (rule yaml.turn_watch [of "(fs, p)" w w' "Nodes cfg", unfolded prod.case, OF assms(4) g assms(7,1,2,8-13)])
      (rule that, assumption+)
  let ?snap = "node_snapshot pb (pe_node env k) nd" and ?url = "req_TypeUrl (w_Request wa)"
  note ver = node_snapshot_version [OF assms(14), of pb "pe_node env k" nd]
  show ?thesis
  proof (cases "outdated ?snap (w_Request wa)")
    case False
    then show ?thesis
      using t same ver by (intro exI [of _ t] exI [of _ nd] exI [of _ k]) (simp add: outdated_def)
  next
    case True
    obtain j ty where j: "j < length (sys_streams s)" "running (sys_streams s ! j)"
        "get_cancel ty (st_values (sys_streams s ! j)) = Some (CancelWatch name i)"
        "get_chan ty (st_values (sys_streams s ! j)) = Some (w_Response wa)" "?url = type_url ty"
      by (rule watch_stream [OF assms(1) n assms(13)])
    let ?resp = "reply ords ?snap (w_Request wa)"
    have "answered (sys_cache s) ?snap (w_Request wa)"
      using True assms(3) by (simp add: answered_def names_match_def)
    note chan = full [OF this]
    note rs = reply_resources [where ords = ords, OF ords wf_node_snapshot [of pb "pe_node env k" nd], of "w_Request wa"]
    have st: "j < length (sys_streams t)" "get_cancel ty (st_values (sys_streams t ! j)) = Some (CancelWatch name i)"
      using j t(2) by simp_all
    have "\<exists>h' c' st'. on_response pb (sys_callbacks t) cancelWatch ty None (sys_heap t, sys_cache t, sys_streams t ! j) =
          Some (h', c', st') \<and>
        (case marshal_all pb ?url (rsp_Resources ?resp) of
           Inr data \<Rightarrow> running st' \<and> c' = sys_cache t \<and> st_sent st' = st_sent (sys_streams t ! j) @ [\<lparr>
             dr_VersionInfo = computeVersion pb (Node_Endpoints (pe_node env k 0) nd), dr_Resources = data,
             dr_TypeUrl = ?url, dr_Nonce = FormatInt (sint (st_nonce (sys_streams t ! j) + 1))\<rparr>]
         | Inl err \<Rightarrow> (\<exists>r \<in> set (rsp_Resources ?resp). pb_Marshal pb r = Inl err) \<and> st_result st' = Some (Some err) \<and>
             st_sent st' = st_sent (sys_streams t ! j))"
    proof (cases "marshal_all pb ?url (rsp_Resources ?resp)")
      case (Inl err)
      from on_response_unmarshalled [OF j(4) chan Inl [unfolded j(5)], of "sys_callbacks t" "sys_cache t"]
      show ?thesis using marshal_all_Inl [OF Inl] by (simp add: Inl t(2))
    next
      case (Inr data)
      from on_response_full [OF j(4) chan j(2) Inr [unfolded j(5)], of "sys_callbacks t" "sys_cache t"]
      show ?thesis by (simp add: Inr [unfolded j(5)] j(5) t(2) ver [unfolded j(5)])
    qed
    then obtain h' c' st' where step: "on_response pb (sys_callbacks t) cancelWatch ty None
        (sys_heap t, sys_cache t, sys_streams t ! j) = Some (h', c', st')"
      and out: "case marshal_all pb ?url (rsp_Resources ?resp) of
           Inr data \<Rightarrow> running st' \<and> c' = sys_cache t \<and> st_sent st' = st_sent (sys_streams t ! j) @ [\<lparr>
             dr_VersionInfo = computeVersion pb (Node_Endpoints (pe_node env k 0) nd), dr_Resources = data,
             dr_TypeUrl = ?url, dr_Nonce = FormatInt (sint (st_nonce (sys_streams t ! j) + 1))\<rparr>]
         | Inl err \<Rightarrow> (\<exists>r \<in> set (rsp_Resources ?resp). pb_Marshal pb r = Inl err) \<and> st_result st' = Some (Some err) \<and>
             st_sent st' = st_sent (sys_streams t ! j)" by blast
    have new: "computeVersion pb (Node_Endpoints (pe_node env k 0) nd) \<noteq> req_VersionInfo (w_Request wa)"
      using True ver by (simp add: outdated_def)
    show ?thesis
      by (rule exI [of _ t], rule exI [of _ nd], rule exI [of _ k], intro conjI, rule t(1), rule t(3), rule t(4),
          unfold if_not_P [OF new], intro exI conjI, rule st(1), rule st(2), rule step, rule rs, rule out)
  qed
qed

theorem config_change_reaches_client_witness:
  "\<exists>t j ty h' st' out. Updater_turn (file_GetClusters
        \<lparr>ReadFile = \<lambda>_ w. (w, Inr []), Unmarshal = \<lambda>_. (None, \<lparr>Nodes = [(''web'', [sample_cluster])]\<rparr>)\<rparr>
        \<lparr>fp_path = ''config.yaml''\<rparr>) (\<lambda>e. SetSnapshot (fst e) (snd e)) protobuf_sample sample_env
      ((), sys_heap sample_watching, sys_cache sample_watching) = Some (Inr ((), sys_heap t, sys_cache t)) \<and>
    on_response protobuf_sample (sys_callbacks t) cancelWatch ty None (sys_heap t, sys_cache t, sys_streams t ! j) =
      Some (h', sys_cache t, st') \<and>
    st_sent st' = st_sent (sys_streams t ! j) @ [out] \<and> dr_TypeUrl out = RouteType \<and> length (dr_VersionInfo out) = 32"
proof -
  let ?pc = "[(''web'', [sample_cluster])] :: provider_clusters"
  let ?fs = "\<lparr>ReadFile = \<lambda>_ w. (w, Inr []), Unmarshal = \<lambda>_. (None, \<lparr>Nodes = ?pc\<rparr>)\<rparr> :: unit file_system"
  have pc: "provider_wf ?pc" "readable ?pc"
    using sample_clusters_facts(1,2) by (simp_all add: provider_wf_def readable_def sample_clusters_def map_wf_def)
  have fs: "yaml_maps ?fs" by (simp add: yaml_maps_def pc)
  have w: "open_watch (sys_cache sample_watching) ''web'' 1 = Some \<lparr>w_Request = sample_request, w_Response = 0\<rparr>"
    by (simp add: sample_watching_def sample_status_def open_watch_def)
  have ads: "\<not> ads (sys_cache sample_watching)" by (simp add: sample_watching_def)
  have total: "\<exists>data. marshal_all protobuf_sample u rs = Inr data" for u rs
  proof (cases "marshal_all protobuf_sample u rs")
    case (Inl e)
    from marshal_all_Inl [OF this] show ?thesis by (simp add: protobuf_sample_def)
  qed simp
  have rd: "ReadFile ?fs (fp_path \<lparr>fp_path = ''config.yaml''\<rparr>) () = ((), Inr [])" by simp
  have um: "Unmarshal ?fs [] = (None, \<lparr>Nodes = ?pc\<rparr>)" by simp
  have ty: "req_TypeUrl (w_Request \<lparr>w_Request = sample_request, w_Response = 0\<rparr>)
      \<in> set [EndpointType, ClusterType, RouteType, ListenerType]" by (simp add: sample_request_def)
  have mem: "(''web'', [sample_cluster]) \<in> set (Nodes \<lparr>Nodes = ?pc\<rparr>)" "readable (Nodes \<lparr>Nodes = ?pc\<rparr>)" "''web'' \<noteq> ''ingress''"
    using pc by simp_all
  have vers: "length (computeVersion protobuf_sample rs) = 32" "computeVersion protobuf_sample rs \<noteq> req_VersionInfo sample_request" for rs
    using length_computeVersion [of protobuf_sample rs] by (auto simp: sample_request_def)
  have url: "req_TypeUrl sample_request = RouteType" by (simp add: sample_request_def)
  have "(3 :: nat) < 2 ^ 64 - 1" by simp
  from config_change_reaches_client [OF sample_reach(1) [of protobuf_sample] this ads fs rd um mem(2)
      sample_clusters_facts(4,5,3) mem(1,3) w ty]
  obtain t j ty h' c' st' rs ver where turn: "Updater_turn (file_GetClusters ?fs \<lparr>fp_path = ''config.yaml''\<rparr>)
        (\<lambda>e. SetSnapshot (fst e) (snd e)) protobuf_sample sample_env ((), sys_heap sample_watching, sys_cache sample_watching) =
        Some (Inr ((), sys_heap t, sys_cache t))"
    and step: "on_response protobuf_sample (sys_callbacks t) cancelWatch ty None (sys_heap t, sys_cache t, sys_streams t ! j) =
        Some (h', c', st')"
    and out: "case marshal_all protobuf_sample RouteType rs of
        Inr data \<Rightarrow> running st' \<and> c' = sys_cache t \<and>
          st_sent st' = st_sent (sys_streams t ! j) @ [\<lparr>dr_VersionInfo = ver, dr_Resources = data,
            dr_TypeUrl = RouteType, dr_Nonce = FormatInt (sint (st_nonce (sys_streams t ! j) + 1))\<rparr>]
      | Inl err \<Rightarrow> (\<exists>r \<in> set rs. pb_Marshal protobuf_sample r = Inl err) \<and> st_result st' = Some (Some err) \<and>
          st_sent st' = st_sent (sys_streams t ! j)"
    and "length ver = 32"
    unfolding response_watch.select_convs
    by (elim exE conjE) (unfold if_not_P [OF vers(2)] url, elim exE conjE, rule that [OF _ _ _ vers(1)], assumption+)
  obtain data where "marshal_all protobuf_sample RouteType rs = Inr data" using total by blast
  obtain resp :: discovery_response where resp_def: "resp = \<lparr>dr_VersionInfo = ver, dr_Resources = data,
      dr_TypeUrl = RouteType, dr_Nonce = FormatInt (sint (st_nonce (sys_streams t ! j) + 1))\<rparr>" by blast
  have "c' = sys_cache t" "st_sent st' = st_sent (sys_streams t ! j) @ [resp]"
    using out \<open>marshal_all protobuf_sample RouteType rs = Inr data\<close> by (simp_all add: resp_def)
  moreover have "dr_TypeUrl resp = RouteType" "length (dr_VersionInfo resp) = 32"
    using \<open>length ver = 32\<close> by (simp_all add: resp_def)
  ultimately show ?thesis using turn step by blast
qed

end
